(* ===== verification/Servd_Prelude.thy ===== *)
theory Servd_Prelude
  imports Main "HOL-Library.Word"
begin

unbundle bit_operations_syntax

text \<open>
  Shared vocabulary of the servd development: machine integers and bytes, the
  exceptions the code throws, the three ways a coroutine can be left when control
  comes back to the event loop, and the little-endian object representation that the
  packed structs of the wire protocol have in memory.
\<close>

section \<open>Types\<close>

type_synonym byte = "8 word"
type_synonym u8 = "8 word"
type_synonym u16 = "16 word"
type_synonym u32 = "32 word"
type_synonym u64 = "64 word"
type_synonym bytes = "byte list"
type_synonym fd = int

named_theorems co_simps \<open>evaluation of coroutine combinators\<close>
named_theorems wire_simps \<open>layout of the packed structs\<close>

text \<open>
  Exceptions. Everything but the last constructor derives from
  \<^verbatim>\<open>std::exception\<close>; \<open>ForeignException\<close> is a thrown value that does not (user
  code may throw any type), which no handler of the engine catches.
\<close>

datatype exn =
    RuntimeError string
  | SystemError int
  | InvalidArgument
  | OutOfRange
  | BadAnyCast
  | BadAlloc
  | ForeignException

fun is_std_exception :: "exn \<Rightarrow> bool" where
  "is_std_exception ForeignException = False"
| "is_std_exception _ = True"

section \<open>Coroutines\<close>

text \<open>
  A coroutine body run against a state \<open>'s\<close> either returns, throws, or is still
  suspended because the environment has not yet delivered the completion it waits for
  (\<open>Pending\<close>). \<open>co_bind\<close> is \<^verbatim>\<open>co_await\<close> followed by the rest of the body:
  \<^verbatim>\<open>Task::await_resume\<close> rethrows the exception of the awaited task and otherwise
  hands over its value.
\<close>

datatype 'a outcome = Ret 'a | Throw exn | Pending

type_synonym ('s, 'a) co = "'s \<Rightarrow> 'a outcome \<times> 's"

definition co_ret :: "'a \<Rightarrow> ('s, 'a) co" where
  "co_ret a s = (Ret a, s)"

definition co_throw :: "exn \<Rightarrow> ('s, 'a) co" where
  "co_throw e s = (Throw e, s)"

definition co_bind :: "('s, 'a) co \<Rightarrow> ('a \<Rightarrow> ('s, 'b) co) \<Rightarrow> ('s, 'b) co" where
  "co_bind m f s =
     (case m s of
        (Ret a, s') \<Rightarrow> f a s'
      | (Throw e, s') \<Rightarrow> (Throw e, s')
      | (Pending, s') \<Rightarrow> (Pending, s'))"

definition co_seq :: "('s, 'a) co \<Rightarrow> ('s, 'b) co \<Rightarrow> ('s, 'b) co" where
  "co_seq m k = co_bind m (\<lambda>_. k)"

definition co_of_sum :: "exn + 'a \<Rightarrow> ('s, 'a) co" where
  "co_of_sum r s = (case r of Inl e \<Rightarrow> (Throw e, s) | Inr a \<Rightarrow> (Ret a, s))"

lemma co_ret_apply [simp, co_simps]: "co_ret a s = (Ret a, s)"
  by (simp add: co_ret_def)

lemma co_throw_apply [simp, co_simps]: "co_throw e s = (Throw e, s)"
  by (simp add: co_throw_def)

lemma co_of_sum_simps [simp, co_simps]:
  "co_of_sum (Inl e) s = (Throw e, s)" "co_of_sum (Inr a) s = (Ret a, s)"
  by (simp_all add: co_of_sum_def)

lemma co_bind_Ret [co_simps]: "m s = (Ret a, s') \<Longrightarrow> co_bind m f s = f a s'"
  by (simp add: co_bind_def)

lemma co_bind_Throw [co_simps]: "m s = (Throw e, s') \<Longrightarrow> co_bind m f s = (Throw e, s')"
  by (simp add: co_bind_def)

lemma co_bind_Pending [co_simps]: "m s = (Pending, s') \<Longrightarrow> co_bind m f s = (Pending, s')"
  by (simp add: co_bind_def)

lemma co_seq_simps [co_simps]:
  "m s = (Ret a, s') \<Longrightarrow> co_seq m k s = k s'"
  "m s = (Throw e, s') \<Longrightarrow> co_seq m k s = (Throw e, s')"
  "m s = (Pending, s') \<Longrightarrow> co_seq m k s = (Pending, s')"
  by (simp_all add: co_seq_def co_bind_def)

lemma co_bind_ret_left [simp]: "co_bind (co_ret a) f = f a"
  by (rule ext) (simp add: co_bind_def)

lemma co_bind_ret_right [simp]: "co_bind m co_ret = m"
  by (rule ext) (auto simp: co_bind_def split: prod.split outcome.split)

lemma co_bind_assoc: "co_bind (co_bind m f) g = co_bind m (\<lambda>x. co_bind (f x) g)"
  by (rule ext) (auto simp: co_bind_def split: prod.split outcome.split)

lemma co_bind_RetE:
  assumes "co_bind m f s = (Ret b, t)"
  obtains a s' where "m s = (Ret a, s')" and "f a s' = (Ret b, t)"
  using assms by (auto simp: co_bind_def split: prod.splits outcome.splits)

text \<open>A coroutine that keeps a property of the state, however it ends.\<close>

definition keeps :: "('s \<Rightarrow> bool) \<Rightarrow> ('s, 'a) co \<Rightarrow> bool" where
  "keeps P m \<longleftrightarrow> (\<forall>s. P s \<longrightarrow> P (snd (m s)))"

lemma keepsD: "keeps P m \<Longrightarrow> P s \<Longrightarrow> P (snd (m s))"
  by (simp add: keeps_def)

lemma keeps_ret [intro]: "keeps P (co_ret a)"
  by (simp add: keeps_def)

lemma keeps_bind [intro]:
  assumes "keeps P m" "\<And>a. keeps P (f a)"
  shows "keeps P (co_bind m f)"
  unfolding keeps_def
proof (intro allI impI)
  fix s assume "P s"
  then have "P (snd (m s))" using assms(1) by (simp add: keeps_def)
  then show "P (snd (co_bind m f s))"
    using assms(2) by (auto simp: co_bind_def keeps_def split: prod.split outcome.split)
qed

lemma keeps_seq [intro]: "keeps P m \<Longrightarrow> keeps P k \<Longrightarrow> keeps P (co_seq m k)"
  unfolding co_seq_def by (rule keeps_bind)

section \<open>Little-endian object representation\<close>

text \<open>
  \<^verbatim>\<open>std::memcpy\<close> of an unsigned integer on the little-endian targets of servd: the
  least significant byte comes first.
\<close>

fun le_bytes :: "nat \<Rightarrow> 'a::len word \<Rightarrow> bytes" where
  "le_bytes 0 w = []"
| "le_bytes (Suc n) w = ucast w # le_bytes n (drop_bit 8 w)"

fun le_word :: "bytes \<Rightarrow> 'a::len word" where
  "le_word [] = 0"
| "le_word (b # bs) = ucast b OR push_bit 8 (le_word bs)"

lemma length_le_bytes [simp]: "length (le_bytes n w) = n"
  by (induction n arbitrary: w) auto

lemma bit_le_word:
  "bit (le_word bs :: 'a::len word) i \<longleftrightarrow>
     i < LENGTH('a) \<and> i < 8 * length bs \<and> bit (bs ! (i div 8)) (i mod 8)"
proof (induction bs arbitrary: i)
  case Nil
  then show ?case by simp
next
  case (Cons b bs)
  show ?case
  proof (cases "i < 8")
    case True
    then show ?thesis
      by (auto simp: bit_simps)
  next
    case False
    then have "i div 8 = Suc ((i - 8) div 8)" "i mod 8 = (i - 8) mod 8"
      by (auto simp: le_div_geq le_mod_geq)
    moreover have "\<not> bit b i"
      using False by (auto dest: bit_imp_le_length)
    ultimately show ?thesis
      using False Cons.IH [of "i - 8"]
      by (auto simp: bit_simps) 
  qed
qed

lemma bit_le_bytes:
  "j < n \<Longrightarrow> bit (le_bytes n w ! j) k \<longleftrightarrow> k < 8 \<and> bit w (8 * j + k)"
proof (induction n arbitrary: w j)
  case 0
  then show ?case by simp
next
  case (Suc n)
  show ?case
  proof (cases j)
    case 0
    then show ?thesis by (auto simp: bit_simps)
  next
    case (Suc j')
    with Suc.prems Suc.IH [of j' "drop_bit 8 w"] show ?thesis
      by (auto simp: bit_simps algebra_simps)
  qed
qed

lemma le_word_le_bytes:
  "LENGTH('a) \<le> 8 * n \<Longrightarrow> le_word (le_bytes n (w :: 'a::len word)) = w"
proof (rule bit_word_eqI)
  fix i
  assume n: "LENGTH('a) \<le> 8 * n" and i: "i < LENGTH('a)"
  then have "i div 8 < n" by auto
  then show "bit (le_word (le_bytes n w) :: 'a word) i = bit w i"
    using n i by (simp add: bit_le_word bit_le_bytes)
qed

lemma le_bytes_le_word:
  assumes "8 * length bs \<le> LENGTH('a)"
  shows "le_bytes (length bs) (le_word bs :: 'a::len word) = bs"
proof (rule nth_equalityI)
  fix j
  assume "j < length (le_bytes (length bs) (le_word bs :: 'a word))"
  then have j: "j < length bs" by simp
  show "le_bytes (length bs) (le_word bs :: 'a word) ! j = bs ! j"
  proof (rule bit_word_eqI)
    fix k
    assume k: "k < LENGTH(8)"
    then have "8 * j + k < 8 * length bs" "(8 * j + k) div 8 = j" "(8 * j + k) mod 8 = k"
      using j by auto
    then show "bit (le_bytes (length bs) (le_word bs :: 'a word) ! j) k = bit (bs ! j) k"
      using j k assms by (simp add: bit_le_bytes bit_le_word)
  qed
qed simp

section \<open>Lists\<close>

text \<open>\<^verbatim>\<open>std::span::subspan(i, n)\<close> within the bounds of the span.\<close>

definition subspan :: "nat \<Rightarrow> nat \<Rightarrow> 'a list \<Rightarrow> 'a list" where
  "subspan i n xs = take n (drop i xs)"

lemma length_subspan [simp]: "i + n \<le> length xs \<Longrightarrow> length (subspan i n xs) = n"
  by (simp add: subspan_def)

lemma subspan_alt: "subspan i n xs = drop i (take (i + n) xs)"
  by (simp add: subspan_def take_drop add.commute)

lemma take_prefix_eq: "take n xs = take n ys \<Longrightarrow> m \<le> n \<Longrightarrow> take m xs = take m ys"
  by (metis min.absorb1 take_take)

lemma subspan_append_skip [simp]:
  "length xs \<le> i \<Longrightarrow> subspan i n (xs @ ys) = subspan (i - length xs) n ys"
  by (simp add: subspan_def)

lemma subspan_append_here [simp]: "length xs = n \<Longrightarrow> subspan 0 n (xs @ ys) = xs"
  by (simp add: subspan_def)

lemma subspan_all [simp]: "length xs = n \<Longrightarrow> subspan 0 n xs = xs"
  by (simp add: subspan_def)

lemma subspan_Cons [simp]:
  "subspan 0 0 xs = []"
  "subspan 0 (Suc n) (x # xs) = x # subspan 0 n xs"
  "subspan (Suc i) n (x # xs) = subspan i n xs"
  "subspan (numeral k) n (x # xs) = subspan (pred_numeral k) n xs"
  by (simp_all add: subspan_def numeral_eq_Suc)

lemma subspan_join:
  "k = i + m \<Longrightarrow> subspan i m xs @ subspan k n xs = subspan i (m + n) xs"
  "k = i + m \<Longrightarrow> subspan i m xs @ subspan k n xs @ ys = subspan i (m + n) xs @ ys"
  by (simp_all add: subspan_def take_add add.commute)

section \<open>Simulations\<close>

text \<open>
  A simulation in which a step of the finer relation is one step of the coarser one or none.
\<close>

locale stutter_simulation =
  fixes fine :: "'a \<Rightarrow> 'a \<Rightarrow> bool" and coarse :: "'b \<Rightarrow> 'b \<Rightarrow> bool" and related :: "'a \<Rightarrow> 'b \<Rightarrow> bool"
  assumes related_step: "related x s \<Longrightarrow> fine x y \<Longrightarrow> \<exists>t. (t = s \<or> coarse s t) \<and> related y t"
begin

lemma related_run: "fine\<^sup>*\<^sup>* x y \<Longrightarrow> related x s \<Longrightarrow> \<exists>t. coarse\<^sup>*\<^sup>* s t \<and> related y t"
proof (induction rule: rtranclp_induct)
  case (step y z)
  then obtain t u where "coarse\<^sup>*\<^sup>* s t" "u = t \<or> coarse t u" "related z u" using related_step by blast
  then show ?case by (metis rtranclp.rtrancl_into_rtrancl)
qed auto

end

end
