(* ===== verification/Wire_Protocol.thy ===== *)
theory Wire_Protocol
  imports Servd_Prelude
begin

text \<open>
  \<^verbatim>\<open>include/servd/Protocol.hpp\<close>: the enumerations, the packed frame header, the
  response a handler returns, the packed discovery packet and the reserved command ids.
\<close>

section \<open>Enumerations\<close>

datatype TransportType = ANY | TCP | UDP | UNIX

datatype ProtocolMode = BINARY | TEXT

text \<open>
  \<^verbatim>\<open>enum class DiscoveryAction : uint8_t\<close> has a fixed underlying type, so a packet
  read from the network can hold any of the 256 values; the field is therefore kept as
  the underlying byte.
\<close>

definition CLIENT_LOOKING_FOR_SERVER :: u8 where
  "CLIENT_LOOKING_FOR_SERVER = 0x01"

definition SERVER_ANNOUNCING :: u8 where
  "SERVER_ANNOUNCING = 0x02"

section \<open>Frames\<close>

record FrameHeader =
  command_id :: u16
  flags :: u16
  payload_length :: u32
  session_id :: u64

record ResponseFrame =
  rf_flags :: u16
  rf_payload :: bytes

record ClientFrame =
  cf_header :: FrameHeader
  cf_payload :: bytes

definition CMD_KEY_EXCHANGE :: u16 where
  "CMD_KEY_EXCHANGE = 0x00F0"

definition CMD_ENCRYPTED_MESSAGE :: u16 where
  "CMD_ENCRYPTED_MESSAGE = 0x00F1"

definition mk_header :: "u16 \<Rightarrow> u16 \<Rightarrow> u32 \<Rightarrow> u64 \<Rightarrow> FrameHeader" where
  "mk_header c f l s = \<lparr>command_id = c, flags = f, payload_length = l, session_id = s\<rparr>"

text \<open>The layout under \<^verbatim>\<open>#pragma pack(push, 1)\<close>: 2 + 2 + 4 + 8 bytes, no padding.\<close>

definition sizeof_FrameHeader :: nat where
  "sizeof_FrameHeader = 16"

definition header_bytes :: "FrameHeader \<Rightarrow> bytes" where
  "header_bytes h =
     le_bytes 2 (command_id h) @ le_bytes 2 (flags h) @
     le_bytes 4 (payload_length h) @ le_bytes 8 (session_id h)"

definition header_of_bytes :: "bytes \<Rightarrow> FrameHeader" where
  "header_of_bytes bs =
     \<lparr>command_id = le_word (subspan 0 2 bs), flags = le_word (subspan 2 2 bs),
      payload_length = le_word (subspan 4 4 bs), session_id = le_word (subspan 8 8 bs)\<rparr>"

lemma length_header_bytes [simp, wire_simps]: "length (header_bytes h) = sizeof_FrameHeader"
  by (simp add: header_bytes_def sizeof_FrameHeader_def)

lemma mk_header_sel [simp]:
  "command_id (mk_header c f l s) = c" "flags (mk_header c f l s) = f"
  "payload_length (mk_header c f l s) = l" "session_id (mk_header c f l s) = s"
  by (simp_all add: mk_header_def)

lemma header_of_bytes_append:
  "length bs = sizeof_FrameHeader \<Longrightarrow> header_of_bytes (bs @ rest) = header_of_bytes bs"
  by (simp add: header_of_bytes_def sizeof_FrameHeader_def subspan_def)

lemma header_of_header_bytes [simp, wire_simps]: "header_of_bytes (header_bytes h) = h"
  by (simp add: header_of_bytes_def header_bytes_def le_word_le_bytes)

lemma header_bytes_of_bytes [simp]:
  assumes "length bs = sizeof_FrameHeader"
  shows "header_bytes (header_of_bytes bs) = bs"
proof -
  have len: "length bs = 16" using assms by (simp add: sizeof_FrameHeader_def)
  have rt: "le_bytes n (le_word (subspan i n bs) :: 'a::len word) = subspan i n bs"
    if "i + n \<le> 16" "8 * n \<le> LENGTH('a)" for i n
    using le_bytes_le_word [of "subspan i n bs", where 'a = 'a] that len by simp
  have "header_bytes (header_of_bytes bs) =
      subspan 0 2 bs @ subspan 2 2 bs @ subspan 4 4 bs @ subspan 8 8 bs"
    by (simp add: header_bytes_def header_of_bytes_def rt)
  also have "\<dots> = bs"
    using len by (simp add: subspan_join)
  finally show ?thesis .
qed

section \<open>Discovery packets\<close>

text \<open>4 + 1 + 4 + 4 bytes, packed. The two ports are signed 32-bit integers.\<close>

record DiscoveryPacket =
  magic_number :: u32
  action :: u8
  tcp_port :: u32
  udp_port :: u32

definition sizeof_DiscoveryPacket :: nat where
  "sizeof_DiscoveryPacket = 13"

definition discovery_bytes :: "DiscoveryPacket \<Rightarrow> bytes" where
  "discovery_bytes p =
     le_bytes 4 (magic_number p) @ le_bytes 1 (action p) @
     le_bytes 4 (tcp_port p) @ le_bytes 4 (udp_port p)"

definition discovery_of_bytes :: "bytes \<Rightarrow> DiscoveryPacket" where
  "discovery_of_bytes bs =
     \<lparr>magic_number = le_word (subspan 0 4 bs), action = le_word (subspan 4 1 bs),
      tcp_port = le_word (subspan 5 4 bs), udp_port = le_word (subspan 9 4 bs)\<rparr>"

lemma length_discovery_bytes [simp, wire_simps]:
  "length (discovery_bytes p) = sizeof_DiscoveryPacket"
  by (simp add: discovery_bytes_def sizeof_DiscoveryPacket_def)

lemma discovery_of_discovery_bytes [simp, wire_simps]:
  "discovery_of_bytes (discovery_bytes p) = p"
  by (simp add: discovery_of_bytes_def discovery_bytes_def le_word_le_bytes)

lemma discovery_bytes_of_bytes:
  assumes "length bs = sizeof_DiscoveryPacket"
  shows "discovery_bytes (discovery_of_bytes bs) = bs"
proof -
  have len: "length bs = 13" using assms by (simp add: sizeof_DiscoveryPacket_def)
  have rt: "le_bytes n (le_word (subspan i n bs) :: 'a::len word) = subspan i n bs"
    if "i + n \<le> 13" "8 * n \<le> LENGTH('a)" for i n
    using le_bytes_le_word [of "subspan i n bs", where 'a = 'a] that len by simp
  have "discovery_bytes (discovery_of_bytes bs) =
      subspan 0 4 bs @ subspan 4 1 bs @ subspan 5 4 bs @ subspan 9 4 bs"
    unfolding discovery_bytes_def discovery_of_bytes_def by (simp add: rt del: le_bytes.simps)
  also have "\<dots> = bs"
    using len by (simp add: subspan_join)
  finally show ?thesis .
qed

lemma bij_betw_layout:
  assumes "\<And>x. dec (enc x) = x" "\<And>x. length (enc x) = n" "\<And>bs. length bs = n \<Longrightarrow> enc (dec bs) = bs"
  shows "bij_betw enc UNIV {bs. length bs = n}"
  by (rule bij_betw_byWitness [where f' = dec]) (use assms in auto)

lemma le_bytes_numeral:
  "le_bytes 2 w = [ucast w, ucast (drop_bit 8 w)]"
  "le_bytes 4 w = [ucast w, ucast (drop_bit 8 w), ucast (drop_bit 16 w), ucast (drop_bit 24 w)]"
  "le_bytes 8 w = [ucast w, ucast (drop_bit 8 w), ucast (drop_bit 16 w), ucast (drop_bit 24 w),
     ucast (drop_bit 32 w), ucast (drop_bit 40 w), ucast (drop_bit 48 w), ucast (drop_bit 56 w)]"
  by (simp_all add: eval_nat_numeral)

section \<open>Properties\<close>

text \<open>
  C40. The frame header is a packed struct of 16 bytes without padding, every field stored
  with its least significant byte first: the command id at offset 0, the flags at 2, the
  payload length at 4 and the session id at 8. Every 16-byte string is the image of exactly
  one header, and a receiver that copies the first 16 bytes of a buffer gets back the fields
  that were sent, whatever follows them.
\<close>

theorem header_layout:
  "header_bytes h =
     [ucast (command_id h), ucast (drop_bit 8 (command_id h)),
      ucast (flags h), ucast (drop_bit 8 (flags h)),
      ucast (payload_length h), ucast (drop_bit 8 (payload_length h)),
      ucast (drop_bit 16 (payload_length h)), ucast (drop_bit 24 (payload_length h)),
      ucast (session_id h), ucast (drop_bit 8 (session_id h)),
      ucast (drop_bit 16 (session_id h)), ucast (drop_bit 24 (session_id h)),
      ucast (drop_bit 32 (session_id h)), ucast (drop_bit 40 (session_id h)),
      ucast (drop_bit 48 (session_id h)), ucast (drop_bit 56 (session_id h))] \<and>
   bij_betw header_bytes UNIV {bs. length bs = 16} \<and>
   header_of_bytes (header_bytes h @ rest) = h"
proof (intro conjI)
  show "bij_betw header_bytes UNIV {bs. length bs = 16}"
    by (rule bij_betw_layout [where dec = header_of_bytes]) (simp_all add: sizeof_FrameHeader_def)
  show "header_of_bytes (header_bytes h @ rest) = h"
    by (simp add: header_of_bytes_append)
qed (simp add: header_bytes_def le_bytes_numeral)

text \<open>
  The discovery packet occupies exactly 13 bytes (magic number, action, TCP port, UDP
  port), and its layout is a bijection between packets and 13-byte strings.
\<close>

theorem discovery_layout:
  "bij_betw discovery_bytes UNIV {bs. length bs = 13} \<and> discovery_of_bytes (discovery_bytes p) = p"
proof
  show "bij_betw discovery_bytes UNIV {bs. length bs = 13}"
    by (rule bij_betw_layout [where dec = discovery_of_bytes])
      (simp_all add: wire_simps sizeof_DiscoveryPacket_def discovery_bytes_of_bytes)
qed simp

end
