(* ===== verification/Session_Store.thy ===== *)
theory Session_Store
  imports Wire_Protocol
begin

text \<open>
  \<^verbatim>\<open>interfaces/Session.hpp\<close>, \<^verbatim>\<open>interfaces/ISessionStore.hpp\<close> and
  \<^verbatim>\<open>store/InMemorySessionStore.hpp\<close>: the session object, the injectable store
  interface (a locale over an abstract memory of sessions) and the default store, which
  is shown to implement it.
\<close>

section \<open>Session\<close>

record Session =
  sess_id :: u64
  authenticated :: bool
  has_aes_key :: bool
  aes_key :: bytes
  user_identifier :: string

text \<open>The constructor \<^verbatim>\<open>Session(id)\<close>; \<^verbatim>\<open>aes_key_{}\<close> is 32 zero bytes.\<close>

definition new_session :: "u64 \<Rightarrow> Session" where
  "new_session i = \<lparr>sess_id = i, authenticated = False, has_aes_key = False,
     aes_key = replicate 32 0, user_identifier = []\<rparr>"

definition set_authenticated :: "bool \<Rightarrow> string \<Rightarrow> Session \<Rightarrow> Session" where
  "set_authenticated state user s = s\<lparr>authenticated := state, user_identifier := user\<rparr>"

definition set_aes_key :: "bytes \<Rightarrow> Session \<Rightarrow> Session" where
  "set_aes_key key s = s\<lparr>aes_key := key, has_aes_key := True\<rparr>"

definition is_authenticated :: "Session \<Rightarrow> bool" where
  "is_authenticated s = authenticated s"

lemma id_setters [simp]:
  "sess_id (new_session i) = i" "sess_id (set_authenticated b u s) = sess_id s" "sess_id (set_aes_key k s) = sess_id s"
  by (simp_all add: new_session_def set_authenticated_def set_aes_key_def)

lemma session_flags [simp]:
  "\<not> authenticated (new_session i)" "\<not> has_aes_key (new_session i)"
  "authenticated (set_authenticated b u s) = b" "has_aes_key (set_authenticated b u s) = has_aes_key s"
  "authenticated (set_aes_key k s) = authenticated s" "has_aes_key (set_aes_key k s)"
  "aes_key (set_aes_key k s) = k" "aes_key (set_authenticated b u s) = aes_key s"
  by (simp_all add: new_session_def set_authenticated_def set_aes_key_def)

section \<open>The store interface\<close>

text \<open>
  \<^verbatim>\<open>ISessionStore\<close> is a class with two virtual coroutines; an object of it is the
  pair of its methods, run against the object's own state \<open>'st\<close>.
\<close>

record 'st ISessionStore =
  get_or_create :: "u64 \<Rightarrow> ('st, Session) co"
  save :: "Session \<Rightarrow> ('st, unit) co"

text \<open>
  What the engine relies on. A store state stands for a total memory of sessions
  (\<open>mem st sid\<close>): an id never seen reads as a fresh session. \<open>get_or_create\<close> is a
  read of that memory and \<open>save\<close> is an update at the session's own id.
\<close>

locale session_memory =
  fixes store :: "'st ISessionStore"
    and mem :: "'st \<Rightarrow> u64 \<Rightarrow> Session"
    and invar :: "'st \<Rightarrow> bool"
  assumes get_value: "invar st \<Longrightarrow> fst (get_or_create store sid st) = Ret (mem st sid)"
    and get_mem: "invar st \<Longrightarrow> mem (snd (get_or_create store sid st)) = mem st"
    and get_invar: "invar st \<Longrightarrow> invar (snd (get_or_create store sid st))"
    and save_value: "invar st \<Longrightarrow> fst (save store s st) = Ret ()"
    and save_mem: "invar st \<Longrightarrow> mem (snd (save store s st)) = (mem st)(sess_id s := s)"
    and save_invar: "invar st \<Longrightarrow> invar (snd (save store s st))"
    and mem_id: "invar st \<Longrightarrow> sess_id (mem st sid) = sid"

text \<open>Sequences of store calls, and the session that the last save at an id left there.\<close>

datatype store_call = GetOrCreate u64 | Save Session

fun run_calls :: "'st ISessionStore \<Rightarrow> store_call list \<Rightarrow> 'st \<Rightarrow> 'st" where
  "run_calls store [] st = st"
| "run_calls store (GetOrCreate sid # cs) st = run_calls store cs (snd (get_or_create store sid st))"
| "run_calls store (Save s # cs) st = run_calls store cs (snd (save store s st))"

fun last_saved :: "store_call list \<Rightarrow> u64 \<Rightarrow> Session \<Rightarrow> Session" where
  "last_saved [] sid s0 = s0"
| "last_saved (GetOrCreate _ # cs) sid s0 = last_saved cs sid s0"
| "last_saved (Save s # cs) sid s0 = last_saved cs sid (if sess_id s = sid then s else s0)"

context session_memory
begin

lemma run_calls_invar: "invar st \<Longrightarrow> invar (run_calls store cs st)"
proof (induction cs arbitrary: st)
  case (Cons c cs)
  then show ?case by (cases c) (auto simp: get_invar save_invar)
qed simp

lemma run_calls_mem:
  "invar st \<Longrightarrow> mem (run_calls store cs st) sid = last_saved cs sid (mem st sid)"
proof (induction cs arbitrary: st)
  case Nil
  then show ?case by simp
next
  case (Cons c cs)
  then show ?case
    by (cases c) (auto simp: get_mem get_invar save_mem save_invar)
qed

lemma get_after_calls:
  "invar st \<Longrightarrow>
     fst (get_or_create store sid (run_calls store cs st)) = Ret (last_saved cs sid (mem st sid))"
  by (simp add: get_value run_calls_invar run_calls_mem)

lemma get_pair: "invar st \<Longrightarrow> \<exists>st'. get_or_create store sid st = (Ret (mem st sid), st') \<and> mem st' = mem st \<and> invar st'"
  by (metis get_value get_mem get_invar prod.collapse)

lemma save_pair: "invar st \<Longrightarrow> \<exists>st'. save store s st = (Ret (), st') \<and> mem st' = (mem st)(sess_id s := s) \<and> invar st'"
  by (metis save_value save_mem save_invar prod.collapse)

end

section \<open>InMemorySessionStore\<close>

text \<open>The state is \<^verbatim>\<open>std::unordered_map<uint64_t, Session> store_\<close>.\<close>

type_synonym session_map = "u64 \<rightharpoonup> Session"

definition im_get_or_create :: "u64 \<Rightarrow> (session_map, Session) co" where
  "im_get_or_create sid st =
     (case st sid of
        Some s \<Rightarrow> (Ret s, st)
      | None \<Rightarrow> (let new = new_session sid in (Ret new, st(sid \<mapsto> new))))"

definition im_save :: "Session \<Rightarrow> (session_map, unit) co" where
  "im_save s st = (Ret (), st(sess_id s \<mapsto> s))"

definition InMemorySessionStore :: "session_map ISessionStore" where
  "InMemorySessionStore = \<lparr>get_or_create = im_get_or_create, save = im_save\<rparr>"

definition im_mem :: "session_map \<Rightarrow> u64 \<Rightarrow> Session" where
  "im_mem st sid = (case st sid of Some s \<Rightarrow> s | None \<Rightarrow> new_session sid)"

text \<open>Every entry is filed under its own id.\<close>

definition im_invar :: "session_map \<Rightarrow> bool" where
  "im_invar st \<longleftrightarrow> (\<forall>sid s. st sid = Some s \<longrightarrow> sess_id s = sid)"

lemma im_invar_empty [simp]: "im_invar Map.empty"
  by (simp add: im_invar_def)

lemma im_mem_empty [simp]: "im_mem Map.empty sid = new_session sid"
  by (simp add: im_mem_def)

interpretation im_store: session_memory InMemorySessionStore im_mem im_invar
proof unfold_locales
  fix st sid and s :: Session
  assume inv: "im_invar st"
  show "fst (get_or_create InMemorySessionStore sid st) = Ret (im_mem st sid)"
    by (simp add: InMemorySessionStore_def im_get_or_create_def im_mem_def Let_def split: option.split)
  show "im_mem (snd (get_or_create InMemorySessionStore sid st)) = im_mem st"
    by (auto simp: InMemorySessionStore_def im_get_or_create_def im_mem_def fun_eq_iff Let_def
        split: option.split)
  show "im_invar (snd (get_or_create InMemorySessionStore sid st))"
    using inv by (auto simp: InMemorySessionStore_def im_get_or_create_def im_invar_def Let_def
        split: option.split)
  show "fst (save InMemorySessionStore s st) = Ret ()"
    by (simp add: InMemorySessionStore_def im_save_def)
  show "im_mem (snd (save InMemorySessionStore s st)) = (im_mem st)(sess_id s := s)"
    by (auto simp: InMemorySessionStore_def im_save_def im_mem_def fun_eq_iff)
  show "im_invar (snd (save InMemorySessionStore s st))"
    using inv by (simp add: InMemorySessionStore_def im_save_def im_invar_def)
  show "sess_id (im_mem st sid) = sid"
    using inv by (auto simp: im_mem_def im_invar_def split: option.split)
qed

section \<open>Properties\<close>

text \<open>
  C26. The in-memory store behaves as a memory: after any sequence of calls on a fresh
  store, looking a session up returns the session last saved under its id, and a new,
  unauthenticated session without a key if none was saved; lookups themselves, which
  insert the new session, change nothing that a later lookup can see.
\<close>

theorem store_returns_last_saved:
  "fst (get_or_create InMemorySessionStore sid (run_calls InMemorySessionStore calls Map.empty)) =
     Ret (last_saved calls sid (new_session sid))"
  using im_store.get_after_calls [of Map.empty sid calls] by simp

end
