(* ===== verification/Uring_IO.thy ===== *)
theory Uring_IO
  imports Session_Store
begin

text \<open>
  \<^verbatim>\<open>src/UringEngine/IoUring.cpp\<close> and \<^verbatim>\<open>IoUringMsg.cpp\<close>: one io\_uring
  operation per awaitable. The kernel is the environment: the completions it will
  deliver are queues of the world state, and a coroutine that needs a completion which
  is not there yet is \<open>Pending\<close>.
\<close>

section \<open>The kernel's side\<close>

text \<open>
  Completions of receives on a stream socket: data the peer sent (the kernel copies at
  most as much as the buffer holds and keeps the rest; an empty chunk is the
  end of the stream), or an error number.
\<close>

datatype rx_event = RxData bytes | RxErrno nat

text \<open>Peer addresses are opaque to the engine; it only hands them back to the kernel.\<close>

type_synonym sockaddr = bytes

datatype dgram_event = Dgram bytes sockaddr | DgramErrno nat

text \<open>What the kernel took from us, in order.\<close>

datatype tx = Sent fd bytes | SentTo fd bytes sockaddr

datatype getrandom_event = RandomBytes bytes | RandomErrno

record world =
  rx :: "fd \<Rightarrow> rx_event list"
  dgrams :: "fd \<Rightarrow> dgram_event list"
  tx_res :: "int list"
  tx_log :: "tx list"
  getrandom_src :: "getrandom_event list"
  privkey_src :: "bytes list"

definition set_rx :: "fd \<Rightarrow> rx_event list \<Rightarrow> world \<Rightarrow> world" where
  "set_rx f q w = w\<lparr>rx := (rx w)(f := q)\<rparr>"

lemma set_rx_simps [simp]:
  "rx (set_rx f q w) = (rx w)(f := q)" "set_rx f q' (set_rx f q w) = set_rx f q' w"
  "set_rx f (rx w f) w = w"
  "dgrams (set_rx f q w) = dgrams w" "tx_res (set_rx f q w) = tx_res w"
  "tx_log (set_rx f q w) = tx_log w" "getrandom_src (set_rx f q w) = getrandom_src w"
  "privkey_src (set_rx f q w) = privkey_src w"
  by (simp_all add: set_rx_def)

section \<open>UringOperation\<close>

definition ETIME :: int where
  "ETIME = 62"

text \<open>\<^verbatim>\<open>UringOperation::await_resume\<close>: negative results throw, except \<^verbatim>\<open>-ETIME\<close>.\<close>

definition await_resume :: "int \<Rightarrow> exn + int" where
  "await_resume cqe_res =
     (if cqe_res < 0 \<and> cqe_res \<noteq> - ETIME then Inl (SystemError (- cqe_res)) else Inr cqe_res)"

section \<open>Stream sockets\<close>

text \<open>
  \<^verbatim>\<open>async_read\<close>: the result is the value of the operation together with the bytes the
  kernel placed at the start of the buffer of size \<open>n\<close>.
\<close>

definition async_read :: "fd \<Rightarrow> nat \<Rightarrow> (world, int \<times> bytes) co" where
  "async_read f n w =
     (case rx w f of
        [] \<Rightarrow> (Pending, w)
      | RxErrno e # q \<Rightarrow>
          co_bind (co_of_sum (await_resume (- int e))) (\<lambda>r. co_ret (r, []))
            (set_rx f q w)
      | RxData bs # q \<Rightarrow>
          co_bind (co_of_sum (await_resume (int (length (take n bs))))) (\<lambda>r. co_ret (r, take n bs))
            (set_rx f (if drop n bs = [] then q else RxData (drop n bs) # q) w))"

text \<open>\<^verbatim>\<open>async_write\<close>: one send; the kernel may take fewer bytes than offered.\<close>

definition async_write :: "fd \<Rightarrow> bytes \<Rightarrow> (world, int) co" where
  "async_write f buf w =
     (case tx_res w of
        [] \<Rightarrow> (Pending, w)
      | r # rs \<Rightarrow>
          co_of_sum (await_resume r)
            (w\<lparr>tx_res := rs,
               tx_log := tx_log w @ (if 0 \<le> r then [Sent f (take (nat r) buf)] else [])\<rparr>))"

definition async_sendto :: "fd \<Rightarrow> bytes \<Rightarrow> sockaddr \<Rightarrow> (world, int) co" where
  "async_sendto f buf addr w =
     (case tx_res w of
        [] \<Rightarrow> (Pending, w)
      | r # rs \<Rightarrow>
          co_of_sum (await_resume r)
            (w\<lparr>tx_res := rs,
               tx_log := tx_log w @ (if 0 \<le> r then [SentTo f (take (nat r) buf) addr] else [])\<rparr>))"

text \<open>
  \<^verbatim>\<open>async_recvmsg\<close>: one datagram; what does not fit in the buffer of size \<open>n\<close> is
  lost. The result of the operation is cast to \<^verbatim>\<open>size_t\<close>, which turns the one
  negative value that \<open>await_resume\<close> lets through into a large unsigned one.
\<close>

definition async_recvmsg :: "fd \<Rightarrow> nat \<Rightarrow> (world, nat \<times> bytes \<times> sockaddr) co" where
  "async_recvmsg f n w =
     (case dgrams w f of
        [] \<Rightarrow> (Pending, w)
      | DgramErrno e # q \<Rightarrow>
          co_bind (co_of_sum (await_resume (- int e))) (\<lambda>r. co_ret (nat (r mod 2 ^ 64), [], []))
            (w\<lparr>dgrams := (dgrams w)(f := q)\<rparr>)
      | Dgram bs addr # q \<Rightarrow>
          co_bind (co_of_sum (await_resume (int (length (take n bs)))))
            (\<lambda>r. co_ret (nat (r mod 2 ^ 64), take n bs, addr))
            (w\<lparr>dgrams := (dgrams w)(f := q)\<rparr>))"

section \<open>async_read_exact\<close>

text \<open>
  The buffer is the caller's memory, already of its final size; \<open>total_read\<close> is the
  \<^verbatim>\<open>size_t total_read\<close>, and \<open>size_add\<close> the addition of an \<^verbatim>\<open>int\<close> to it.
\<close>

definition size_add :: "nat \<Rightarrow> int \<Rightarrow> nat" where
  "size_add total_read r = nat ((int total_read + r) mod 2 ^ 64)"

definition overwrite :: "bytes \<Rightarrow> nat \<Rightarrow> bytes \<Rightarrow> bytes" where
  "overwrite buf i data = take i buf @ data @ drop (i + length data) buf"

fun rx_weight :: "rx_event list \<Rightarrow> nat" where
  "rx_weight [] = 0"
| "rx_weight (RxData bs # q) = Suc (length bs) + rx_weight q"
| "rx_weight (RxErrno _ # q) = Suc (rx_weight q)"

lemma async_read_weight:
  assumes "async_read f n w = (Ret d, w')" and "0 < n"
  shows "rx_weight (rx w' f) < rx_weight (rx w f)"
proof (cases "rx w f")
  case Nil
  with assms show ?thesis by (simp add: async_read_def)
next
  case (Cons ev q)
  show ?thesis
  proof (cases ev)
    case (RxData bs)
    with Cons assms show ?thesis
      by (auto simp: async_read_def co_bind_def co_of_sum_def split: sum.splits if_splits)
  next
    case (RxErrno e)
    with Cons assms show ?thesis
      by (auto simp: async_read_def co_bind_def co_of_sum_def split: sum.splits if_splits)
  qed
qed

function read_exact_loop :: "fd \<Rightarrow> bytes \<Rightarrow> nat \<Rightarrow> (world, bytes) co" where
  "read_exact_loop f buf total_read w =
     (if total_read < length buf then
        (case async_read f (length buf - total_read) w of
           (Ret (r, data), w') \<Rightarrow>
             if r = 0 then (Throw (RuntimeError ''Connection closed by client''), w')
             else read_exact_loop f (overwrite buf total_read data) (size_add total_read r) w'
         | (Throw e, w') \<Rightarrow> (Throw e, w')
         | (Pending, w') \<Rightarrow> (Pending, w'))
      else (Ret buf, w))"
  by pat_completeness auto
termination
  by (relation "measure (\<lambda>(f, buf, total_read, w). rx_weight (rx w f))")
    (auto dest!: sym [THEN async_read_weight])

declare read_exact_loop.simps [simp del]

text \<open>The span \<open>buf\<close> is overwritten from its start; \<open>n\<close> is its size.\<close>

definition async_read_exact :: "fd \<Rightarrow> nat \<Rightarrow> (world, bytes) co" where
  "async_read_exact f n = read_exact_loop f (replicate n 0) 0"

lemma read_exact_loop_weight:
  "read_exact_loop f buf t v = (Ret c, v') \<Longrightarrow>
     rx_weight (rx v' f) \<le> rx_weight (rx v f) \<and>
     (t < length buf \<longrightarrow> rx_weight (rx v' f) < rx_weight (rx v f))"
proof (induction f buf t v rule: read_exact_loop.induct)
  case (1 f buf t v)
  show ?case
  proof (cases "t < length buf")
    case False
    with "1.prems" show ?thesis by (subst (asm) read_exact_loop.simps) simp
  next
    case True
    with "1.prems" obtain r d v1 where a: "async_read f (length buf - t) v = (Ret (r, d), v1)"
      "r \<noteq> 0" "read_exact_loop f (overwrite buf t d) (size_add t r) v1 = (Ret c, v')"
      by (subst (asm) read_exact_loop.simps) (auto split: prod.splits outcome.splits if_splits)
    have "rx_weight (rx v' f) \<le> rx_weight (rx v1 f)"
      using "1.IH" [OF True a(1) [symmetric] refl refl a(2,3)] by simp
    moreover have "rx_weight (rx v1 f) < rx_weight (rx v f)"
      using async_read_weight [OF a(1)] True by simp
    ultimately show ?thesis by simp
  qed
qed

lemma async_read_exact_one_weight:
  "async_read_exact f 1 w = (Ret c, w') \<Longrightarrow> rx_weight (rx w' f) < rx_weight (rx w f)"
  using read_exact_loop_weight [of f "[0]" 0 w c w'] by (simp add: async_read_exact_def)

section \<open>A stream socket as a byte stream\<close>

text \<open>
  \<open>avail\<close> is what can still be read before the end of the stream or an error, and
  \<open>ending\<close> the queue from that point on.
\<close>

fun avail :: "rx_event list \<Rightarrow> bytes" where
  "avail [] = []"
| "avail (RxData bs # q) = (if bs = [] then [] else bs @ avail q)"
| "avail (RxErrno _ # q) = []"

fun ending :: "rx_event list \<Rightarrow> rx_event list" where
  "ending [] = []"
| "ending (RxData bs # q) = (if bs = [] then RxData [] # q else ending q)"
| "ending (RxErrno e # q) = RxErrno e # q"

lemma await_resume_nonneg [simp]: "0 \<le> r \<Longrightarrow> await_resume r = Inr r"
  by (simp add: await_resume_def)

lemma overwrite_prefix:
  "\<lbrakk>length pre = i; i + length data \<le> n\<rbrakk> \<Longrightarrow>
     overwrite (pre @ replicate (n - i) 0) i data = (pre @ data) @ replicate (n - (i + length data)) 0"
  by (simp add: overwrite_def)

lemma size_add_int [simp]: "i + k < 2 ^ 64 \<Longrightarrow> size_add i (int k) = i + k"
  unfolding size_add_def by (metis mod_less nat_int of_nat_add zmod_int of_nat_numeral of_nat_power)

text \<open>
  One receive on a non-empty stream: it yields a non-empty prefix of what is available,
  at most as long as asked for.
\<close>

lemma async_read_avail:
  assumes "avail (rx w f) \<noteq> []" and "0 < n"
  obtains data q where
    "async_read f n w = (Ret (int (length data), data), set_rx f q w)"
    "data \<noteq> []" "length data \<le> n" "avail (rx w f) = data @ avail q" "ending q = ending (rx w f)"
proof (cases "rx w f")
  case Nil
  with assms show ?thesis by simp
next
  case (Cons ev q)
  with assms obtain bs where ev: "ev = RxData bs" "bs \<noteq> []"
    by (cases ev) (auto split: if_splits)
  let ?q = "if drop n bs = [] then q else RxData (drop n bs) # q"
  have "async_read f n w = (Ret (int (length (take n bs)), take n bs), set_rx f ?q w)"
    using Cons ev by (simp add: async_read_def co_bind_def)
  moreover have "take n bs \<noteq> []" using ev assms(2) by simp
  moreover have "avail (rx w f) = take n bs @ avail ?q"
    using Cons ev by auto
  moreover have "ending ?q = ending (rx w f)"
    using Cons ev by auto
  ultimately show ?thesis using that by force
qed

lemma read_exact_loop_enough:
  assumes "length pre \<le> n" "n < 2 ^ 64" "n - length pre \<le> length (avail (rx w f))"
  shows "\<exists>q. read_exact_loop f (pre @ replicate (n - length pre) 0) (length pre) w =
           (Ret (pre @ take (n - length pre) (avail (rx w f))), set_rx f q w) \<and>
         avail q = drop (n - length pre) (avail (rx w f)) \<and> ending q = ending (rx w f)"
  using assms
proof (induction "n - length pre" arbitrary: pre w rule: less_induct)
  case less
  show ?case
  proof (cases "length pre < n")
    case False
    with less.prems have "n = length pre" by simp
    then show ?thesis
      by (intro exI [of _ "rx w f"]) (simp add: read_exact_loop.simps)
  next
    case True
    with less.prems have ne: "avail (rx w f) \<noteq> []" by auto
    obtain data q where r:
      "async_read f (n - length pre) w = (Ret (int (length data), data), set_rx f q w)"
      "data \<noteq> []" "length data \<le> n - length pre" "avail (rx w f) = data @ avail q"
      "ending q = ending (rx w f)"
      using async_read_avail [OF ne, of "n - length pre"] True by auto
    let ?w = "set_rx f q w" and ?d = "pre @ data"
    have len: "length ?d \<le> n" using r True by simp
    have step: "read_exact_loop f (pre @ replicate (n - length pre) 0) (length pre) w =
        read_exact_loop f (?d @ replicate (n - length ?d) 0) (length ?d) ?w"
      using r True len less.prems(2)
      by (subst read_exact_loop.simps) (simp add: overwrite_prefix)
    have "\<exists>q'. read_exact_loop f (?d @ replicate (n - length ?d) 0) (length ?d) ?w =
           (Ret (?d @ take (n - length ?d) (avail (rx ?w f))), set_rx f q' ?w) \<and>
         avail q' = drop (n - length ?d) (avail (rx ?w f)) \<and> ending q' = ending (rx ?w f)"
    proof (rule less.hyps)
      show "n - length ?d < n - length pre"
        using r(2) True by (cases data) auto
      show "n - length ?d \<le> length (avail (rx ?w f))"
        using less.prems(3) r(4) by simp
    qed (use len less.prems in auto)
    then obtain q' where q': "read_exact_loop f (?d @ replicate (n - length ?d) 0) (length ?d) ?w =
           (Ret (?d @ take (n - length ?d) (avail q)), set_rx f q' w)"
         "avail q' = drop (n - length ?d) (avail q)" "ending q' = ending q"
      by auto
    then show ?thesis using r step by (intro exI [of _ q']) simp
  qed
qed

text \<open>
  The loop is insensitive to how the peer's bytes were cut into segments: whenever
  enough bytes are available it returns exactly the next \<open>n\<close> of them and leaves the rest.
\<close>

lemma async_read_exact_enough:
  assumes "n < 2 ^ 64" "n \<le> length (avail (rx w f))"
  obtains q where
    "async_read_exact f n w = (Ret (take n (avail (rx w f))), set_rx f q w)"
    "avail q = drop n (avail (rx w f))" "ending q = ending (rx w f)"
  using read_exact_loop_enough [of "[]" n w f] assms that
  by (auto simp: async_read_exact_def)

text \<open>
  What happens when the stream ends early: the coroutine stays suspended while the
  peer is silent, throws when it closed, and throws the system error otherwise.
\<close>

fun early_end :: "rx_event list \<Rightarrow> 'a outcome" where
  "early_end [] = Pending"
| "early_end (RxData _ # q) = Throw (RuntimeError ''Connection closed by client'')"
| "early_end (RxErrno e # q) =
     (if e = 0 then Throw (RuntimeError ''Connection closed by client'') else Throw (SystemError (int e)))"

lemma early_end_no_result: "early_end q \<noteq> Ret a"
  by (cases q rule: early_end.cases) auto

lemma co_bind_early_end: "fst (m s) = early_end q \<Longrightarrow> fst (co_bind m k s) = early_end q"
  by (cases q rule: early_end.cases; cases "m s") (auto simp: co_bind_def)

definition no_timeout :: "rx_event list \<Rightarrow> bool" where
  "no_timeout q \<longleftrightarrow> RxErrno (nat ETIME) \<notin> set (take 1 q)"

lemma avail_Nil_ending: "avail q = [] \<Longrightarrow> ending q = q"
  by (cases q rule: avail.cases) (auto split: if_splits)

lemma read_exact_loop_at_end:
  assumes "avail (rx w f) = []" "no_timeout (rx w f)" "length pre < n"
  shows "fst (read_exact_loop f (pre @ replicate (n - length pre) 0) (length pre) w) = early_end (rx w f)"
proof (cases "rx w f" rule: early_end.cases)
  case 1
  with assms(3) show ?thesis by (subst read_exact_loop.simps) (simp add: async_read_def)
next
  case (2 bs q)
  with assms show ?thesis
    by (subst read_exact_loop.simps) (simp add: async_read_def co_bind_def split: if_splits)
next
  case (3 e q)
  with assms(2) have "int e \<noteq> ETIME" by (auto simp: no_timeout_def)
  with 3 assms(3) show ?thesis
    by (subst read_exact_loop.simps) (simp add: async_read_def co_bind_def await_resume_def)
qed

lemma read_exact_loop_short:
  assumes "no_timeout (ending (rx w f))" "n < 2 ^ 64" "length pre + length (avail (rx w f)) < n"
  shows "fst (read_exact_loop f (pre @ replicate (n - length pre) 0) (length pre) w) =
    early_end (ending (rx w f))"
  using assms
proof (induction "n - length pre" arbitrary: pre w rule: less_induct)
  case less
  show ?case
  proof (cases "avail (rx w f) = []")
    case True
    with less.prems show ?thesis
      using read_exact_loop_at_end [OF True] avail_Nil_ending [OF True] by simp
  next
    case False
    obtain data q where r:
      "async_read f (n - length pre) w = (Ret (int (length data), data), set_rx f q w)"
      "data \<noteq> []" "length data \<le> n - length pre" "avail (rx w f) = data @ avail q"
      "ending q = ending (rx w f)"
      using async_read_avail [OF False, of "n - length pre"] less.prems by auto
    let ?w = "set_rx f q w" and ?d = "pre @ data"
    have "read_exact_loop f (pre @ replicate (n - length pre) 0) (length pre) w =
        read_exact_loop f (?d @ replicate (n - length ?d) 0) (length ?d) ?w"
      using r less.prems by (subst read_exact_loop.simps) (simp add: overwrite_prefix)
    moreover have "n - length ?d < n - length pre"
      using r less.prems by (cases data) auto
    ultimately show ?thesis
      using less.hyps [of ?d ?w] less.prems r by simp
  qed
qed

lemma async_read_exact_short:
  assumes "no_timeout (ending (rx w f))" "n < 2 ^ 64" "length (avail (rx w f)) < n"
  shows "fst (async_read_exact f n w) = early_end (ending (rx w f))"
  using read_exact_loop_short [of w f n "[]"] assms by (simp add: async_read_exact_def)

end
