(* ===== verification/Std_Text.thy ===== *)
theory Std_Text
  imports Servd_Prelude
begin

text \<open>
  The parts of the C++ standard library that the text protocol, the configuration file
  and the logger use: characters and bytes, \<^verbatim>\<open>std::isspace\<close> in the C locale,
  decimal output, \<^verbatim>\<open>std::from_chars\<close>, formatted extraction of a word and of an
  unsigned integer from a string stream, \<^verbatim>\<open>std::stoi\<close> and \<^verbatim>\<open>std::stoul\<close>.
\<close>

section \<open>Characters\<close>

definition byte_of_char :: "char \<Rightarrow> byte" where
  "byte_of_char c = of_char c"

definition char_of_byte :: "byte \<Rightarrow> char" where
  "char_of_byte b = char_of (unat b)"

lemma unat_byte_of_char [simp]: "unat (byte_of_char c) = of_char c"
proof -
  have "of_char c < (256 :: nat)" by (metis of_char_mod_256 mod_less_divisor zero_less_numeral)
  moreover have "byte_of_char c = of_nat (of_char c)"
    by (simp only: byte_of_char_def of_nat_of_char)
  ultimately show ?thesis by (simp only: unat_of_nat) simp
qed

lemma char_of_byte_of_char [simp]: "char_of_byte (byte_of_char c) = c"
  by (simp add: char_of_byte_def)

lemma byte_of_char_of_byte [simp]: "byte_of_char (char_of_byte b) = b"
proof -
  have "unat b mod 256 = unat b" using unsigned_less [of b, where ?'a = nat] by simp
  then have "unat (byte_of_char (char_of_byte b)) = unat b"
    by (simp add: char_of_byte_def)
  then show ?thesis by (rule unsigned_word_eqI)
qed

lemma char_of_byte_eq_iff [simp]: "char_of_byte a = char_of_byte b \<longleftrightarrow> a = b"
  by (metis byte_of_char_of_byte)

lemma byte_of_char_eq_iff [simp]: "byte_of_char a = byte_of_char b \<longleftrightarrow> a = b"
  by (metis char_of_byte_of_char)

definition bytes_of_string :: "string \<Rightarrow> bytes" where
  "bytes_of_string s = map byte_of_char s"

definition string_of_bytes :: "bytes \<Rightarrow> string" where
  "string_of_bytes bs = map char_of_byte bs"

lemma string_bytes_inverse [simp]:
  "string_of_bytes (bytes_of_string s) = s" "bytes_of_string (string_of_bytes bs) = bs"
  by (simp_all add: string_of_bytes_def bytes_of_string_def o_def)

lemma length_string_bytes [simp]:
  "length (bytes_of_string s) = length s" "length (string_of_bytes bs) = length bs"
  by (simp_all add: string_of_bytes_def bytes_of_string_def)

lemma bytes_of_string_append [simp]:
  "bytes_of_string (s @ t) = bytes_of_string s @ bytes_of_string t"
  by (simp add: bytes_of_string_def)

lemma bytes_of_string_simps [simp]:
  "bytes_of_string [] = []" "bytes_of_string (c # s) = byte_of_char c # bytes_of_string s"
  by (simp_all add: bytes_of_string_def)

definition newline :: char where
  "newline = CHR 0x0A"

definition isspace :: "char \<Rightarrow> bool" where
  "isspace c \<longleftrightarrow> c \<in> {CHR '' '', CHR 0x09, CHR 0x0A, CHR 0x0B, CHR 0x0C, CHR 0x0D}"

definition is_digit :: "char \<Rightarrow> bool" where
  "is_digit c \<longleftrightarrow> 48 \<le> (of_char c :: nat) \<and> (of_char c :: nat) \<le> 57"

definition digit_val :: "char \<Rightarrow> nat" where
  "digit_val c = of_char c - 48"

definition digit_char :: "nat \<Rightarrow> char" where
  "digit_char d = char_of (48 + d)"

lemma digit_char_facts:
  assumes "d < 10"
  shows "is_digit (digit_char d)" "digit_val (digit_char d) = d"
  using assms by (simp_all add: is_digit_def digit_val_def digit_char_def)

lemma digit_not_space [simp]: "is_digit c \<Longrightarrow> \<not> isspace c"
  by (auto simp: is_digit_def isspace_def)

section \<open>Decimal numbers\<close>

text \<open>\<^verbatim>\<open>std::to_string\<close> and \<^verbatim>\<open>operator<<\<close> of an unsigned integer.\<close>

fun show_nat :: "nat \<Rightarrow> string" where
  "show_nat n = (if n < 10 then [digit_char n] else show_nat (n div 10) @ [digit_char (n mod 10)])"

declare show_nat.simps [simp del]

definition dec_val :: "string \<Rightarrow> nat" where
  "dec_val s = foldl (\<lambda>a c. 10 * a + digit_val c) 0 s"

lemma show_nat_digits: "c \<in> set (show_nat n) \<Longrightarrow> is_digit c"
proof (induction n rule: show_nat.induct)
  case (1 n)
  then show ?case
    by (subst (asm) (2) show_nat.simps) (auto simp: digit_char_facts split: if_splits)
qed

lemma show_nat_nonempty [simp]: "show_nat n \<noteq> []"
  by (subst show_nat.simps) simp

lemma dec_val_show_nat [simp]: "dec_val (show_nat n) = n"
proof (induction n rule: show_nat.induct)
  case (1 n)
  show ?case
  proof (cases "n < 10")
    case True
    then show ?thesis by (subst show_nat.simps) (simp add: dec_val_def digit_char_facts)
  next
    case False
    with "1.IH" have "dec_val (show_nat (n div 10)) = n div 10" by simp
    with False show ?thesis
      by (subst show_nat.simps) (simp add: dec_val_def digit_char_facts)
  qed
qed

text \<open>The leading digits of a string, and what follows them.\<close>

definition digits_of :: "string \<Rightarrow> string" where
  "digits_of s = takeWhile is_digit s"

lemma digits_of_append:
  assumes "\<forall>c \<in> set ds. is_digit c" "rest = [] \<or> \<not> is_digit (hd rest)"
  shows "digits_of (ds @ rest) = ds" "dropWhile is_digit (ds @ rest) = rest"
  using assms by (induction ds; cases rest; auto simp: digits_of_def)+

lemma digits_of_show_nat:
  "rest = [] \<or> \<not> is_digit (hd rest) \<Longrightarrow> digits_of (show_nat n @ rest) = show_nat n"
  by (rule digits_of_append) (auto dest: show_nat_digits)

section \<open>Conversions\<close>

text \<open>
  \<^verbatim>\<open>std::from_chars\<close> into a \<^verbatim>\<open>uint16_t\<close>: leading decimal digits only, no sign, no
  white space; characters after the digits are left alone. \<open>None\<close> is an error code
  (no digits, or out of range), in which case the variable is not written.
\<close>

definition from_chars_u16 :: "string \<Rightarrow> u16 option" where
  "from_chars_u16 s =
     (let ds = digits_of s in
      if ds = [] then None
      else if dec_val ds < 2 ^ 16 then Some (of_nat (dec_val ds)) else None)"

text \<open>
  Extraction from an \<^verbatim>\<open>istringstream\<close>. \<open>extract_word\<close> is \<^verbatim>\<open>iss >> token\<close>: skip
  white space, take everything up to the next white space. \<open>extract_u64\<close> is
  \<^verbatim>\<open>iss >> sid\<close> on what is left: an optional sign and digits; the variable keeps its
  value when nothing is left, becomes 0 when no digit is found, the largest value on
  overflow, and a minus sign negates modulo \<open>2\<^sup>6\<^sup>4\<close>.
\<close>

definition skip_ws :: "string \<Rightarrow> string" where
  "skip_ws s = dropWhile isspace s"

definition extract_word :: "string \<Rightarrow> string \<times> string" where
  "extract_word s =
     (let t = skip_ws s in (takeWhile (\<lambda>c. \<not> isspace c) t, dropWhile (\<lambda>c. \<not> isspace c) t))"

definition split_sign :: "string \<Rightarrow> bool \<times> string" where
  "split_sign s =
     (case s of
        c # cs \<Rightarrow> if c = CHR ''-'' then (True, cs) else if c = CHR ''+'' then (False, cs) else (False, s)
      | [] \<Rightarrow> (False, []))"

definition extract_u64 :: "string \<Rightarrow> u64 \<Rightarrow> u64" where
  "extract_u64 s old =
     (let t = skip_ws s; (neg, u) = split_sign t; ds = digits_of u in
      if t = [] then old
      else if ds = [] then 0
      else if 2 ^ 64 \<le> dec_val ds then - 1
      else if neg then - of_nat (dec_val ds) else of_nat (dec_val ds))"

lemma from_chars_u16_show [simp]: "from_chars_u16 (show_nat (unat (c :: u16))) = Some c"
  using digits_of_show_nat [of "[]" "unat c"] unsigned_less [of c, where ?'a = nat] by (simp add: from_chars_u16_def)

lemma hd_show_nat: "is_digit (hd (show_nat n))"
  using show_nat_digits [of "hd (show_nat n)" n] by simp

lemma digit_not_sign: "is_digit c \<Longrightarrow> c \<noteq> CHR ''-'' \<and> c \<noteq> CHR ''+''"
  by (auto simp: is_digit_def)

lemma skip_ws_show_nat [simp]: "skip_ws (show_nat n @ r) = show_nat n @ r"
  using hd_show_nat [of n] by (cases "show_nat n") (auto simp: skip_ws_def)

lemma skip_ws_space [simp]: "isspace c \<Longrightarrow> skip_ws (c # s) = skip_ws s"
  by (simp add: skip_ws_def)

lemma split_sign_show_nat [simp]: "split_sign (show_nat n @ r) = (False, show_nat n @ r)"
  using hd_show_nat [of n] digit_not_sign by (cases "show_nat n") (auto simp: split_sign_def)

lemma extract_word_show_nat:
  assumes "isspace c"
  shows "extract_word (show_nat n @ c # r) = (show_nat n, c # r)"
proof -
  have "\<forall>x \<in> set (show_nat n). \<not> isspace x" by (auto dest: show_nat_digits)
  with assms show ?thesis
    by (simp add: extract_word_def Let_def takeWhile_append2 dropWhile_append2)
qed

lemma extract_u64_show_nat:
  assumes "rest = [] \<or> \<not> is_digit (hd rest)"
  shows "extract_u64 (CHR '' '' # show_nat (unat (s :: u64)) @ rest) old = s"
proof -
  have "isspace (CHR '' '')" by (simp add: isspace_def)
  then show ?thesis
    using digits_of_show_nat [OF assms, of "unat s"] unsigned_less [of s, where ?'a = nat]
    by (simp add: extract_u64_def)
qed

section \<open>Checked conversions\<close>

text \<open>
  \<^verbatim>\<open>std::stoi\<close> and \<^verbatim>\<open>std::stoul\<close>: white space, an optional sign, digits; what follows
  the digits is ignored. No digits is \<^verbatim>\<open>std::invalid_argument\<close>, a value outside the type
  \<^verbatim>\<open>std::out_of_range\<close>; \<^verbatim>\<open>stoul\<close> negates modulo \<open>2\<^sup>6\<^sup>4\<close>.
\<close>

definition stoi :: "string \<Rightarrow> exn + int" where
  "stoi s =
     (let (neg, u) = split_sign (skip_ws s); ds = digits_of u;
          v = (if neg then - int (dec_val ds) else int (dec_val ds)) in
      if ds = [] then Inl InvalidArgument
      else if v < - (2 ^ 31) \<or> 2 ^ 31 \<le> v then Inl OutOfRange else Inr v)"

definition stoul :: "string \<Rightarrow> exn + u64" where
  "stoul s =
     (let (neg, u) = split_sign (skip_ws s); ds = digits_of u in
      if ds = [] then Inl InvalidArgument
      else if 2 ^ 64 \<le> dec_val ds then Inl OutOfRange
      else Inr (if neg then - of_nat (dec_val ds) else of_nat (dec_val ds)))"

lemma stoi_show_nat:
  assumes "n < 2 ^ 31" shows "stoi (show_nat n) = Inr (int n)"
proof -
  have "digits_of (show_nat n) = show_nat n" using digits_of_show_nat [of "[]" n] by simp
  moreover have "skip_ws (show_nat n) = show_nat n" "split_sign (show_nat n) = (False, show_nat n)"
    using skip_ws_show_nat [of n "[]"] split_sign_show_nat [of n "[]"] by simp_all
  moreover have "int n < 2 ^ 31" using assms by simp
  ultimately show ?thesis by (simp add: stoi_def)
qed

lemma stoul_show_nat: "stoul (show_nat (unat (w :: u64))) = Inr w"
proof -
  have "digits_of (show_nat (unat w)) = show_nat (unat w)" using digits_of_show_nat [of "[]" "unat w"] by simp
  moreover have "skip_ws (show_nat (unat w)) = show_nat (unat w)"
      "split_sign (show_nat (unat w)) = (False, show_nat (unat w))"
    using skip_ws_show_nat [of "unat w" "[]"] split_sign_show_nat [of "unat w" "[]"] by simp_all
  moreover have "unat w < 2 ^ 64" using unsigned_less [of w, where ?'a = nat] by simp
  ultimately show ?thesis by (simp add: stoul_def)
qed

end
