(* ===== verification/Frame_IO.thy ===== *)
theory Frame_IO
  imports Uring_IO Std_Text
begin

text \<open>
  \<^verbatim>\<open>src/UringEngine/FrameIO.cpp\<close>: reading one request from a stream connection, in
  the binary and in the text wire format.
\<close>

section \<open>Binary frames\<close>

definition read_frame :: "fd \<Rightarrow> (world, ClientFrame) co" where
  "read_frame f =
     co_bind (async_read_exact f sizeof_FrameHeader) (\<lambda>hb.
       let h = header_of_bytes hb in
       if 0 < payload_length h then
         co_bind (async_read_exact f (unat (payload_length h)))
           (\<lambda>p. co_ret \<lparr>cf_header = h, cf_payload = p\<rparr>)
       else co_ret \<lparr>cf_header = h, cf_payload = []\<rparr>)"

text \<open>The bytes of a frame on the wire, and when its length field is truthful.\<close>

definition frame_bytes :: "ClientFrame \<Rightarrow> bytes" where
  "frame_bytes fr = header_bytes (cf_header fr) @ cf_payload fr"

definition wf_frame :: "ClientFrame \<Rightarrow> bool" where
  "wf_frame fr \<longleftrightarrow> unat (payload_length (cf_header fr)) = length (cf_payload fr)"

lemma read_frame_stream:
  assumes "avail (rx w f) = frame_bytes fr @ rest" "wf_frame fr"
  obtains q where "read_frame f w = (Ret fr, set_rx f q w)"
    "avail q = rest" "ending q = ending (rx w f)"
proof -
  let ?h = "cf_header fr" and ?p = "cf_payload fr"
  have len: "length ?p = unat (payload_length ?h)" using assms(2) by (simp add: wf_frame_def)
  then have bnd: "length ?p < 2 ^ 64"
    using unsigned_less [of "payload_length ?h", where ?'a = nat] by simp
  obtain q1 where q1: "async_read_exact f sizeof_FrameHeader w =
      (Ret (header_bytes ?h), set_rx f q1 w)"
      "avail q1 = ?p @ rest" "ending q1 = ending (rx w f)"
    using async_read_exact_enough [of sizeof_FrameHeader w f] assms(1)
    by (auto simp: frame_bytes_def sizeof_FrameHeader_def)
  let ?w = "set_rx f q1 w"
  show ?thesis
  proof (cases "0 < payload_length ?h")
    case False
    then have "payload_length ?h = 0" by (simp add: word_gt_0)
    with len have p: "?p = []" by simp
    have "read_frame f w = (Ret fr, ?w)"
      using q1 False p by (simp add: read_frame_def co_simps)
    with p q1 that show ?thesis by simp
  next
    case True
    obtain q2 where q2: "async_read_exact f (length ?p) ?w = (Ret ?p, set_rx f q2 ?w)"
      "avail q2 = rest" "ending q2 = ending q1"
      using async_read_exact_enough [of "length ?p" ?w f] q1 bnd by auto
    have "read_frame f w = (Ret fr, set_rx f q2 w)"
      using q1(1) q2(1) True len by (simp add: read_frame_def co_simps Let_def)
    with q1 q2 that show ?thesis by simp
  qed
qed

section \<open>Text frames\<close>

text \<open>
  \<^verbatim>\<open>read_text_line\<close> receives one byte at a time up to a line feed. Each turn of the
  loop that continues has consumed a byte of the stream.
\<close>

function read_text_line_loop :: "fd \<Rightarrow> string \<Rightarrow> (world, string) co" where
  "read_text_line_loop f line w =
     (case async_read_exact f 1 w of
        (Ret cs, w') \<Rightarrow>
          (let c = char_of_byte (hd cs) in
           if c = newline then (Ret line, w') else read_text_line_loop f (line @ [c]) w')
      | (Throw e, w') \<Rightarrow> (Throw e, w')
      | (Pending, w') \<Rightarrow> (Pending, w'))"
  by pat_completeness auto
termination
  by (relation "measure (\<lambda>(f, line, w). rx_weight (rx w f))")
    (auto dest!: sym [THEN async_read_exact_one_weight [simplified]])

declare read_text_line_loop.simps [simp del]

definition read_text_line :: "fd \<Rightarrow> (world, string) co" where
  "read_text_line f = read_text_line_loop f []"

text \<open>
  \<^verbatim>\<open>parse_text_header\<close> writes through the references \<open>cmd\<close> and \<open>sid\<close>; the
  result is the return value with their final values. The map is
  \<^verbatim>\<open>text_command_names_\<close>.
\<close>

definition parse_text_header :: "(string \<rightharpoonup> u16) \<Rightarrow> string \<Rightarrow> u16 \<Rightarrow> u64 \<Rightarrow> bool \<times> u16 \<times> u64" where
  "parse_text_header cmd_names header_line cmd sid =
     (let (token, rest) = extract_word header_line in
      case from_chars_u16 token of
        Some c \<Rightarrow> (True, c, extract_u64 rest sid)
      | None \<Rightarrow>
          (case cmd_names token of
             Some c \<Rightarrow> (True, c, extract_u64 rest sid)
           | None \<Rightarrow> (False, cmd, sid)))"

definition empty_frame :: ClientFrame where
  "empty_frame = \<lparr>cf_header = mk_header 0 0 0 0, cf_payload = []\<rparr>"

definition read_text_frame :: "(string \<rightharpoonup> u16) \<Rightarrow> fd \<Rightarrow> (world, ClientFrame) co" where
  "read_text_frame cmd_names f =
     co_bind (read_text_line f) (\<lambda>header_line.
       case parse_text_header cmd_names header_line 0 0 of
         (False, _, _) \<Rightarrow> co_ret empty_frame
       | (True, cmd, sid) \<Rightarrow>
           co_bind (read_text_line f) (\<lambda>payload_line.
             let pl = of_nat (length payload_line) :: u32 in
             co_ret \<lparr>cf_header = mk_header cmd 0 pl sid,
                     cf_payload = take (unat pl) (bytes_of_string payload_line)\<rparr>))"

lemma read_text_line_loop_stream:
  assumes "avail (rx w f) = bytes_of_string line @ byte_of_char newline # rest" "newline \<notin> set line"
  shows "\<exists>q. read_text_line_loop f acc w = (Ret (acc @ line), set_rx f q w) \<and>
    avail q = rest \<and> ending q = ending (rx w f)"
  using assms
proof (induction line arbitrary: w acc)
  case Nil
  obtain q where "async_read_exact f 1 w = (Ret [byte_of_char newline], set_rx f q w)"
    "avail q = rest" "ending q = ending (rx w f)"
    using async_read_exact_enough [of 1 w f] Nil by auto
  then show ?case
    by (intro exI [of _ q]) (simp add: read_text_line_loop.simps [of f acc w])
next
  case (Cons c line)
  obtain q where q: "async_read_exact f 1 w = (Ret [byte_of_char c], set_rx f q w)"
    "avail q = bytes_of_string line @ byte_of_char newline # rest" "ending q = ending (rx w f)"
    using async_read_exact_enough [of 1 w f] Cons.prems by auto
  let ?w = "set_rx f q w"
  have "read_text_line_loop f acc w = read_text_line_loop f (acc @ [c]) ?w"
    using q Cons.prems by (auto simp: read_text_line_loop.simps [of f acc w])
  moreover obtain q' where "read_text_line_loop f (acc @ [c]) ?w =
      (Ret ((acc @ [c]) @ line), set_rx f q' ?w)"
      "avail q' = rest" "ending q' = ending (rx ?w f)"
    using Cons.IH [of ?w "acc @ [c]"] q Cons.prems by auto
  ultimately show ?case using q by (intro exI [of _ q']) simp
qed

lemma read_text_line_stream:
  assumes "avail (rx w f) = bytes_of_string line @ byte_of_char newline # rest" "newline \<notin> set line"
  obtains q where "read_text_line f w = (Ret line, set_rx f q w)"
    "avail q = rest" "ending q = ending (rx w f)"
  using read_text_line_loop_stream [OF assms, of "[]"] that by (auto simp: read_text_line_def)

text \<open>The request a text client sends: \<^verbatim>\<open><command> <session id>\n<payload>\n\<close>.\<close>

definition text_request :: "string \<Rightarrow> u64 \<Rightarrow> string \<Rightarrow> bytes" where
  "text_request command sid payload =
     bytes_of_string (command @ CHR '' '' # show_nat (unat sid) @ newline # payload @ [newline])"

lemma newline_space [simp]: "isspace newline" "isspace (CHR '' '')" "newline \<noteq> CHR '' ''"
  by (simp_all add: newline_def isspace_def)

lemma newline_not_digit [simp]: "\<not> is_digit newline" "\<not> is_digit (CHR '' '')"
  by (auto simp: newline_def is_digit_def)

lemma newline_notin_show_nat [simp]: "newline \<notin> set (show_nat n)"
  using show_nat_digits by fastforce

lemma extract_word_token:
  assumes "\<forall>c \<in> set token. \<not> isspace c" "token \<noteq> []" "isspace c"
  shows "extract_word (token @ c # r) = (token, c # r)"
proof -
  obtain t ts where "token = t # ts" using assms(2) by (cases token) auto
  with assms have "skip_ws (token @ c # r) = token @ c # r"
    by (simp add: skip_ws_def)
  with assms show ?thesis
    by (simp add: extract_word_def Let_def takeWhile_append2 dropWhile_append2)
qed

lemma parse_text_header_token:
  assumes "\<forall>c \<in> set token. \<not> isspace c" "token \<noteq> []"
    and "from_chars_u16 token = Some cmd \<or> from_chars_u16 token = None \<and> cmd_names token = Some cmd"
  shows "parse_text_header cmd_names (token @ CHR '' '' # show_nat (unat sid)) c0 s0 = (True, cmd, sid)"
  using assms extract_u64_show_nat [of "[]" sid s0]
  by (auto simp: parse_text_header_def extract_word_token)

lemma read_text_frame_stream:
  assumes "avail (rx w f) = text_request token sid payload @ rest"
    and token: "\<forall>c \<in> set token. \<not> isspace c" "token \<noteq> []"
    and cmd: "from_chars_u16 token = Some cmd \<or> from_chars_u16 token = None \<and> cmd_names token = Some cmd"
    and payload: "newline \<notin> set payload" "length payload < 2 ^ 32"
  obtains q where "read_text_frame cmd_names f w =
      (Ret \<lparr>cf_header = mk_header cmd 0 (of_nat (length payload)) sid,
            cf_payload = bytes_of_string payload\<rparr>, set_rx f q w)"
    "avail q = rest" "ending q = ending (rx w f)"
proof -
  let ?line = "token @ CHR '' '' # show_nat (unat sid)"
  have nl: "newline \<notin> set ?line" using token by auto
  have "avail (rx w f) = bytes_of_string ?line @ byte_of_char newline #
      (bytes_of_string payload @ byte_of_char newline # rest)"
    using assms(1) by (simp add: text_request_def)
  then obtain q1 where q1: "read_text_line f w = (Ret ?line, set_rx f q1 w)"
    "avail q1 = bytes_of_string payload @ byte_of_char newline # rest" "ending q1 = ending (rx w f)"
    by (rule read_text_line_stream [OF _ nl])
  let ?w = "set_rx f q1 w"
  obtain q2 where q2: "read_text_line f ?w = (Ret payload, set_rx f q2 ?w)"
    "avail q2 = rest" "ending q2 = ending (rx ?w f)"
    by (rule read_text_line_stream [of ?w f payload rest]) (use q1 payload in auto)
  have "unat (of_nat (length payload) :: u32) = length payload"
    using payload(2) by (simp add: unat_of_nat)
  then have "read_text_frame cmd_names f w =
      (Ret \<lparr>cf_header = mk_header cmd 0 (of_nat (length payload)) sid,
            cf_payload = bytes_of_string payload\<rparr>, set_rx f q2 w)"
    using q1 q2 parse_text_header_token [of token cmd cmd_names sid 0 0, OF token cmd]
    by (simp add: read_text_frame_def co_simps Let_def)
  with q1 q2 that show ?thesis by simp
qed

section \<open>Streams of requests\<close>

text \<open>The reads a client coroutine makes while it handles \<open>n\<close> requests.\<close>

fun read_n :: "(world, 'a) co \<Rightarrow> nat \<Rightarrow> (world, 'a list) co" where
  "read_n rd 0 = co_ret []"
| "read_n rd (Suc n) = co_bind rd (\<lambda>x. co_bind (read_n rd n) (\<lambda>xs. co_ret (x # xs)))"

lemma read_n_stream:
  assumes rd: "\<And>x w rest. \<lbrakk>x \<in> set xs; avail (rx w f) = enc x @ rest\<rbrakk> \<Longrightarrow>
      \<exists>q. rd w = (Ret (val x), set_rx f q w) \<and> avail q = rest \<and> ending q = ending (rx w f)"
    and "avail (rx w f) = concat (map enc xs) @ rest"
  shows "\<exists>q. read_n rd (length xs) w = (Ret (map val xs), set_rx f q w) \<and>
    avail q = rest \<and> ending q = ending (rx w f)"
  using assms
proof (induction xs arbitrary: w)
  case Nil
  have "w = set_rx f (rx w f) w" by (simp add: set_rx_def)
  with Nil.prems show ?case by (intro exI [of _ "rx w f"]) simp
next
  case (Cons x xs)
  obtain q where q: "rd w = (Ret (val x), set_rx f q w)"
      "avail q = concat (map enc xs) @ rest" "ending q = ending (rx w f)"
    using Cons.prems(1) [of x w "concat (map enc xs) @ rest"] Cons.prems(2) by auto
  obtain q' where "read_n rd (length xs) (set_rx f q w) = (Ret (map val xs), set_rx f q' (set_rx f q w))"
      "avail q' = rest" "ending q' = ending (rx (set_rx f q w) f)"
    using Cons.IH [of "set_rx f q w"] Cons.prems(1) q(2) by auto
  with q show ?case by (intro exI [of _ q']) (simp add: co_bind_def)
qed

lemma read_frame_truncated:
  assumes "wf_frame fr" "avail (rx w f) = take n (frame_bytes fr)" "n < length (frame_bytes fr)"
    and "no_timeout (ending (rx w f))"
  shows "fst (read_frame f w) = early_end (ending (rx w f))"
proof (cases "n < sizeof_FrameHeader")
  case True
  then have "fst (async_read_exact f sizeof_FrameHeader w) = early_end (ending (rx w f))"
    using assms by (intro async_read_exact_short) (auto simp: sizeof_FrameHeader_def)
  then show ?thesis unfolding read_frame_def by (rule co_bind_early_end)
next
  case False
  let ?h = "cf_header fr" and ?p = "cf_payload fr"
  have len: "length ?p = unat (payload_length ?h)" using assms(1) by (simp add: wf_frame_def)
  then have bnd: "length ?p < 2 ^ 64"
    using unsigned_less [of "payload_length ?h", where ?'a = nat] by simp
  have av: "avail (rx w f) = header_bytes ?h @ take (n - 16) ?p"
    using assms(2) False by (simp add: frame_bytes_def sizeof_FrameHeader_def)
  obtain q where q: "async_read_exact f sizeof_FrameHeader w = (Ret (header_bytes ?h), set_rx f q w)"
      "avail q = take (n - 16) ?p" "ending q = ending (rx w f)"
    using async_read_exact_enough [of sizeof_FrameHeader w f] av
    by (auto simp: sizeof_FrameHeader_def)
  have short: "n - 16 < length ?p"
    using assms(3) False by (auto simp: frame_bytes_def sizeof_FrameHeader_def)
  then have pos: "0 < payload_length ?h" using len by (auto simp: word_gt_0)
  have "fst (async_read_exact f (length ?p) (set_rx f q w)) = early_end (ending (rx w f))"
    using async_read_exact_short [of "set_rx f q w" f "length ?p"] q assms(4) bnd short by simp
  from co_bind_early_end [where m = "async_read_exact f (length ?p)" and s = "set_rx f q w", OF this] q pos len show ?thesis
    by (simp add: read_frame_def co_bind_Ret Let_def)
qed

section \<open>Properties\<close>

text \<open>
  C16. However the network cuts the byte stream into segments, a client that sends a
  sequence of frames with truthful length fields has exactly those frames read, in order,
  and the bytes behind the last one are still there for the next read.
\<close>

theorem frames_read_in_order:
  assumes "\<forall>fr \<in> set frs. wf_frame fr" "avail (rx w f) = concat (map frame_bytes frs) @ rest"
  shows "\<exists>q. read_n (read_frame f) (length frs) w = (Ret frs, set_rx f q w) \<and>
    avail q = rest \<and> ending q = ending (rx w f)"
proof -
  have "\<exists>q. read_frame f v = (Ret fr, set_rx f q v) \<and> avail q = r \<and> ending q = ending (rx v f)"
    if "fr \<in> set frs" "avail (rx v f) = frame_bytes fr @ r" for fr v r
    using read_frame_stream [OF that(2)] assms(1) that(1) by metis
  from read_n_stream [where val = "\<lambda>x. x", OF this assms(2)] show ?thesis by simp
qed

text \<open>
  C23. A frame that arrives incomplete is never delivered: as long as the peer is silent the
  read stays suspended; if the peer closes or the socket fails in the middle of the frame,
  the read throws, and which of the three happens is decided by what follows the bytes that
  did arrive.
\<close>

theorem truncated_frame_not_delivered:
  assumes "wf_frame fr" "avail (rx w f) = take n (frame_bytes fr)" "n < length (frame_bytes fr)"
    and "no_timeout (ending (rx w f))"
  shows "fst (read_frame f w) = early_end (ending (rx w f)) \<and>
    (\<forall>got. fst (read_frame f w) \<noteq> Ret got)"
  using read_frame_truncated [OF assms] by (simp add: early_end_no_result)

text \<open>
  C25. The text protocol round-trips: any sequence of requests written as
  \<^verbatim>\<open><command> <session id>\n<payload>\n\<close>, with the command as a number or as a
  registered name, is read as the frames with those commands, session ids and payloads.
\<close>

theorem text_requests_read_in_order:
  assumes "\<forall>(token, cmd, sid, payload) \<in> set rqs.
      (\<forall>c \<in> set token. \<not> isspace c) \<and> token \<noteq> [] \<and>
      (from_chars_u16 token = Some cmd \<or> from_chars_u16 token = None \<and> cmd_names token = Some cmd) \<and>
      newline \<notin> set payload \<and> length payload < 2 ^ 32"
    and "avail (rx w f) = concat (map (\<lambda>(token, cmd, sid, payload). text_request token sid payload) rqs) @ rest"
  shows "\<exists>q. read_n (read_text_frame cmd_names f) (length rqs) w =
      (Ret (map (\<lambda>(token, cmd, sid, payload).
         \<lparr>cf_header = mk_header cmd 0 (of_nat (length payload)) sid,
          cf_payload = bytes_of_string payload\<rparr>) rqs), set_rx f q w) \<and>
    avail q = rest \<and> ending q = ending (rx w f)"
proof (rule read_n_stream [OF _ assms(2)])
  fix rq r and v :: world
  assume rq: "rq \<in> set rqs"
    and av: "avail (rx v f) = (case rq of (token, cmd, sid, payload) \<Rightarrow> text_request token sid payload) @ r"
  obtain token cmd sid payload where [simp]: "rq = (token, cmd, sid, payload)" by (cases rq)
  have ok: "\<forall>c \<in> set token. \<not> isspace c" "token \<noteq> []"
      "from_chars_u16 token = Some cmd \<or> from_chars_u16 token = None \<and> cmd_names token = Some cmd"
      "newline \<notin> set payload" "length payload < 2 ^ 32"
    using bspec [OF assms(1) rq] by auto
  have "avail (rx v f) = text_request token sid payload @ r" using av by simp
  from read_text_frame_stream [where w = v and cmd_names = cmd_names and cmd = cmd, OF this ok(1) ok(2) ok(3) ok(4) ok(5)]
  show "\<exists>q. read_text_frame cmd_names f v =
      (Ret (case rq of (token, cmd, sid, payload) \<Rightarrow>
         \<lparr>cf_header = mk_header cmd 0 (of_nat (length payload)) sid,
          cf_payload = bytes_of_string payload\<rparr>), set_rx f q v) \<and>
      avail q = r \<and> ending q = ending (rx v f)"
    by auto
qed

text \<open>
  A request line in the three-field form of the protocol description,
  \<^verbatim>\<open><command> <flags> <session id>\<close>, is accepted, but its second field is taken as the
  session id: the flags select the session and the session id is dropped.
\<close>

theorem text_flags_taken_as_session:
  "parse_text_header cmd_names
     (show_nat (unat c) @ CHR '' '' # show_nat (unat flag) @ CHR '' '' # show_nat (unat (sid :: u64))) 0 0
   = (True, c, flag)"
proof -
  let ?rest = "CHR '' '' # show_nat (unat sid)"
  have "extract_word (show_nat (unat c) @ CHR '' '' # show_nat (unat flag) @ ?rest) =
      (show_nat (unat c), CHR '' '' # show_nat (unat flag) @ ?rest)"
    by (rule extract_word_show_nat) simp
  moreover have "extract_u64 (CHR '' '' # show_nat (unat flag) @ ?rest) 0 = flag"
    by (rule extract_u64_show_nat) simp
  ultimately show ?thesis by (simp add: parse_text_header_def)
qed

text \<open>
  A text line whose first word is neither a 16-bit number nor a registered name is not
  an error: it is delivered as a request for command 0 of session 0 with an empty payload,
  and the payload line behind it stays in the stream, where it is read as the next header.
\<close>

theorem text_invalid_header:
  assumes "avail (rx w f) = bytes_of_string line @ byte_of_char newline # rest" "newline \<notin> set line"
    and "from_chars_u16 (fst (extract_word line)) = None" "cmd_names (fst (extract_word line)) = None"
  shows "\<exists>q. read_text_frame cmd_names f w = (Ret empty_frame, set_rx f q w) \<and> avail q = rest"
proof -
  obtain q where "read_text_line f w = (Ret line, set_rx f q w)" "avail q = rest"
    by (rule read_text_line_stream [OF assms(1,2)])
  moreover have "parse_text_header cmd_names line 0 0 = (False, 0, 0)"
    using assms(3,4) by (simp add: parse_text_header_def case_prod_beta)
  ultimately show ?thesis
    by (intro exI [of _ q]) (simp add: read_text_frame_def co_bind_def)
qed

end
