(* ===== verification/Connections.thy ===== *)
theory Connections
  imports Frame_IO
begin

text \<open>
  \<^verbatim>\<open>interfaces/IConnection.hpp\<close>, \<^verbatim>\<open>ConnectionImpl.cpp\<close> and
  \<^verbatim>\<open>UdpConnection.cpp\<close>: the three connections a reply can go to.
\<close>

datatype IConnection =
    UringTcpConnection fd
  | TextTcpConnection fd
  | UringUdpConnection fd sockaddr

fun transport_type :: "IConnection \<Rightarrow> TransportType" where
  "transport_type (UringTcpConnection _) = TCP"
| "transport_type (TextTcpConnection _) = TCP"
| "transport_type (UringUdpConnection _ _) = UDP"

text \<open>
  The buffer of the binary formats: the header's object representation followed by the
  payload. The header is sent as given; nothing recomputes its length field.
\<close>

definition wire_buffer :: "FrameHeader \<Rightarrow> bytes \<Rightarrow> bytes" where
  "wire_buffer header payload = header_bytes header @ payload"

text \<open>The buffer of the text format: \<^verbatim>\<open><command> <flags> <session id>\n<payload>\n\<close>.\<close>

definition text_buffer :: "FrameHeader \<Rightarrow> bytes \<Rightarrow> bytes" where
  "text_buffer header payload =
     bytes_of_string (show_nat (unat (command_id header)) @ CHR '' '' #
       show_nat (unat (flags header)) @ CHR '' '' #
       show_nat (unat (session_id header)) @ [newline]) @
     payload @ [byte_of_char newline]"

definition tcp_send_frame :: "fd \<Rightarrow> FrameHeader \<Rightarrow> bytes \<Rightarrow> (world, unit) co" where
  "tcp_send_frame f header payload = co_seq (async_write f (wire_buffer header payload)) (co_ret ())"

definition text_send_frame :: "fd \<Rightarrow> FrameHeader \<Rightarrow> bytes \<Rightarrow> (world, unit) co" where
  "text_send_frame f header payload = co_seq (async_write f (text_buffer header payload)) (co_ret ())"

definition udp_send_frame :: "fd \<Rightarrow> sockaddr \<Rightarrow> FrameHeader \<Rightarrow> bytes \<Rightarrow> (world, unit) co" where
  "udp_send_frame f client_addr header payload =
     co_seq (async_sendto f (wire_buffer header payload) client_addr) (co_ret ())"

lemmas send_frame_defs = tcp_send_frame_def text_send_frame_def udp_send_frame_def

text \<open>The virtual call.\<close>

fun send_frame :: "IConnection \<Rightarrow> FrameHeader \<Rightarrow> bytes \<Rightarrow> (world, unit) co" where
  "send_frame (UringTcpConnection f) = tcp_send_frame f"
| "send_frame (TextTcpConnection f) = text_send_frame f"
| "send_frame (UringUdpConnection f addr) = udp_send_frame f addr"

text \<open>The record of a completed send on a connection.\<close>

fun conn_tx :: "IConnection \<Rightarrow> FrameHeader \<Rightarrow> bytes \<Rightarrow> int \<Rightarrow> tx" where
  "conn_tx (UringTcpConnection f) header payload r = Sent f (take (nat r) (wire_buffer header payload))"
| "conn_tx (TextTcpConnection f) header payload r = Sent f (take (nat r) (text_buffer header payload))"
| "conn_tx (UringUdpConnection f addr) header payload r =
     SentTo f (take (nat r) (wire_buffer header payload)) addr"

lemma send_frame_ok:
  assumes "tx_res w = r # rs" "0 \<le> r"
  shows "send_frame c h p w = (Ret (), w\<lparr>tx_res := rs, tx_log := tx_log w @ [conn_tx c h p r]\<rparr>)"
  using assms
  by (cases c) (simp_all add: send_frame_defs co_seq_def co_bind_def async_write_def async_sendto_def)

lemma send_frame_error:
  assumes "tx_res w = r # rs" "r < 0" "r \<noteq> - ETIME"
  shows "send_frame c h p w = (Throw (SystemError (- r)), w\<lparr>tx_res := rs\<rparr>)"
  using assms
  by (cases c)
    (simp_all add: send_frame_defs co_seq_def co_bind_def async_write_def async_sendto_def await_resume_def)

lemma send_frame_pending: "tx_res w = [] \<Longrightarrow> send_frame c h p w = (Pending, w)"
  by (cases c) (simp_all add: send_frame_defs co_seq_def co_bind_def async_write_def async_sendto_def)

lemmas send_frame_cases = send_frame_ok send_frame_error send_frame_pending

lemma send_frame_log: "\<exists>l. tx_log (snd (send_frame c h p w)) = tx_log w @ l"
  by (cases c; cases "tx_res w")
    (auto simp: send_frame_defs co_seq_def co_bind_def async_write_def async_sendto_def await_resume_def)

declare send_frame.simps [simp del]

section \<open>Replies read back\<close>

text \<open>
  A binary reply whose header tells its payload's length is what \<open>read_frame\<close> would
  read on the other side.
\<close>

lemma wire_buffer_frame_bytes:
  "wire_buffer h p = frame_bytes \<lparr>cf_header = h, cf_payload = p\<rparr>"
  by (simp add: wire_buffer_def frame_bytes_def)

text \<open>The two lines of a text reply, as far as its payload has no line feed.\<close>

definition text_header_line :: "FrameHeader \<Rightarrow> string" where
  "text_header_line header =
     show_nat (unat (command_id header)) @ CHR '' '' #
     show_nat (unat (flags header)) @ CHR '' '' # show_nat (unat (session_id header))"

lemma text_buffer_lines:
  "text_buffer header (bytes_of_string p) =
     bytes_of_string (text_header_line header) @ byte_of_char newline # bytes_of_string p @ [byte_of_char newline]"
  by (simp add: text_buffer_def text_header_line_def)

section \<open>Properties\<close>

text \<open>
  A binary reply that the kernel takes whole is read back by the frame reader on the
  other side as the same header and payload, provided the header tells the payload's
  length.
\<close>

theorem binary_reply_read_back:
  assumes "unat (payload_length h) = length p" "tx_res w = int (16 + length p) # rs"
    and "tx_log (snd (send_frame (UringTcpConnection f) h p w)) = tx_log w @ [Sent f sent]"
    and "avail (rx peer g) = sent @ behind"
  shows "\<exists>q. read_frame g peer = (Ret \<lparr>cf_header = h, cf_payload = p\<rparr>, set_rx g q peer) \<and> avail q = behind"
proof -
  have "length (wire_buffer h p) = 16 + length p"
    by (simp add: wire_buffer_def sizeof_FrameHeader_def)
  then have "sent = wire_buffer h p"
    using assms(2,3) send_frame_ok [of w "int (16 + length p)" rs "UringTcpConnection f" h p]
    by (simp add: nat_int_add)
  then have "avail (rx peer g) = frame_bytes \<lparr>cf_header = h, cf_payload = p\<rparr> @ behind"
    using assms(4) by (simp add: wire_buffer_frame_bytes)
  from read_frame_stream [OF this] assms(1) show ?thesis by (auto simp: wf_frame_def)
qed

text \<open>
  A text reply is two lines: command, flags and session id, then the payload. A client
  that reads lines gets exactly these two back if the payload has no line feed.
\<close>

theorem text_reply_read_back:
  assumes "avail (rx peer g) = text_buffer h (bytes_of_string p) @ behind" "newline \<notin> set p"
  shows "\<exists>q. read_n (read_text_line g) 2 peer = (Ret [text_header_line h, p], set_rx g q peer) \<and> avail q = behind"
proof -
  have "\<exists>q. read_text_line g v = (Ret l, set_rx g q v) \<and> avail q = r \<and> ending q = ending (rx v g)"
    if "l \<in> set [text_header_line h, p]" "avail (rx v g) = bytes_of_string (l @ [newline]) @ r" for l v r
  proof -
    have "newline \<notin> set l" using that(1) assms(2) by (auto simp: text_header_line_def)
    moreover have "avail (rx v g) = bytes_of_string l @ byte_of_char newline # r" using that(2) by simp
    ultimately show ?thesis by (metis read_text_line_stream)
  qed
  from read_n_stream [where val = "\<lambda>x. x" and w = peer and rest = behind and
      enc = "\<lambda>l. bytes_of_string (l @ [newline])" and xs = "[text_header_line h, p]", OF this] assms(1) show ?thesis
    by (auto simp: text_buffer_lines numeral_2_eq_2)
qed

end
