(* ===== verification/Crypto_Layer.thy ===== *)
theory Crypto_Layer
  imports Connections
begin

text \<open>
  \<^verbatim>\<open>include/servd/crypto\<close>: the wrappers \<^verbatim>\<open>AesGcm\<close>, \<^verbatim>\<open>X25519\<close> and
  \<^verbatim>\<open>Rng\<close>. Botan itself is not part of servd: it is a parameter of the model, and what
  the wrappers rely on is stated as named hypotheses about that parameter.
\<close>

section \<open>Botan\<close>

text \<open>
  A \<^verbatim>\<open>Botan::Cipher_Mode\<close> keyed with \<open>k\<close> and started with a nonce is fed buffers by
  \<^verbatim>\<open>update\<close> (their list is the third argument) and then processes the last buffer in
  \<^verbatim>\<open>finish\<close>; decryption throws when the tag does not verify (\<open>None\<close>).
  \<^verbatim>\<open>gcm_available\<close> is whether \<^verbatim>\<open>Cipher_Mode::create\<close> finds AES-256/GCM.
\<close>

record botan =
  gcm_available :: bool
  gcm_finish_enc :: "bytes \<Rightarrow> bytes \<Rightarrow> bytes list \<Rightarrow> bytes \<Rightarrow> bytes"
  gcm_finish_dec :: "bytes \<Rightarrow> bytes \<Rightarrow> bytes list \<Rightarrow> bytes \<Rightarrow> bytes option"
  x25519_public :: "bytes \<Rightarrow> bytes"
  x25519_agree :: "bytes \<Rightarrow> bytes \<Rightarrow> bytes option"

definition gcm_tag_appended :: "botan \<Rightarrow> bool" where
  "gcm_tag_appended B \<longleftrightarrow>
     (\<forall>k n p. length k = 32 \<longrightarrow> length n = 12 \<longrightarrow> length (gcm_finish_enc B k n [] p) = length p + 16)"

definition gcm_decrypts :: "botan \<Rightarrow> bool" where
  "gcm_decrypts B \<longleftrightarrow>
     (\<forall>k n p. length k = 32 \<longrightarrow> length n = 12 \<longrightarrow>
        gcm_finish_dec B k n [] (gcm_finish_enc B k n [] p) = Some p)"

definition x25519_sizes :: "botan \<Rightarrow> bool" where
  "x25519_sizes B \<longleftrightarrow>
     (\<forall>a. length (x25519_public B a) = 32) \<and>
     (\<forall>a b k. x25519_agree B a b = Some k \<longrightarrow> length k = 32)"

definition x25519_commutes :: "botan \<Rightarrow> bool" where
  "x25519_commutes B \<longleftrightarrow>
     (\<forall>a b. x25519_agree B a (x25519_public B b) = x25519_agree B b (x25519_public B a))"

section \<open>AesGcm\<close>

definition KEY_SIZE :: nat where "KEY_SIZE = 32"
definition NONCE_SIZE :: nat where "NONCE_SIZE = 12"
definition TAG_SIZE :: nat where "TAG_SIZE = 16"

lemmas aes_sizes = KEY_SIZE_def NONCE_SIZE_def TAG_SIZE_def

text \<open>A constructed cipher object is its key (both directions are keyed alike).\<close>

record AesGcm =
  cipher_key :: bytes

definition mk_AesGcm :: "botan \<Rightarrow> bytes \<Rightarrow> nat \<Rightarrow> exn + AesGcm" where
  "mk_AesGcm B key key_size =
     (if key_size \<noteq> KEY_SIZE then Inl (RuntimeError ''AesGcm: key must be 32 bytes (AES-256)'')
      else if \<not> gcm_available B then Inl (RuntimeError ''AesGcm: Botan AES-256/GCM not available'')
      else Inr \<lparr>cipher_key = key\<rparr>)"

text \<open>The associated data goes through \<^verbatim>\<open>update\<close>, as one buffer, when it is not empty.\<close>

definition aad_updates :: "bytes \<Rightarrow> bytes list" where
  "aad_updates aad = (if aad = [] then [] else [aad])"

definition encrypt :: "botan \<Rightarrow> AesGcm \<Rightarrow> bytes \<Rightarrow> bytes \<Rightarrow> bytes \<Rightarrow> exn + bytes" where
  "encrypt B c plaintext aad nonce =
     (if length nonce \<noteq> NONCE_SIZE then Inl (RuntimeError ''AesGcm: nonce must be 12 bytes'')
      else Inr (gcm_finish_enc B (cipher_key c) nonce (aad_updates aad) plaintext))"

definition decrypt :: "botan \<Rightarrow> AesGcm \<Rightarrow> bytes \<Rightarrow> bytes \<Rightarrow> bytes \<Rightarrow> exn + bytes" where
  "decrypt B c ciphertext_with_tag aad nonce =
     (if length nonce \<noteq> NONCE_SIZE then Inl (RuntimeError ''AesGcm: nonce must be 12 bytes'')
      else if length ciphertext_with_tag < TAG_SIZE
        then Inl (RuntimeError ''AesGcm: ciphertext too short (no tag)'')
      else
        (case gcm_finish_dec B (cipher_key c) nonce (aad_updates aad) ciphertext_with_tag of
           None \<Rightarrow> Inl (RuntimeError ''AES-GCM tag check failed'')
         | Some buf \<Rightarrow> Inr (take (length ciphertext_with_tag - TAG_SIZE) buf)))"

lemma decrypt_encrypt:
  assumes "gcm_tag_appended B" "gcm_decrypts B" "length (cipher_key c) = 32" "length nonce = NONCE_SIZE"
  shows "\<exists>ct. encrypt B c p [] nonce = Inr ct \<and> decrypt B c ct [] nonce = Inr p \<and>
    length ct = length p + TAG_SIZE"
  using assms
  by (simp add: encrypt_def decrypt_def aad_updates_def gcm_tag_appended_def gcm_decrypts_def aes_sizes)

section \<open>Rng\<close>

text \<open>
  \<^verbatim>\<open>Rng::fill\<close>: \<^verbatim>\<open>getrandom\<close> is asked for what is still missing and may give less;
  \<open>pre\<close> is the part of the buffer already filled.
\<close>

fun fill_loop :: "nat \<Rightarrow> bytes \<Rightarrow> getrandom_event list \<Rightarrow> bytes outcome \<times> getrandom_event list" where
  "fill_loop len pre [] = (if length pre < len then (Pending, []) else (Ret pre, []))"
| "fill_loop len pre (ev # src) =
     (if length pre < len then
        (case ev of
           RandomErrno \<Rightarrow> (Throw (RuntimeError ''getrandom() failed''), src)
         | RandomBytes bs \<Rightarrow> fill_loop len (pre @ take (len - length pre) bs) src)
      else (Ret pre, ev # src))"

definition gen :: "nat \<Rightarrow> (world, bytes) co" where
  "gen n w =
     (let (r, src) = fill_loop n [] (getrandom_src w) in (r, w\<lparr>getrandom_src := src\<rparr>))"

lemma fill_loop_length: "fill_loop len pre src = (Ret bs, src') \<Longrightarrow> length pre \<le> len \<Longrightarrow> length bs = len"
  by (induction len pre src rule: fill_loop.induct) (auto split: if_splits getrandom_event.splits)

lemma gen_length: "gen n w = (Ret bs, w') \<Longrightarrow> length bs = n"
  by (auto simp: gen_def split: prod.splits dest: fill_loop_length)

lemma gen_one_call:
  assumes "getrandom_src w = RandomBytes bs # src" "length bs = n" "0 < n"
  shows "gen n w = (Ret bs, w\<lparr>getrandom_src := src\<rparr>)"
  using assms by (cases n; cases src) (auto simp: gen_def)

lemma gen_world: "\<exists>src. snd (gen n w) = w\<lparr>getrandom_src := src\<rparr>"
  by (auto simp: gen_def split: prod.split)

section \<open>X25519\<close>

text \<open>\<^verbatim>\<open>Key key{}; memcpy(key, span, min(span.size(), 32))\<close>.\<close>

definition to_key :: "bytes \<Rightarrow> bytes" where
  "to_key bs = take 32 bs @ replicate (32 - length bs) 0"

lemma length_to_key [simp]: "length (to_key bs) = 32"
  by (simp add: to_key_def)

lemma to_key_32 [simp]: "length bs = 32 \<Longrightarrow> to_key bs = bs"
  by (simp add: to_key_def)

definition generate_private :: "(world, bytes) co" where
  "generate_private w =
     (case privkey_src w of
        [] \<Rightarrow> (Pending, w)
      | k # ks \<Rightarrow> (Ret (to_key k), w\<lparr>privkey_src := ks\<rparr>))"

definition public_key :: "botan \<Rightarrow> bytes \<Rightarrow> bytes" where
  "public_key B private = to_key (x25519_public B private)"

definition shared_secret :: "botan \<Rightarrow> bytes \<Rightarrow> bytes \<Rightarrow> exn + bytes" where
  "shared_secret B private public =
     (case x25519_agree B private public of
        None \<Rightarrow> Inl InvalidArgument
      | Some raw \<Rightarrow> Inr (to_key raw))"

end
