(* ===== verification/Request_Context.thy ===== *)
theory Request_Context
  imports Crypto_Layer
begin

text \<open>
  \<^verbatim>\<open>Context.hpp\<close>, \<^verbatim>\<open>router/Endpoint.hpp\<close>, \<^verbatim>\<open>router/Router.hpp\<close>,
  \<^verbatim>\<open>IAuthenticator.hpp\<close> and \<^verbatim>\<open>DefaultAuthenticator.hpp\<close>: the object user code
  sees while a command is processed, and the table of commands.
\<close>

section \<open>Context\<close>

text \<open>
  A value of \<^verbatim>\<open>std::any\<close>: the identity of its type and the object representation.
\<close>

datatype any_val = AnyVal (any_type: string) (any_repr: bytes)

text \<open>
  The context holds references to the session and to the connection. User code acts on
  both through the context, so the model's context carries the session itself and, for
  what is sent over the connection, the world.
\<close>

record Context =
  ctx_header :: FrameHeader
  ctx_payload :: bytes
  ctx_session :: Session
  ctx_connection :: IConnection
  ctx_locals :: "string \<rightharpoonup> any_val"
  ctx_world :: world

definition mk_context :: "FrameHeader \<Rightarrow> bytes \<Rightarrow> Session \<Rightarrow> IConnection \<Rightarrow> world \<Rightarrow> Context" where
  "mk_context h p s c w = \<lparr>ctx_header = h, ctx_payload = p, ctx_session = s,
     ctx_connection = c, ctx_locals = Map.empty, ctx_world = w\<rparr>"

lemma mk_context_sel [simp]:
  "ctx_header (mk_context h p s c w) = h" "ctx_payload (mk_context h p s c w) = p"
  "ctx_session (mk_context h p s c w) = s" "ctx_connection (mk_context h p s c w) = c"
  "ctx_locals (mk_context h p s c w) = Map.empty" "ctx_world (mk_context h p s c w) = w"
  by (simp_all add: mk_context_def)

definition in_world :: "(world, 'a) co \<Rightarrow> (Context, 'a) co" where
  "in_world m ctx = (let (r, w) = m (ctx_world ctx) in (r, ctx\<lparr>ctx_world := w\<rparr>))"

definition current_transport :: "Context \<Rightarrow> TransportType" where
  "current_transport ctx = transport_type (ctx_connection ctx)"

text \<open>
  What \<^verbatim>\<open>push_event\<close> is meant to send. In the code the header is a local of a function that is
  no coroutine, and the task it returns has not begun: the reference the task keeps is dangling
  when the caller awaits it, so that a compiled program may send another header.
\<close>

definition push_event :: "u16 \<Rightarrow> bytes \<Rightarrow> (Context, unit) co" where
  "push_event event_command_id data ctx =
     in_world (send_frame (ctx_connection ctx)
       (mk_header event_command_id 0 (of_nat (length data)) (sess_id (ctx_session ctx))) data) ctx"

text \<open>The property bag.\<close>

definition ctx_set :: "string \<Rightarrow> any_val \<Rightarrow> Context \<Rightarrow> Context" where
  "ctx_set key v ctx = ctx\<lparr>ctx_locals := (ctx_locals ctx)(key \<mapsto> v)\<rparr>"

definition ctx_get :: "string \<Rightarrow> string \<Rightarrow> Context \<Rightarrow> exn + bytes" where
  "ctx_get T key ctx =
     (case ctx_locals ctx key of
        None \<Rightarrow> Inl OutOfRange
      | Some v \<Rightarrow> if any_type v = T then Inr (any_repr v) else Inl BadAnyCast)"

definition ctx_get_if :: "string \<Rightarrow> string \<Rightarrow> Context \<Rightarrow> bytes option" where
  "ctx_get_if T key ctx =
     (case ctx_locals ctx key of
        None \<Rightarrow> None
      | Some v \<Rightarrow> if any_type v = T then Some (any_repr v) else None)"

lemma ctx_get_set:
  "ctx_get T k (ctx_set k' v ctx) =
     (if k = k' then (if any_type v = T then Inr (any_repr v) else Inl BadAnyCast) else ctx_get T k ctx)"
  by (simp add: ctx_get_def ctx_set_def)

lemma ctx_get_if_iff: "ctx_get_if T k ctx = Some b \<longleftrightarrow> ctx_get T k ctx = Inr b"
  by (auto simp: ctx_get_if_def ctx_get_def split: option.splits if_splits)

section \<open>Authenticators\<close>

type_synonym IAuthenticator = "(Context, bool) co"

definition DefaultAuthenticator :: IAuthenticator where
  "DefaultAuthenticator ctx = co_ret (is_authenticated (ctx_session ctx)) ctx"

section \<open>Endpoints and the router\<close>

text \<open>
  \<^verbatim>\<open>Handler\<close> is a \<^verbatim>\<open>std::function\<close>, which may be empty.
\<close>

type_synonym Handler = "(Context, ResponseFrame) co option"

record Endpoint =
  handler :: Handler
  requires_auth :: bool
  allowed_transport :: TransportType

definition default_endpoint :: Endpoint where
  "default_endpoint = \<lparr>handler = None, requires_auth = False, allowed_transport = ANY\<rparr>"

definition require_auth :: "Endpoint \<Rightarrow> Endpoint" where
  "require_auth ep = ep\<lparr>requires_auth := True\<rparr>"

definition tcp_only :: "Endpoint \<Rightarrow> Endpoint" where
  "tcp_only ep = ep\<lparr>allowed_transport := TCP\<rparr>"

definition udp_only :: "Endpoint \<Rightarrow> Endpoint" where
  "udp_only ep = ep\<lparr>allowed_transport := UDP\<rparr>"

definition is_valid :: "Endpoint \<Rightarrow> bool" where
  "is_valid ep \<longleftrightarrow> handler ep \<noteq> None"

text \<open>
  \<^verbatim>\<open>std::array<Endpoint, 65536>\<close> indexed by a \<^verbatim>\<open>uint16_t\<close>: every index is in range.
  \<^verbatim>\<open>add\<close> returns a reference to the entry, through which the builder methods then
  update it (\<open>at_endpoint\<close>).
\<close>

type_synonym Router = "u16 \<Rightarrow> Endpoint"

definition empty_router :: Router where
  "empty_router = (\<lambda>_. default_endpoint)"

definition router_add :: "u16 \<Rightarrow> Handler \<Rightarrow> Router \<Rightarrow> Router" where
  "router_add c h r =
     r(c := (r c)\<lparr>handler := h, requires_auth := False, allowed_transport := ANY\<rparr>)"

definition at_endpoint :: "u16 \<Rightarrow> (Endpoint \<Rightarrow> Endpoint) \<Rightarrow> Router \<Rightarrow> Router" where
  "at_endpoint c f r = r(c := f (r c))"

definition router_get :: "u16 \<Rightarrow> Router \<Rightarrow> Endpoint option" where
  "router_get c r = (if is_valid (r c) then Some (r c) else None)"

lemma router_get_empty [simp]: "router_get c empty_router = None"
  by (simp add: router_get_def empty_router_def is_valid_def default_endpoint_def)

lemma router_get_add:
  "router_get c (router_add c' h r) =
     (if c = c' then map_option (\<lambda>f. \<lparr>handler = Some f, requires_auth = False, allowed_transport = ANY\<rparr>) h
      else router_get c r)"
  by (auto simp: router_get_def router_add_def is_valid_def)

lemma router_get_at_endpoint_other [simp]:
  "c \<noteq> c' \<Longrightarrow> router_get c (at_endpoint c' f r) = router_get c r"
  by (simp add: router_get_def at_endpoint_def)

lemma router_get_builder:
  assumes "\<And>ep. handler (f ep) = handler ep"
  shows "router_get c (at_endpoint c f r) = map_option f (router_get c r)"
  using assms by (simp add: router_get_def at_endpoint_def is_valid_def)

lemma builders_keep_handler [simp]:
  "handler (require_auth ep) = handler ep" "handler (tcp_only ep) = handler ep"
  "handler (udp_only ep) = handler ep"
  by (simp_all add: require_auth_def tcp_only_def udp_only_def)

section \<open>Properties\<close>

text \<open>
  Registration of commands. The last \<^verbatim>\<open>add\<close> for an id decides: the endpoint found
  is its handler, open to everyone on every transport, so that a command registered again
  loses the constraints it had; the builder methods restrict exactly that endpoint; other
  ids are not affected, and an id that was given no handler is not found.
\<close>

theorem router_registration:
  "router_get c (router_add c (Some h) r) =
     Some \<lparr>handler = Some h, requires_auth = False, allowed_transport = ANY\<rparr> \<and>
   router_get c (at_endpoint c (tcp_only \<circ> require_auth) (router_add c (Some h) r)) =
     Some \<lparr>handler = Some h, requires_auth = True, allowed_transport = TCP\<rparr> \<and>
   router_get c (router_add c (Some h) (at_endpoint c require_auth r)) =
     router_get c (router_add c (Some h) r) \<and>
   router_get c (router_add c None r) = None \<and>
   router_get d (at_endpoint c require_auth (router_add c (Some h) r)) =
     (if d = c then Some \<lparr>handler = Some h, requires_auth = True, allowed_transport = ANY\<rparr>
      else router_get d r)"
  by (simp add: router_get_add router_get_builder)
    (simp add: require_auth_def tcp_only_def)

end
