(* ===== verification/Command_Pipeline.thy ===== *)
theory Command_Pipeline
  imports Request_Context
begin

text \<open>
  \<^verbatim>\<open>CommandRoute.cpp\<close> and \<^verbatim>\<open>EncryptedHandler.cpp\<close>: from a frame to a reply. A
  command is processed against the coroutine's copy of the session and the world; the
  parameters are the server's router and authenticator and the Botan library.
\<close>

record pipeline =
  pl_router :: Router
  pl_authenticator :: IAuthenticator
  pl_botan :: botan

type_synonym request_state = "Session \<times> world"

text \<open>Run user code in a fresh context; its effects are those on session and world.\<close>

definition with_context ::
    "FrameHeader \<Rightarrow> bytes \<Rightarrow> IConnection \<Rightarrow> (Context, 'a) co \<Rightarrow> (request_state, 'a) co" where
  "with_context h p conn m =
     (\<lambda>(s, w). let (r, ctx) = m (mk_context h p s conn w) in (r, (ctx_session ctx, ctx_world ctx)))"

definition on_world :: "(world, 'a) co \<Rightarrow> (request_state, 'a) co" where
  "on_world m = (\<lambda>(s, w). let (r, w') = m w in (r, (s, w')))"

section \<open>The security gate\<close>

text \<open>
  \<^verbatim>\<open>(!requires_auth || co_await authenticate(ctx)) && (allowed == ANY || allowed ==
  transport_type())\<close>: the authenticator runs only when it is needed.
\<close>

definition transport_ok :: "Endpoint \<Rightarrow> IConnection \<Rightarrow> bool" where
  "transport_ok ep conn \<longleftrightarrow>
     allowed_transport ep = ANY \<or> allowed_transport ep = transport_type conn"

definition gate :: "IAuthenticator \<Rightarrow> Endpoint \<Rightarrow> IConnection \<Rightarrow> (Context, bool) co" where
  "gate authenticate ep conn =
     co_bind (if requires_auth ep then authenticate else co_ret True)
       (\<lambda>a. co_ret (a \<and> transport_ok ep conn))"

definition invoke :: "Endpoint \<Rightarrow> (Context, ResponseFrame) co" where
  "invoke ep = (case handler ep of None \<Rightarrow> co_throw (RuntimeError ''bad_function_call'') | Some h \<Rightarrow> h)"

section \<open>handle_key_exchange\<close>

definition handle_key_exchange :: "botan \<Rightarrow> ClientFrame \<Rightarrow> IConnection \<Rightarrow> (request_state, unit) co" where
  "handle_key_exchange B frame conn =
     (if length (cf_payload frame) \<noteq> 32 then co_ret ()
      else
        let client_pub = cf_payload frame in
        co_bind (on_world generate_private) (\<lambda>server_priv.
        let server_pub = public_key B server_priv in
        co_bind (co_of_sum (shared_secret B server_priv client_pub)) (\<lambda>shared.
        co_seq (\<lambda>(s, w). (Ret (), (set_aes_key shared s, w)))
          (\<lambda>(s, w). on_world (send_frame conn
             (mk_header CMD_KEY_EXCHANGE 0 32 (sess_id s)) server_pub) (s, w)))))"

section \<open>handle_normal_command\<close>

definition handle_normal_command :: "pipeline \<Rightarrow> ClientFrame \<Rightarrow> IConnection \<Rightarrow> (request_state, unit) co" where
  "handle_normal_command pl frame conn =
     (case router_get (command_id (cf_header frame)) (pl_router pl) of
        None \<Rightarrow> co_ret ()
      | Some ep \<Rightarrow>
          with_context (cf_header frame) (cf_payload frame) conn
            (co_bind (gate (pl_authenticator pl) ep conn) (\<lambda>ok.
             if \<not> ok then co_ret ()
             else co_bind (invoke ep) (\<lambda>resp. \<lambda>ctx.
               in_world (send_frame conn
                 (mk_header (command_id (cf_header frame)) (rf_flags resp)
                    (of_nat (length (rf_payload resp))) (sess_id (ctx_session ctx)))
                 (rf_payload resp)) ctx))))"

section \<open>Encrypted messages\<close>

text \<open>
  \<^verbatim>\<open>do_decrypt\<close>. The payload is nonce, tag, ciphertext; Botan wants the tag behind the
  ciphertext. The result carries the cipher for the reply. An exception of
  \<^verbatim>\<open>decrypt\<close> is swallowed; one of the cipher's constructor is not.
\<close>

definition do_decrypt :: "botan \<Rightarrow> bytes \<Rightarrow> Session \<Rightarrow> exn + (AesGcm \<times> u16 \<times> bytes) option" where
  "do_decrypt B payload session =
     (if \<not> has_aes_key session \<or> length payload < NONCE_SIZE + TAG_SIZE then Inr None
      else
        let iv = subspan 0 NONCE_SIZE payload;
            tag = subspan NONCE_SIZE TAG_SIZE payload;
            ct = drop (NONCE_SIZE + TAG_SIZE) payload;
            aei = ct @ tag in
        case mk_AesGcm B (aes_key session) KEY_SIZE of
          Inl e \<Rightarrow> Inl e
        | Inr cipher \<Rightarrow>
            (case decrypt B cipher aei [] iv of
               Inl _ \<Rightarrow> Inr None
             | Inr pt \<Rightarrow>
                 if length pt < 2 then Inr None
                 else Inr (Some (cipher, le_word (subspan 0 2 pt), drop 2 pt))))"

text \<open>The encrypted reply's layout: nonce, tag, ciphertext.\<close>

definition seal_layout :: "bytes \<Rightarrow> bytes \<Rightarrow> bytes" where
  "seal_layout iv enc =
     (let cl = length enc - TAG_SIZE in iv @ subspan cl TAG_SIZE enc @ take cl enc)"

definition do_route_and_send ::
    "pipeline \<Rightarrow> IConnection \<Rightarrow> AesGcm \<Rightarrow> u16 \<Rightarrow> bytes \<Rightarrow> (request_state, unit) co" where
  "do_route_and_send pl conn cipher inner_cmd inner_payload =
     (case router_get inner_cmd (pl_router pl) of
        None \<Rightarrow> co_ret ()
      | Some ep \<Rightarrow>
          (\<lambda>(s, w).
            with_context (mk_header inner_cmd 0 (of_nat (length inner_payload)) (sess_id s))
              inner_payload conn
              (co_bind (gate (pl_authenticator pl) ep conn) (\<lambda>ok.
               if \<not> ok then co_ret ()
               else co_bind (invoke ep) (\<lambda>resp.
                 let inner = le_bytes 2 inner_cmd @ rf_payload resp in
                 co_bind (in_world (gen NONCE_SIZE)) (\<lambda>iv_out.
                 co_bind (co_of_sum (encrypt (pl_botan pl) cipher inner [] iv_out)) (\<lambda>enc. \<lambda>ctx.
                   let out = seal_layout iv_out enc in
                   in_world (send_frame conn
                     (mk_header CMD_ENCRYPTED_MESSAGE (rf_flags resp) (of_nat (length out))
                        (sess_id (ctx_session ctx))) out) ctx))))) (s, w)))"

definition handle_encrypted_message :: "pipeline \<Rightarrow> ClientFrame \<Rightarrow> IConnection \<Rightarrow> (request_state, unit) co" where
  "handle_encrypted_message pl frame conn =
     (\<lambda>(s, w).
       case do_decrypt (pl_botan pl) (cf_payload frame) s of
         Inl e \<Rightarrow> (Throw e, (s, w))
       | Inr None \<Rightarrow> (Ret (), (s, w))
       | Inr (Some (cipher, inner_cmd, inner_payload)) \<Rightarrow>
           do_route_and_send pl conn cipher inner_cmd inner_payload (s, w))"

section \<open>process_command\<close>

definition process_command :: "pipeline \<Rightarrow> ClientFrame \<Rightarrow> IConnection \<Rightarrow> (request_state, unit) co" where
  "process_command pl frame conn =
     (if command_id (cf_header frame) = CMD_KEY_EXCHANGE
        then handle_key_exchange (pl_botan pl) frame conn
      else if command_id (cf_header frame) = CMD_ENCRYPTED_MESSAGE
        then handle_encrypted_message pl frame conn
      else handle_normal_command pl frame conn)"

end
