(* ===== verification/Pipeline_Properties.thy ===== *)
theory Pipeline_Properties
  imports Command_Pipeline
begin

text \<open>
  What command processing guarantees: the security gate, the reply to an admitted
  command, the key exchange and the encrypted channel.
\<close>

section \<open>Evaluation\<close>

named_theorems pipeline_simps

lemmas [pipeline_simps] = process_command_def CMD_KEY_EXCHANGE_def CMD_ENCRYPTED_MESSAGE_def

definition reserved :: "u16 \<Rightarrow> bool" where
  "reserved c \<longleftrightarrow> c = CMD_KEY_EXCHANGE \<or> c = CMD_ENCRYPTED_MESSAGE"

lemma process_command_normal:
  "\<not> reserved (command_id (cf_header frame)) \<Longrightarrow>
     process_command pl frame conn = handle_normal_command pl frame conn"
  by (simp add: process_command_def reserved_def)

lemma process_command_encrypted:
  "command_id (cf_header frame) = CMD_ENCRYPTED_MESSAGE \<Longrightarrow>
     process_command pl frame conn = handle_encrypted_message pl frame conn"
  by (simp add: pipeline_simps)

lemma process_command_key_exchange:
  "command_id (cf_header frame) = CMD_KEY_EXCHANGE \<Longrightarrow>
     process_command pl frame conn = handle_key_exchange (pl_botan pl) frame conn"
  by (simp add: pipeline_simps)

text \<open>The gate on each branch.\<close>

lemma gate_open:
  "\<not> requires_auth ep \<Longrightarrow> gate auth ep conn ctx = (Ret (transport_ok ep conn), ctx)"
  by (simp add: gate_def)

lemma gate_auth:
  "requires_auth ep \<Longrightarrow> auth ctx = (Ret a, ctx') \<Longrightarrow>
     gate auth ep conn ctx = (Ret (a \<and> transport_ok ep conn), ctx')"
  by (simp add: gate_def co_simps)

lemma gate_default:
  "gate DefaultAuthenticator ep conn ctx =
     (Ret ((requires_auth ep \<longrightarrow> authenticated (ctx_session ctx)) \<and> transport_ok ep conn), ctx)"
  by (simp add: gate_def co_bind_def DefaultAuthenticator_def is_authenticated_def)

text \<open>A closed gate: the command's outcome is the gate's, whatever the handler is.\<close>

lemma normal_rejected:
  assumes "router_get (command_id (cf_header frame)) (pl_router pl) = Some ep"
    and "gate (pl_authenticator pl) ep conn
           (mk_context (cf_header frame) (cf_payload frame) s conn w) = (Ret False, ctx')"
  shows "handle_normal_command pl frame conn (s, w) = (Ret (), (ctx_session ctx', ctx_world ctx'))"
  using assms by (simp add: handle_normal_command_def with_context_def co_bind_def)

lemma routed_rejected:
  assumes "router_get c (pl_router pl) = Some ep"
    and "gate (pl_authenticator pl) ep conn
           (mk_context (mk_header c 0 (of_nat (length p)) (sess_id s)) p s conn w) = (Ret False, ctx')"
  shows "do_route_and_send pl conn cipher c p (s, w) = (Ret (), (ctx_session ctx', ctx_world ctx'))"
  using assms by (simp add: do_route_and_send_def with_context_def co_bind_def)

lemma normal_accepted:
  assumes "router_get (command_id (cf_header frame)) (pl_router pl) = Some ep"
    and "gate (pl_authenticator pl) ep conn
           (mk_context (cf_header frame) (cf_payload frame) s conn w) = (Ret True, ctx1)"
    and "invoke ep ctx1 = (Ret resp, ctx2)" "tx_res (ctx_world ctx2) = r # rs" "0 \<le> r"
  shows "handle_normal_command pl frame conn (s, w) =
    (Ret (), (ctx_session ctx2, (ctx_world ctx2)\<lparr>tx_res := rs,
       tx_log := tx_log (ctx_world ctx2) @
         [conn_tx conn (mk_header (command_id (cf_header frame)) (rf_flags resp)
            (of_nat (length (rf_payload resp))) (sess_id (ctx_session ctx2))) (rf_payload resp) r]\<rparr>))"
  using assms
  by (simp add: handle_normal_command_def with_context_def co_simps in_world_def send_frame_ok)

section \<open>Opening and sealing\<close>

lemma seal_layout_parts:
  assumes "length iv = NONCE_SIZE" "TAG_SIZE \<le> length enc"
  shows "length (seal_layout iv enc) = NONCE_SIZE + length enc"
    "subspan 0 NONCE_SIZE (seal_layout iv enc) = iv"
    "drop (NONCE_SIZE + TAG_SIZE) (seal_layout iv enc) @ subspan NONCE_SIZE TAG_SIZE (seal_layout iv enc) = enc"
proof -
  let ?cl = "length enc - TAG_SIZE"
  have lay: "seal_layout iv enc = iv @ drop ?cl enc @ take ?cl enc"
    using assms(2) by (simp add: seal_layout_def subspan_def Let_def)
  have tag: "length (drop ?cl enc) = TAG_SIZE" using assms(2) by simp
  show "length (seal_layout iv enc) = NONCE_SIZE + length enc"
    using assms by (simp add: lay)
  show "subspan 0 NONCE_SIZE (seal_layout iv enc) = iv"
    using assms(1) by (simp add: lay)
  show "drop (NONCE_SIZE + TAG_SIZE) (seal_layout iv enc) @ subspan NONCE_SIZE TAG_SIZE (seal_layout iv enc) = enc"
    using assms(1) tag by (simp add: lay subspan_def)
qed

definition gcm_ok :: "botan \<Rightarrow> bool" where
  "gcm_ok B \<longleftrightarrow> gcm_available B \<and> gcm_tag_appended B \<and> gcm_decrypts B"

text \<open>
  A message sealed by the other holder of the key: command id and payload, encrypted
  under the nonce and laid out as the wire format wants it.
\<close>

definition sealed :: "botan \<Rightarrow> bytes \<Rightarrow> bytes \<Rightarrow> u16 \<Rightarrow> bytes \<Rightarrow> bytes" where
  "sealed B key iv c p = seal_layout iv (gcm_finish_enc B key iv [] (le_bytes 2 c @ p))"

lemma do_decrypt_sealed:
  assumes "gcm_ok B" "has_aes_key s" "length (aes_key s) = 32" "length iv = NONCE_SIZE"
  shows "do_decrypt B (sealed B (aes_key s) iv c p) s = Inr (Some (\<lparr>cipher_key = aes_key s\<rparr>, c, p))"
proof -
  let ?k = "\<lparr>cipher_key = aes_key s\<rparr>" and ?pt = "le_bytes 2 c @ p"
  obtain enc where enc: "gcm_finish_enc B (aes_key s) iv [] ?pt = enc"
      "decrypt B ?k enc [] iv = Inr ?pt" "length enc = length ?pt + TAG_SIZE"
    using decrypt_encrypt [of B ?k iv ?pt] assms
    by (auto simp: gcm_ok_def encrypt_def aad_updates_def)
  note parts = seal_layout_parts [OF assms(4), of enc]
  have "mk_AesGcm B (aes_key s) KEY_SIZE = Inr ?k"
    using assms(1) by (simp add: mk_AesGcm_def gcm_ok_def)
  then show ?thesis
    using assms(2) enc parts by (simp add: do_decrypt_def sealed_def Let_def le_word_le_bytes)
qed

lemma encrypted_opened:
  assumes "gcm_ok (pl_botan pl)" "has_aes_key s" "length (aes_key s) = 32" "length iv = NONCE_SIZE"
    and "command_id (cf_header frame) = CMD_ENCRYPTED_MESSAGE"
    and "cf_payload frame = sealed (pl_botan pl) (aes_key s) iv c p"
  shows "process_command pl frame conn (s, w) =
    do_route_and_send pl conn \<lparr>cipher_key = aes_key s\<rparr> c p (s, w)"
  using assms
  by (simp add: process_command_encrypted handle_encrypted_message_def do_decrypt_sealed)

lemma routed_accepted:
  assumes B: "gcm_ok (pl_botan pl)" "length (cipher_key k) = 32"
    and ep: "router_get c (pl_router pl) = Some ep"
    and g: "gate (pl_authenticator pl) ep conn
           (mk_context (mk_header c 0 (of_nat (length p)) (sess_id s)) p s conn w) = (Ret True, ctx1)"
    and h: "invoke ep ctx1 = (Ret resp, ctx2)"
    and rnd: "getrandom_src (ctx_world ctx2) = RandomBytes iv # src" "length iv = NONCE_SIZE"
    and tx: "tx_res (ctx_world ctx2) = r # rs" "0 \<le> r"
  defines "out \<equiv> sealed (pl_botan pl) (cipher_key k) iv c (rf_payload resp)"
  shows "do_route_and_send pl conn k c p (s, w) =
    (Ret (), (ctx_session ctx2, (ctx_world ctx2)\<lparr>getrandom_src := src, tx_res := rs,
       tx_log := tx_log (ctx_world ctx2) @
         [conn_tx conn (mk_header CMD_ENCRYPTED_MESSAGE (rf_flags resp)
            (of_nat (length out)) (sess_id (ctx_session ctx2))) out r]\<rparr>))"
proof -
  have gen: "gen NONCE_SIZE (ctx_world ctx2) = (Ret iv, (ctx_world ctx2)\<lparr>getrandom_src := src\<rparr>)"
    by (rule gen_one_call [OF rnd]) (simp add: NONCE_SIZE_def)
  have "encrypt (pl_botan pl) k (le_bytes 2 c @ rf_payload resp) [] iv =
      Inr (gcm_finish_enc (pl_botan pl) (cipher_key k) iv [] (le_bytes 2 c @ rf_payload resp))"
    using rnd by (simp add: encrypt_def aad_updates_def)
  then show ?thesis
    using ep g h gen tx
    by (simp add: do_route_and_send_def with_context_def co_bind_def in_world_def Let_def
        send_frame_ok out_def sealed_def)
qed

section \<open>Properties\<close>

text \<open>
  C7. A command whose endpoint requires authentication has no effect on behalf of a
  session the authenticator turns down: the outcome of the whole frame is the
  authenticator's own effect on session and world, the handler is not entered and no reply
  is sent. This holds for a plain frame with any flags, length field and session id in its
  header, and for an encrypted frame that opens to such a command, where the authenticator
  is asked about the header made up for the inner command.
\<close>

theorem unauthenticated_command_rejected:
  assumes "requires_auth ep" "router_get c (pl_router pl) = Some ep"
    and "(command_id (cf_header frame) = c \<and> \<not> reserved c \<and>
          h = cf_header frame \<and> p = cf_payload frame) \<or>
         (command_id (cf_header frame) = CMD_ENCRYPTED_MESSAGE \<and>
          do_decrypt (pl_botan pl) (cf_payload frame) s = Inr (Some (cipher, c, p)) \<and>
          h = mk_header c 0 (of_nat (length p)) (sess_id s))"
    and "pl_authenticator pl (mk_context h p s conn w) = (Ret False, ctx')"
  shows "process_command pl frame conn (s, w) = (Ret (), (ctx_session ctx', ctx_world ctx'))"
proof -
  have g: "gate (pl_authenticator pl) ep conn (mk_context h p s conn w) = (Ret False, ctx')"
    using assms(1,4) by (simp add: gate_def co_bind_def)
  from assms(3) show ?thesis
  proof (elim disjE conjE)
    assume "command_id (cf_header frame) = c" "\<not> reserved c" "h = cf_header frame" "p = cf_payload frame"
    then show ?thesis
      using g assms(2) by (simp add: process_command_normal normal_rejected)
  next
    assume "command_id (cf_header frame) = CMD_ENCRYPTED_MESSAGE"
      "do_decrypt (pl_botan pl) (cf_payload frame) s = Inr (Some (cipher, c, p))"
      "h = mk_header c 0 (of_nat (length p)) (sess_id s)"
    then show ?thesis
      using g assms(2)
      by (simp add: process_command_encrypted handle_encrypted_message_def routed_rejected)
  qed
qed

text \<open>
  With the default authenticator, on every transport and for every command that
  is not reserved: the handler's outcome is reached only if the session is authenticated
  where the endpoint demands it and the connection's transport is an allowed one;
  otherwise session and world are left exactly as they were.
\<close>

theorem default_gate_closed:
  assumes "pl_authenticator pl = DefaultAuthenticator" "\<not> reserved (command_id (cf_header frame))"
    and "router_get (command_id (cf_header frame)) (pl_router pl) = Some ep"
    and "(requires_auth ep \<and> \<not> authenticated s) \<or> \<not> transport_ok ep conn"
  shows "process_command pl frame conn (s, w) = (Ret (), (s, w))"
proof -
  have "gate (pl_authenticator pl) ep conn
      (mk_context (cf_header frame) (cf_payload frame) s conn w) =
      (Ret False, mk_context (cf_header frame) (cf_payload frame) s conn w)"
    using assms by (auto simp: gate_default)
  then show ?thesis
    using assms(2,3) by (simp add: process_command_normal normal_rejected)
qed

text \<open>
  An admitted command is answered by exactly one frame on the connection it came
  from: the command's own id, the handler's flags and payload, the payload's length and
  the session's id; the handler's changes to the session are kept.
\<close>

lemma admitted_command_reply:
  assumes "\<not> reserved (command_id (cf_header frame))"
    and "router_get (command_id (cf_header frame)) (pl_router pl) = Some ep" "handler ep = Some h"
    and "gate (pl_authenticator pl) ep conn
           (mk_context (cf_header frame) (cf_payload frame) s conn w) = (Ret True, ctx1)"
    and "h ctx1 = (Ret resp, ctx2)" "tx_res (ctx_world ctx2) = r # rs" "0 \<le> r"
  shows "process_command pl frame conn (s, w) =
    (Ret (), (ctx_session ctx2, (ctx_world ctx2)\<lparr>tx_res := rs,
       tx_log := tx_log (ctx_world ctx2) @
         [conn_tx conn (mk_header (command_id (cf_header frame)) (rf_flags resp)
            (of_nat (length (rf_payload resp))) (sess_id (ctx_session ctx2))) (rf_payload resp) r]\<rparr>))"
  using assms by (simp add: process_command_normal normal_accepted invoke_def)

text \<open>
  The encrypted channel is end to end. A command sealed under the session's key
  reaches the handler with its real id and payload, and the reply, sent as one
  encrypted-message frame, opens under the same key to the same command id and the
  handler's payload.
\<close>

lemma encrypted_roundtrip:
  assumes "gcm_ok (pl_botan pl)" "has_aes_key s" "length (aes_key s) = 32" "length iv = NONCE_SIZE"
    and "command_id (cf_header frame) = CMD_ENCRYPTED_MESSAGE"
    and "cf_payload frame = sealed (pl_botan pl) (aes_key s) iv c p"
    and "router_get c (pl_router pl) = Some ep" "handler ep = Some h"
    and "gate (pl_authenticator pl) ep conn
           (mk_context (mk_header c 0 (of_nat (length p)) (sess_id s)) p s conn w) = (Ret True, ctx1)"
    and "h ctx1 = (Ret resp, ctx2)"
    and "getrandom_src (ctx_world ctx2) = RandomBytes iv' # src" "length iv' = NONCE_SIZE"
    and "tx_res (ctx_world ctx2) = r # rs" "0 \<le> r"
  shows "\<exists>out w'. process_command pl frame conn (s, w) = (Ret (), (ctx_session ctx2, w'))
    \<and> tx_log w' = tx_log (ctx_world ctx2) @
        [conn_tx conn (mk_header CMD_ENCRYPTED_MESSAGE (rf_flags resp) (of_nat (length out))
           (sess_id (ctx_session ctx2))) out r]
    \<and> do_decrypt (pl_botan pl) out s = Inr (Some (\<lparr>cipher_key = aes_key s\<rparr>, c, rf_payload resp))"
proof -
  let ?out = "sealed (pl_botan pl) (aes_key s) iv' c (rf_payload resp)"
  have "do_decrypt (pl_botan pl) ?out s = Inr (Some (\<lparr>cipher_key = aes_key s\<rparr>, c, rf_payload resp))"
    using assms by (simp add: do_decrypt_sealed)
  moreover have "invoke ep ctx1 = (Ret resp, ctx2)" using assms by (simp add: invoke_def)
  ultimately show ?thesis
    using assms
    by (intro exI [of _ ?out])
      (simp add: encrypted_opened [of pl s iv] routed_accepted [of pl "\<lparr>cipher_key = aes_key s\<rparr>"])
qed

text \<open>
  An encrypted message that does not open (no key agreed, too short, tag refused, or
  fewer than two plaintext bytes) is dropped without a trace: no handler, no reply, no
  change to the session, and no exception that would end the connection. (With a key and
  enough bytes this needs the cipher to be available: its constructor throws otherwise.)
\<close>

lemma undecryptable_message_ignored:
  assumes "command_id (cf_header frame) = CMD_ENCRYPTED_MESSAGE" "gcm_available (pl_botan pl)"
    and "\<not> has_aes_key s \<or> length (cf_payload frame) < NONCE_SIZE + TAG_SIZE \<or>
      (case gcm_finish_dec (pl_botan pl) (aes_key s) (subspan 0 NONCE_SIZE (cf_payload frame)) []
         (drop (NONCE_SIZE + TAG_SIZE) (cf_payload frame) @ subspan NONCE_SIZE TAG_SIZE (cf_payload frame)) of
         None \<Rightarrow> True
       | Some pt \<Rightarrow> length pt < 2)"
  shows "process_command pl frame conn (s, w) = (Ret (), (s, w))"
proof -
  have "do_decrypt (pl_botan pl) (cf_payload frame) s = Inr None"
    using assms(2,3)
    by (auto simp: do_decrypt_def decrypt_def mk_AesGcm_def aad_updates_def Let_def
        split: option.splits sum.splits)
  then show ?thesis
    using assms(1) by (simp add: process_command_encrypted handle_encrypted_message_def)
qed

text \<open>
  The key exchange agrees. For a client whose public key is in the payload, the
  session ends up holding the shared secret, the reply is one key-exchange frame with the
  server's 32-byte public key, and the client computes the same secret from that reply.
\<close>

lemma key_exchange_agreement:
  assumes "command_id (cf_header frame) = CMD_KEY_EXCHANGE"
    and "x25519_sizes B" "x25519_commutes B" "pl_botan pl = B"
    and "cf_payload frame = x25519_public B client_priv"
    and "privkey_src w = server_priv # ks" "length server_priv = 32"
    and "x25519_agree B server_priv (x25519_public B client_priv) = Some secret"
    and "tx_res w = r # rs" "0 \<le> r"
  shows "process_command pl frame conn (s, w) =
      (Ret (), (set_aes_key secret s, w\<lparr>privkey_src := ks, tx_res := rs,
         tx_log := tx_log w @ [conn_tx conn (mk_header CMD_KEY_EXCHANGE 0 32 (sess_id s))
           (x25519_public B server_priv) r]\<rparr>))
    \<and> length (x25519_public B server_priv) = 32
    \<and> x25519_agree B client_priv (x25519_public B server_priv) = Some secret"
proof -
  have len: "length (x25519_public B a) = 32" for a using assms(2) by (simp add: x25519_sizes_def)
  have sec: "length secret = 32" using assms(2,8) by (auto simp: x25519_sizes_def)
  have "x25519_agree B client_priv (x25519_public B server_priv) = Some secret"
    using assms(3,8) by (simp add: x25519_commutes_def)
  then show ?thesis
    using assms len sec
    by (simp add: process_command_key_exchange handle_key_exchange_def co_bind_def co_seq_def
        on_world_def generate_private_def public_key_def shared_secret_def Let_def send_frame_ok)
qed

text \<open>
  A key-exchange frame whose payload is not exactly 32 bytes, and a command id with no
  registered handler, leave session and world untouched.
\<close>

theorem malformed_or_unknown_ignored:
  assumes "command_id (cf_header frame) = CMD_KEY_EXCHANGE \<and> length (cf_payload frame) \<noteq> 32 \<or>
    \<not> reserved (command_id (cf_header frame)) \<and>
      router_get (command_id (cf_header frame)) (pl_router pl) = None"
  shows "process_command pl frame conn (s, w) = (Ret (), (s, w))"
  using assms
  by (auto simp: process_command_key_exchange handle_key_exchange_def process_command_normal
      handle_normal_command_def)

end
