(* ===== verification/Server_State.thy ===== *)
theory Server_State
  imports Pipeline_Properties "HOL-Library.AList"
begin

text \<open>
  \<^verbatim>\<open>Server.hpp\<close>, \<^verbatim>\<open>detail/Engine.hpp\<close>, \<^verbatim>\<open>ServerConfiguration.cpp\<close> and
  \<^verbatim>\<open>ServerRouting.cpp\<close>: the members of the server and of its engine, and the
  configuration methods.
\<close>

section \<open>State\<close>

text \<open>
  \<^verbatim>\<open>DiscoveryResponder\<close> may rewrite the response and may throw; \<^verbatim>\<open>DisconnectHandler\<close>
  gets a session id and may throw.
\<close>

type_synonym DiscoveryResponder = "sockaddr \<Rightarrow> DiscoveryPacket \<Rightarrow> exn + DiscoveryPacket"
type_synonym DisconnectHandler = "u64 \<Rightarrow> exn + unit"

record DiscoveryConfig =
  broadcast_port :: u16
  config_magic :: u32
  respond_to_clients :: bool
  active_announce_if_idle :: int
  advertised_tcp_port :: u16
  advertised_udp_port :: u16
  on_discovery_request :: "DiscoveryResponder option"

definition default_discovery :: DiscoveryConfig where
  "default_discovery = \<lparr>broadcast_port = 9999, config_magic = 0x53525644, respond_to_clients = True,
     active_announce_if_idle = 0, advertised_tcp_port = 0, advertised_udp_port = 0,
     on_discovery_request = None\<rparr>"

text \<open>
  The members of \<^verbatim>\<open>class Server\<close>. The session store is an object: its methods and its
  state. \<open>botan_lib\<close> is the library the crypto wrappers call.
\<close>

record 'st Server =
  router :: Router
  session_store :: "'st ISessionStore option"
  store_state :: 'st
  authenticator :: "IAuthenticator option"
  tcp_ports :: "(u16 \<times> ProtocolMode) list"
  udp_ports :: "u16 list"
  unix_paths :: "(string \<times> ProtocolMode) list"
  discovery_config :: DiscoveryConfig
  discovery_enabled :: bool
  disconnect_handler :: "DisconnectHandler option"
  max_clients :: u64
  discovery_fd :: fd
  text_command_names :: "string \<rightharpoonup> u16"
  thread_pool :: "nat option"
  botan_lib :: botan

text \<open>
  One client coroutine: \<^verbatim>\<open>handle_client\<close> or \<^verbatim>\<open>text_handle_client\<close> (by its mode), its
  local \<^verbatim>\<open>current_sid\<close>, and the frame and session copy while a command is in flight;
  \<open>None\<close> means that it is at the top of its loop, suspended in the read. \<open>c_leaving\<close>
  means that it is behind the loop and waits for the disconnect callback on the thread pool.
\<close>

record client =
  c_mode :: ProtocolMode
  current_sid :: u64
  c_flight :: "(ClientFrame \<times> Session) option"
  c_leaving :: bool

text \<open>
  \<^verbatim>\<open>Server::UringEngine\<close>, its live client coroutines and the kernel's side:
  \<^verbatim>\<open>sessions_\<close> as an association list (its order stands for the unspecified iteration
  order of the hash map), the descriptors the process holds open, the world, and the calls
  of the disconnect handler that returned (a call that throws is not entered).
\<close>

record 'st system = "'st Server" +
  running :: bool
  sessions :: "(u64 \<times> fd) list"
  active_connections :: u64
  conns :: "fd \<rightharpoonup> client"
  open_fds :: "fd set"
  kernel :: world
  disconnects :: "u64 list"

definition NO_SID :: u64 where
  "NO_SID = - 1"

section \<open>Configuration\<close>

definition enable_tcp :: "u16 \<Rightarrow> ProtocolMode \<Rightarrow> ('st, 'z) Server_scheme \<Rightarrow> ('st, 'z) Server_scheme" where
  "enable_tcp port mode s = s\<lparr>tcp_ports := tcp_ports s @ [(port, mode)]\<rparr>"

definition enable_udp :: "u16 \<Rightarrow> ('st, 'z) Server_scheme \<Rightarrow> ('st, 'z) Server_scheme" where
  "enable_udp port s = s\<lparr>udp_ports := udp_ports s @ [port]\<rparr>"

definition enable_unix_socket ::
    "string \<Rightarrow> ProtocolMode \<Rightarrow> ('st, 'z) Server_scheme \<Rightarrow> ('st, 'z) Server_scheme" where
  "enable_unix_socket path mode s = s\<lparr>unix_paths := unix_paths s @ [(path, mode)]\<rparr>"

definition enable_discovery ::
    "DiscoveryConfig \<Rightarrow> ('st, 'z) Server_scheme \<Rightarrow> ('st, 'z) Server_scheme" where
  "enable_discovery config s = s\<lparr>discovery_config := config, discovery_enabled := True\<rparr>"

definition disable_discovery :: "('st, 'z) Server_scheme \<Rightarrow> ('st, 'z) Server_scheme" where
  "disable_discovery s = s\<lparr>discovery_enabled := False\<rparr>"

definition reenable_discovery :: "('st, 'z) Server_scheme \<Rightarrow> ('st, 'z) Server_scheme" where
  "reenable_discovery s = s\<lparr>discovery_enabled := True\<rparr>"

definition set_session_store ::
    "'st ISessionStore \<Rightarrow> 'st \<Rightarrow> ('st, 'z) Server_scheme \<Rightarrow> ('st, 'z) Server_scheme" where
  "set_session_store store st0 s = s\<lparr>session_store := Some store, store_state := st0\<rparr>"

definition set_authenticator :: "IAuthenticator \<Rightarrow> ('st, 'z) Server_scheme \<Rightarrow> ('st, 'z) Server_scheme" where
  "set_authenticator a s = s\<lparr>authenticator := Some a\<rparr>"

definition set_max_clients :: "u64 \<Rightarrow> ('st, 'z) Server_scheme \<Rightarrow> ('st, 'z) Server_scheme" where
  "set_max_clients m s = s\<lparr>max_clients := m\<rparr>"

definition on_disconnect :: "DisconnectHandler \<Rightarrow> ('st, 'z) Server_scheme \<Rightarrow> ('st, 'z) Server_scheme" where
  "on_disconnect h s = s\<lparr>disconnect_handler := Some h\<rparr>"

definition enable_thread_pool :: "nat \<Rightarrow> ('st, 'z) Server_scheme \<Rightarrow> ('st, 'z) Server_scheme" where
  "enable_thread_pool n s = s\<lparr>thread_pool := Some n\<rparr>"

definition add_command :: "u16 \<Rightarrow> Handler \<Rightarrow> ('st, 'z) Server_scheme \<Rightarrow> ('st, 'z) Server_scheme" where
  "add_command c h s = s\<lparr>router := router_add c h (router s)\<rparr>"

definition add_command_name :: "string \<Rightarrow> u16 \<Rightarrow> ('st, 'z) Server_scheme \<Rightarrow> ('st, 'z) Server_scheme" where
  "add_command_name name c s = s\<lparr>text_command_names := (text_command_names s)(name \<mapsto> c)\<rparr>"

text \<open>\<^verbatim>\<open>init_defaults\<close>, for a server whose store would be the in-memory one.\<close>

definition init_defaults :: "(session_map, 'z) Server_scheme \<Rightarrow> (session_map, 'z) Server_scheme" where
  "init_defaults s =
     (let s1 = (if session_store s = None
                then s\<lparr>session_store := Some InMemorySessionStore, store_state := Map.empty\<rparr> else s)
      in if authenticator s1 = None then s1\<lparr>authenticator := Some DefaultAuthenticator\<rparr> else s1)"

text \<open>
  The pipeline a request runs in. Dereferencing a null authenticator is undefined
  behaviour; it is modelled as a coroutine that never returns, and does not occur once
  \<open>init_defaults\<close> has run.
\<close>

definition pipeline_of :: "('st, 'z) Server_scheme \<Rightarrow> pipeline" where
  "pipeline_of s = \<lparr>pl_router = router s,
     pl_authenticator = (case authenticator s of Some a \<Rightarrow> a | None \<Rightarrow> (\<lambda>ctx. (Pending, ctx))),
     pl_botan = botan_lib s\<rparr>"

section \<open>register_session and unregister_session\<close>

definition register_session :: "u64 \<Rightarrow> fd \<Rightarrow> ('st, 'z) system_scheme \<Rightarrow> ('st, 'z) system_scheme" where
  "register_session sid f s = s\<lparr>sessions := AList.update sid f (sessions s)\<rparr>"

definition unregister_session :: "u64 \<Rightarrow> ('st, 'z) system_scheme \<Rightarrow> ('st, 'z) system_scheme" where
  "unregister_session sid s = s\<lparr>sessions := AList.delete sid (sessions s)\<rparr>"

end
