(* ===== verification/Client_Engine.thy ===== *)
theory Client_Engine
  imports Server_State
begin

text \<open>
  \<^verbatim>\<open>ClientHandlers.cpp\<close>: the stream clients. The two client coroutines differ in how
  they read and reply and in the disconnect callback. A turn of their loop is cut at the
  point where the coroutine can be suspended with the session in its hands: up to the
  start of the command (\<open>client_receive\<close>), and from there to the next read
  (\<open>client_finish\<close>). \<open>Pending\<close> leaves the state as it was: the coroutine is still
  suspended and will be resumed when the kernel has more for it.
\<close>

section \<open>Leaving\<close>

text \<open>
  An exception that no handler catches destroys the coroutine frame
  (\<^verbatim>\<open>DetachedTask::promise_type::unhandled_exception\<close> does nothing): nothing after it
  runs.
\<close>

definition client_die :: "fd \<Rightarrow> 'st system \<Rightarrow> 'st system" where
  "client_die f s = s\<lparr>conns := (conns s)(f := None)\<rparr>"

text \<open>\<^verbatim>\<open>close(client_fd)\<close> and everything behind it.\<close>

definition client_close :: "fd \<Rightarrow> 'st system \<Rightarrow> 'st system" where
  "client_close f s =
     (let s1 = s\<lparr>conns := (conns s)(f := None), open_fds := open_fds s - {f},
                 active_connections := active_connections s - 1\<rparr> in
      if 0 < max_clients s1 \<and> active_connections s1 < max_clients s1 \<and>
         \<not> respond_to_clients (discovery_config s1)
      then reenable_discovery
             (s1\<lparr>discovery_config := (discovery_config s1)\<lparr>respond_to_clients := True\<rparr>\<rparr>)
      else s1)"

text \<open>\<^verbatim>\<open>Server::thread_pool\<close> throws when no pool was enabled.\<close>

definition thread_pool_ref :: "('st, 'z) Server_scheme \<Rightarrow> exn + nat" where
  "thread_pool_ref s =
     (case thread_pool s of
        None \<Rightarrow> Inl (RuntimeError ''ThreadPool not enabled. Call enable_thread_pool() before init().'')
      | Some n \<Rightarrow> Inr n)"

text \<open>
  What follows the loop, for a client whose \<^verbatim>\<open>current_sid\<close> is \<open>sid\<close>: up to the end, or to
  the wait for the disconnect callback.
\<close>

definition client_exit :: "fd \<Rightarrow> client \<Rightarrow> 'st system \<Rightarrow> 'st system" where
  "client_exit f c s =
     (let sid = current_sid c;
          s1 = (if sid \<noteq> NO_SID then unregister_session sid s else s) in
      if c_mode c = BINARY \<and> disconnect_handler s1 \<noteq> None \<and> sid \<noteq> NO_SID then
        (case thread_pool_ref s1 of
           Inl _ \<Rightarrow> client_die f s1
         | Inr _ \<Rightarrow> s1\<lparr>conns := (conns s1)(f \<mapsto> c\<lparr>c_flight := None, c_leaving := True\<rparr>)\<rparr>)
      else client_close f s1)"

text \<open>
  The coroutine comes back from the pool. An exception of the callback, or the one of an
  empty \<^verbatim>\<open>std::function\<close>, is rethrown by the wait.
\<close>

definition client_leave :: "fd \<Rightarrow> client \<Rightarrow> 'st system \<Rightarrow> 'st system" where
  "client_leave f c s =
     (case disconnect_handler s of
        None \<Rightarrow> client_die f s
      | Some h \<Rightarrow>
          (case h (current_sid c) of
             Inl _ \<Rightarrow> client_die f s
           | Inr _ \<Rightarrow> client_close f (s\<lparr>disconnects := disconnects s @ [current_sid c]\<rparr>)))"

text \<open>An exception inside the \<^verbatim>\<open>try\<close> block: caught if it is a \<^verbatim>\<open>std::exception\<close>.\<close>

definition client_catch :: "exn \<Rightarrow> fd \<Rightarrow> client \<Rightarrow> 'st system \<Rightarrow> 'st system" where
  "client_catch e f c s = (if is_std_exception e then client_exit f c s else client_die f s)"

section \<open>One turn of the loop\<close>

definition client_connection :: "fd \<Rightarrow> client \<Rightarrow> IConnection" where
  "client_connection f c =
     (case c_mode c of BINARY \<Rightarrow> UringTcpConnection f | TEXT \<Rightarrow> TextTcpConnection f)"

definition read_request :: "('st, 'z) Server_scheme \<Rightarrow> fd \<Rightarrow> client \<Rightarrow> (world, ClientFrame) co" where
  "read_request s f c =
     (case c_mode c of BINARY \<Rightarrow> read_frame f | TEXT \<Rightarrow> read_text_frame (text_command_names s) f)"

text \<open>The registration of the frame's session id for the connection.\<close>

definition switch_session :: "fd \<Rightarrow> client \<Rightarrow> u64 \<Rightarrow> 'st system \<Rightarrow> 'st system" where
  "switch_session f c sid s =
     (if sid \<noteq> current_sid c then
        register_session sid f
          (if current_sid c \<noteq> 0 then unregister_session (current_sid c) s else s)
      else s)"

definition client_receive :: "fd \<Rightarrow> client \<Rightarrow> 'st system \<Rightarrow> 'st system" where
  "client_receive f c s =
     (case read_request s f c (kernel s) of
        (Pending, _) \<Rightarrow> s
      | (Throw e, w) \<Rightarrow> client_catch e f c (s\<lparr>kernel := w\<rparr>)
      | (Ret frame, w) \<Rightarrow>
          (case session_store s of
             None \<Rightarrow> client_catch (RuntimeError ''SessionStore not initialized'') f c (s\<lparr>kernel := w\<rparr>)
           | Some store \<Rightarrow>
               let sid = session_id (cf_header frame) in
               (case get_or_create store sid (store_state s) of
                  (Pending, _) \<Rightarrow> s
                | (Throw e, st) \<Rightarrow> client_catch e f c (s\<lparr>kernel := w, store_state := st\<rparr>)
                | (Ret session, st) \<Rightarrow>
                    (let s1 = switch_session f c sid (s\<lparr>kernel := w, store_state := st\<rparr>) in
                     s1\<lparr>conns := (conns s1)(f \<mapsto> c\<lparr>current_sid := sid, c_flight := Some (frame, session)\<rparr>)\<rparr>))))"

definition client_finish :: "fd \<Rightarrow> client \<Rightarrow> ClientFrame \<Rightarrow> Session \<Rightarrow> 'st system \<Rightarrow> 'st system" where
  "client_finish f c frame session s =
     (case process_command (pipeline_of s) frame (client_connection f c) (session, kernel s) of
        (Pending, _) \<Rightarrow> s
      | (Throw e, (_, w)) \<Rightarrow> client_catch e f c (s\<lparr>kernel := w\<rparr>)
      | (Ret _, (session', w)) \<Rightarrow>
          (case session_store s of
             None \<Rightarrow> s
           | Some store \<Rightarrow>
               (case save store session' (store_state s) of
                  (Pending, _) \<Rightarrow> s
                | (Throw e, st) \<Rightarrow> client_catch e f c (s\<lparr>kernel := w, store_state := st\<rparr>)
                | (Ret _, st) \<Rightarrow>
                    (let s1 = s\<lparr>kernel := w, store_state := st\<rparr>; c1 = c\<lparr>c_flight := None\<rparr> in
                     if running s then s1\<lparr>conns := (conns s1)(f \<mapsto> c1)\<rparr> else client_exit f c1 s1))))"

section \<open>Accepting\<close>

definition client_start :: "ProtocolMode \<Rightarrow> fd \<Rightarrow> 'st system \<Rightarrow> 'st system" where
  "client_start mode f s =
     s\<lparr>active_connections := active_connections s + 1,
       conns := (conns s)(f \<mapsto> \<lparr>c_mode = mode, current_sid = NO_SID, c_flight = None, c_leaving = False\<rparr>)\<rparr>"

text \<open>
  One turn of \<^verbatim>\<open>start_accept_loop\<close>; \<open>cqe_res\<close> is the completion of the accept. At the
  limit, the new connection is closed and discovery goes quiet.
\<close>

definition accept_turn :: "ProtocolMode \<Rightarrow> int \<Rightarrow> 'st system \<Rightarrow> 'st system" where
  "accept_turn mode cqe_res s =
     (case await_resume cqe_res of
        Inl _ \<Rightarrow> s
      | Inr f \<Rightarrow>
          (let s1 = s\<lparr>open_fds := insert f (open_fds s)\<rparr> in
           if 0 < max_clients s1 \<and> max_clients s1 \<le> active_connections s1 then
             (disable_discovery
               (s1\<lparr>discovery_config := (discovery_config s1)\<lparr>respond_to_clients := False\<rparr>\<rparr>))
               \<lparr>open_fds := open_fds s1 - {f}\<rparr>
           else client_start mode f s1))"

end
