(* ===== verification/Client_Invariants.thy ===== *)
theory Client_Invariants
  imports Client_Engine
begin

text \<open>
  The interleavings of the event loop and what they keep: how many connections are
  counted, which descriptors are open, and which registrations \<^verbatim>\<open>sessions_\<close> may hold.
\<close>

section \<open>Steps\<close>

text \<open>
  One step is one resumption of a coroutine, or a change that does not touch the clients:
  the kernel making progress, and the coroutines that only use the store and the kernel
  (datagrams, timers, broadcasts).
\<close>

inductive engine_step :: "'st system \<Rightarrow> 'st system \<Rightarrow> bool" where
  accept: "\<lbrakk>running s; 0 \<le> f; f < 2 ^ 31; f \<notin> open_fds s\<rbrakk> \<Longrightarrow>
    engine_step s (accept_turn mode f s)"
| receive: "\<lbrakk>running s; conns s f = Some c; c_flight c = None; \<not> c_leaving c\<rbrakk> \<Longrightarrow>
    engine_step s (client_receive f c s)"
| finish: "\<lbrakk>conns s f = Some c; c_flight c = Some (frame, session)\<rbrakk> \<Longrightarrow>
    engine_step s (client_finish f c frame session s)"
| leave: "\<lbrakk>running s; conns s f = Some c; c_leaving c\<rbrakk> \<Longrightarrow> engine_step s (client_leave f c s)"
| background: "engine_step s (s\<lparr>kernel := w, store_state := st\<rparr>)"
| stop: "engine_step s (s\<lparr>running := False\<rparr>)"

inductive_cases engine_stepE: "engine_step s t"

definition initial :: "'st system \<Rightarrow> bool" where
  "initial s \<longleftrightarrow> sessions s = [] \<and> active_connections s = 0 \<and> conns s = Map.empty \<and>
     open_fds s = {} \<and> disconnects s = []"

inductive reachable :: "'st system \<Rightarrow> bool" where
  start: "initial s \<Longrightarrow> reachable s"
| step: "reachable s \<Longrightarrow> engine_step s t \<Longrightarrow> reachable t"

text \<open>An invariant of the steps is an invariant of the reachable states.\<close>

locale step_invariant =
  fixes inv :: "'st system \<Rightarrow> bool"
  assumes inv_initial: "initial s \<Longrightarrow> inv s"
    and inv_accept: "\<lbrakk>inv s; 0 \<le> f; f < 2 ^ 31; f \<notin> open_fds s\<rbrakk> \<Longrightarrow> inv (accept_turn mode f s)"
    and inv_die: "\<lbrakk>inv s; conns s f = Some c\<rbrakk> \<Longrightarrow> inv (client_die f s)"
    and inv_exit: "\<lbrakk>inv s; conns s f = Some c; current_sid c = current_sid c'\<rbrakk> \<Longrightarrow> inv (client_exit f c' s)"
    and inv_leave: "\<lbrakk>inv s; conns s f = Some c; c_leaving c\<rbrakk> \<Longrightarrow> inv (client_leave f c s)"
    and inv_switch: "\<lbrakk>inv s; conns s f = Some c; \<not> c_leaving c\<rbrakk> \<Longrightarrow>
      inv ((switch_session f c sid s)\<lparr>conns := (conns s)(f \<mapsto> c\<lparr>current_sid := sid, c_flight := fl\<rparr>)\<rparr>)"
    and inv_loop: "\<lbrakk>inv s; conns s f = Some c\<rbrakk> \<Longrightarrow> inv (s\<lparr>conns := (conns s)(f \<mapsto> c\<lparr>c_flight := None\<rparr>)\<rparr>)"
    and inv_background: "inv s \<Longrightarrow> inv (s\<lparr>kernel := w, store_state := st\<rparr>)"
    and inv_stop: "inv s \<Longrightarrow> inv (s\<lparr>running := False\<rparr>)"

lemma switch_session_frame [simp]:
  "conns (switch_session f c sid s) = conns s"
  "open_fds (switch_session f c sid s) = open_fds s"
  "active_connections (switch_session f c sid s) = active_connections s"
  "max_clients (switch_session f c sid s) = max_clients s"
  "discovery_config (switch_session f c sid s) = discovery_config s"
  "disconnect_handler (switch_session f c sid s) = disconnect_handler s"
  "thread_pool (switch_session f c sid s) = thread_pool s"
  by (simp_all add: switch_session_def register_session_def unregister_session_def)

context step_invariant
begin

lemma inv_kernel: "inv s \<Longrightarrow> inv (s\<lparr>kernel := w\<rparr>)"
  using inv_background [where st = "store_state s" and w = w and s = s] by simp

lemma inv_catch: "\<lbrakk>inv s; conns s f = Some c\<rbrakk> \<Longrightarrow> inv (client_catch e f c s)"
  by (auto simp: client_catch_def intro: inv_die inv_exit)

lemma inv_receive:
  assumes "inv s" "conns s f = Some c" "\<not> c_leaving c"
  shows "inv (client_receive f c s)"
proof -
  note [split] = prod.split outcome.split option.split
  have k: "inv (client_catch e f c (s\<lparr>kernel := w\<rparr>))" for e w
    using assms by (simp add: inv_catch inv_kernel)
  have ks: "inv (client_catch e f c (s\<lparr>kernel := w, store_state := st\<rparr>))" for e w st
    using assms by (simp add: inv_catch inv_background)
  have sw: "inv ((switch_session f c sid (s\<lparr>kernel := w, store_state := st\<rparr>))
      \<lparr>conns := (conns s)(f \<mapsto> c\<lparr>current_sid := sid, c_flight := fl\<rparr>)\<rparr>)" for w st sid fl
    using inv_switch [OF inv_background [OF assms(1)], where f = f and c = c] assms(2,3) by simp
  show ?thesis
    using assms(1) k ks sw by (simp add: client_receive_def Let_def)
qed

lemma inv_finish:
  assumes "inv s" "conns s f = Some c"
  shows "inv (client_finish f c frame session s)"
proof -
  note [split] = prod.split outcome.split option.split
  have k: "inv (client_catch e f c (s\<lparr>kernel := w\<rparr>))" for e w
    using assms by (simp add: inv_catch inv_kernel)
  have ks: "inv (client_catch e f c (s\<lparr>kernel := w, store_state := st\<rparr>))" for e w st
    using assms by (simp add: inv_catch inv_background)
  have ex: "inv (client_exit f (c\<lparr>c_flight := None\<rparr>) (s\<lparr>kernel := w, store_state := st\<rparr>))" for w st
    using inv_exit [OF inv_background [OF assms(1)], where f = f and c = c] assms(2) by simp
  have lo: "inv (s\<lparr>kernel := w, store_state := st, conns := (conns s)(f \<mapsto> c\<lparr>c_flight := None\<rparr>)\<rparr>)" for w st
    using inv_loop [OF inv_background [OF assms(1)], where f = f and c = c] assms(2) by simp
  show ?thesis
    using assms(1) k ks ex lo by (simp add: client_finish_def Let_def)
qed

lemma inv_step: "engine_step s t \<Longrightarrow> inv s \<Longrightarrow> inv t"
  by (induction rule: engine_step.induct)
    (simp_all add: inv_accept inv_receive inv_finish inv_leave inv_background inv_stop)

lemma inv_reachable: "reachable s \<Longrightarrow> inv s"
  by (induction rule: reachable.induct) (auto intro: inv_initial inv_step)

end

section \<open>Counting connections\<close>

definition counted :: "'st system \<Rightarrow> bool" where
  "counted s \<longleftrightarrow> finite (open_fds s) \<and> open_fds s \<subseteq> {0..<2 ^ 31} \<and> dom (conns s) \<subseteq> open_fds s \<and>
     active_connections s = of_nat (card (open_fds s)) \<and>
     (0 < max_clients s \<longrightarrow> active_connections s \<le> max_clients s)"

lemma card_fds_bound:
  assumes "A \<subseteq> {0..<(2::int) ^ 31}" shows "card A \<le> 2 ^ 31"
  using card_mono [OF _ assms] by simp

lemma unat_active:
  assumes "counted s" shows "unat (active_connections s) = card (open_fds s)"
  using assms card_fds_bound [of "open_fds s"] by (simp add: counted_def unat_of_nat)

lemma word_pred_le: "0 < unat (w :: u64) \<Longrightarrow> w - 1 \<le> w"
  by (simp add: word_le_nat_alt unat_sub_if_size)

lemma counted_close:
  assumes "counted s" "conns s f = Some c"
  shows "counted (client_close f s)"
proof -
  have f: "f \<in> open_fds s" and fin: "finite (open_fds s)"
    using assms by (auto simp: counted_def)
  have pos: "0 < card (open_fds s)" using f fin by (auto simp: card_gt_0_iff)
  have act: "active_connections s - 1 = of_nat (card (open_fds s - {f}))"
    using assms(1) f fin pos by (simp add: counted_def of_nat_diff)
  have le: "active_connections s - 1 \<le> active_connections s"
    using unat_active [OF assms(1)] pos by (intro word_pred_le) simp
  show ?thesis
    using assms(1) act le f
    by (auto simp: client_close_def Let_def counted_def reenable_discovery_def)
qed

lemma counted_fields:
  "\<lbrakk>counted s; open_fds t = open_fds s; conns t = conns s;
    active_connections t = active_connections s; max_clients t = max_clients s\<rbrakk> \<Longrightarrow> counted t"
  by (auto simp: counted_def)

lemma counted_die: "counted s \<Longrightarrow> counted (client_die f s)"
  by (auto simp: counted_def client_die_def)

lemma counted_exit:
  assumes "counted s" "conns s f = Some c"
  shows "counted (client_exit f c' s)"
proof -
  define s1 where "s1 = (if current_sid c' \<noteq> NO_SID then unregister_session (current_sid c') s else s)"
  have s1: "counted s1" "conns s1 f = Some c"
    using assms by (auto simp: s1_def unregister_session_def counted_def)
  then have "counted (s1\<lparr>conns := (conns s1)(f \<mapsto> x)\<rparr>)" for x by (auto simp: counted_def)
  with s1 show ?thesis
    unfolding client_exit_def Let_def s1_def [symmetric]
    by (auto simp: counted_close counted_die split: sum.split)
qed

lemma counted_leave:
  assumes "counted s" "conns s f = Some c"
  shows "counted (client_leave f c s)"
proof -
  have "counted (s\<lparr>disconnects := d\<rparr>)" for d using assms(1) by (rule counted_fields) simp_all
  with assms show ?thesis
    by (auto simp: client_leave_def counted_die intro!: counted_close split: option.split sum.split)
qed

lemma counted_accept:
  assumes "counted s" "0 \<le> f" "f < 2 ^ 31" "f \<notin> open_fds s"
  shows "counted (accept_turn mode f s)"
proof (cases "0 < max_clients s \<and> max_clients s \<le> active_connections s")
  case True
  with assms show ?thesis
    by (auto simp: accept_turn_def Let_def counted_def disable_discovery_def)
next
  case False
  then have "0 < max_clients s \<longrightarrow> active_connections s + 1 \<le> max_clients s"
    by (auto intro: inc_le)
  with False assms show ?thesis
    by (auto simp: accept_turn_def Let_def counted_def client_start_def)
qed

interpretation count: step_invariant "counted :: 'st system \<Rightarrow> bool"
proof unfold_locales
  fix s :: "'st system"
  show "initial s \<Longrightarrow> counted s" by (simp add: initial_def counted_def)
next
  fix s :: "'st system" and f c sid fl
  assume "counted s" "conns s f = Some c"
  then show "counted ((switch_session f c sid s)
      \<lparr>conns := (conns s)(f \<mapsto> c\<lparr>current_sid := sid, c_flight := fl\<rparr>)\<rparr>)"
    by (auto simp: counted_def)
next
  fix s :: "'st system" and f c
  assume "counted s" "conns s f = Some c"
  then show "counted (s\<lparr>conns := (conns s)(f \<mapsto> c\<lparr>c_flight := None\<rparr>)\<rparr>)"
    by (auto simp: counted_def)
next
  fix s :: "'st system" and w st
  show "counted s \<Longrightarrow> counted (s\<lparr>kernel := w, store_state := st\<rparr>)"
    by (rule counted_fields) auto
next
  fix s :: "'st system"
  show "counted s \<Longrightarrow> counted (s\<lparr>running := False\<rparr>)"
    by (rule counted_fields) auto
qed (simp_all add: counted_accept counted_die counted_exit counted_leave)

section \<open>Registrations\<close>

text \<open>
  The engine treats two session ids specially, by intent (the sentinel for "none yet") or
  not (id 0, which is never unregistered on a switch). For every other id a registration
  points to an open descriptor, and if a client coroutine lives on it, to one whose current
  session is that id and which is not on its way out.
\<close>

definition special_sid :: "u64 \<Rightarrow> bool" where
  "special_sid sid \<longleftrightarrow> sid = 0 \<or> sid = NO_SID"

definition registered_ok :: "'st system \<Rightarrow> bool" where
  "registered_ok s \<longleftrightarrow> distinct (map fst (sessions s)) \<and> dom (conns s) \<subseteq> open_fds s \<and>
     (\<forall>sid f. map_of (sessions s) sid = Some f \<longrightarrow> \<not> special_sid sid \<longrightarrow>
        f \<in> open_fds s \<and> (\<forall>c. conns s f = Some c \<longrightarrow> current_sid c = sid \<and> \<not> c_leaving c))"

lemma registered_okD:
  assumes "registered_ok s" "map_of (sessions s) sid = Some f" "\<not> special_sid sid"
  shows "f \<in> open_fds s" "conns s f = Some c \<Longrightarrow> current_sid c = sid"
    "conns s f = Some c \<Longrightarrow> \<not> c_leaving c"
  using assms unfolding registered_ok_def by blast+

lemma registered_fields:
  "\<lbrakk>registered_ok s; open_fds t = open_fds s; conns t = conns s; sessions t = sessions s\<rbrakk>
     \<Longrightarrow> registered_ok t"
  by (simp add: registered_ok_def)

lemma registered_unregister: "registered_ok s \<Longrightarrow> registered_ok (unregister_session sid s)"
  by (simp add: registered_ok_def unregister_session_def AList.delete_conv' distinct_delete)

lemma unregister_frame [simp]:
  "conns (unregister_session sid s) = conns s" "open_fds (unregister_session sid s) = open_fds s"
  "sessions (unregister_session sid s) = AList.delete sid (sessions s)"
  "disconnect_handler (unregister_session sid s) = disconnect_handler s"
  "max_clients (unregister_session sid s) = max_clients s"
  by (simp_all add: unregister_session_def)

lemma client_exit_no_handler:
  assumes "disconnect_handler s = None"
  shows "client_exit f c s =
    client_close f (if current_sid c \<noteq> NO_SID then unregister_session (current_sid c) s else s)"
  using assms by (simp add: client_exit_def Let_def)

lemma client_close_fields:
  "conns (client_close f s) = (conns s)(f := None)" "open_fds (client_close f s) = open_fds s - {f}"
  "sessions (client_close f s) = sessions s"
  by (simp_all add: client_close_def Let_def reenable_discovery_def)

text \<open>Closing is safe once no ordinary id refers to the descriptor.\<close>

lemma registered_close:
  assumes "registered_ok s"
    and "\<And>sid. map_of (sessions s) sid = Some f \<Longrightarrow> special_sid sid"
  shows "registered_ok (client_close f s)"
  unfolding registered_ok_def client_close_fields
proof (intro conjI allI impI)
  show "distinct (map fst (sessions s))" using assms(1) by (simp add: registered_ok_def)
  show "dom ((conns s)(f := None)) \<subseteq> open_fds s - {f}"
    using assms(1) by (auto simp: registered_ok_def)
  fix sid g
  assume m: "map_of (sessions s) sid = Some g" and ns: "\<not> special_sid sid"
  then have "g \<noteq> f" using assms(2) by blast
  with registered_okD(1) [OF assms(1) m ns] show "g \<in> open_fds s - {f}" by simp
  fix c assume "((conns s)(f := None)) g = Some c"
  then show "current_sid c = sid" "\<not> c_leaving c"
    using registered_okD(2,3) [OF assms(1) m ns] by (simp_all split: if_splits)
qed

lemma registered_exit:
  assumes "registered_ok s" "conns s f = Some c" "current_sid c = current_sid c'"
  shows "registered_ok (client_exit f c' s)"
proof -
  define s1 where "s1 = (if current_sid c' \<noteq> NO_SID then unregister_session (current_sid c') s else s)"
  have ok: "registered_ok s1" using assms(1) by (simp add: registered_unregister s1_def)
  have gone: "special_sid sid" if "map_of (sessions s1) sid = Some f" for sid
    using that registered_okD(2) [OF assms(1) _ _ assms(2), of sid] assms(3)
    by (auto simp: s1_def special_sid_def AList.delete_conv' split: if_splits)
  have die: "registered_ok (client_die f s1)"
    using ok by (auto simp: registered_ok_def client_die_def)
  have cl: "registered_ok (client_close f s1)" by (rule registered_close [OF ok gone])
  have "f \<in> open_fds s1" using assms(1,2) by (auto simp: registered_ok_def s1_def)
  then have wait: "registered_ok (s1\<lparr>conns := (conns s1)(f \<mapsto> x)\<rparr>)" for x
    using ok gone by (auto simp: registered_ok_def)
  show ?thesis
    unfolding client_exit_def Let_def s1_def [symmetric] using die cl wait by (simp split: sum.split)
qed

lemma registered_leave:
  assumes "registered_ok s" "conns s f = Some c" "c_leaving c"
  shows "registered_ok (client_leave f c s)"
proof -
  have gone: "special_sid sid" if "map_of (sessions s) sid = Some f" for sid
    using that registered_okD(3) [OF assms(1) _ _ assms(2)] assms(3) by blast
  have "registered_ok (s\<lparr>disconnects := d\<rparr>)" for d using assms(1) by (rule registered_fields) simp_all
  then have "registered_ok (client_close f (s\<lparr>disconnects := d\<rparr>))" for d
    by (rule registered_close) (simp add: gone)
  moreover have "registered_ok (client_die f s)"
    using assms(1) by (auto simp: registered_ok_def client_die_def)
  ultimately show ?thesis by (simp add: client_leave_def split: option.split sum.split)
qed

lemma registered_switch:
  assumes "registered_ok s" "conns s f = Some c" "\<not> c_leaving c"
  shows "registered_ok ((switch_session f c sid s)
    \<lparr>conns := (conns s)(f \<mapsto> c\<lparr>current_sid := sid, c_flight := fl\<rparr>)\<rparr>)" (is "registered_ok ?t")
proof -
  have f: "f \<in> open_fds s" using assms by (auto simp: registered_ok_def)
  have dist: "distinct (map fst (sessions ?t))"
    using assms(1)
    by (auto simp: registered_ok_def switch_session_def register_session_def
        intro!: distinct_update distinct_delete)
  have entry: "k = sid \<and> g = f \<or> map_of (sessions s) k = Some g \<and> (g = f \<longrightarrow> k = sid \<or> special_sid k)"
    if m: "map_of (sessions ?t) k = Some g" for k g
  proof (cases "sid = current_sid c")
    case True
    with m have "map_of (sessions s) k = Some g" by (simp add: switch_session_def)
    then show ?thesis using True registered_okD(2) [OF assms(1) _ _ assms(2)] by blast
  next
    case False
    with m have "k = sid \<and> g = f \<or> map_of (sessions s) k = Some g \<and> (current_sid c \<noteq> 0 \<longrightarrow> k \<noteq> current_sid c)"
      by (auto simp: switch_session_def register_session_def AList.update_conv' AList.delete_conv'
          split: if_splits)
    then show ?thesis
      using registered_okD(2) [OF assms(1) _ _ assms(2), of k] by (auto simp: special_sid_def)
  qed
  show ?thesis
    unfolding registered_ok_def
  proof (intro conjI allI impI)
    show "dom (conns ?t) \<subseteq> open_fds ?t" using assms f by (auto simp: registered_ok_def)
    fix k g
    assume m: "map_of (sessions ?t) k = Some g" and ns: "\<not> special_sid k"
    show "g \<in> open_fds ?t" using entry [OF m] f ns registered_okD(1) [OF assms(1), of k g] by auto
    fix d assume "conns ?t g = Some d"
    then show "current_sid d = k" "\<not> c_leaving d"
      using entry [OF m] ns assms(3) registered_okD(2,3) [OF assms(1), of k g] by (auto split: if_splits)
  qed (rule dist)
qed

lemma registered_accept:
  assumes "registered_ok s" "0 \<le> f" "f \<notin> open_fds s"
  shows "registered_ok (accept_turn mode f s)"
proof -
  have "g \<noteq> f" if "map_of (sessions s) sid = Some g" "\<not> special_sid sid" for sid g
    using registered_okD(1) [OF assms(1) that] assms(3) by blast
  then show ?thesis
    using assms
    by (auto simp: accept_turn_def Let_def registered_ok_def client_start_def disable_discovery_def)
qed

interpretation registration: step_invariant "registered_ok :: 'st system \<Rightarrow> bool"
proof unfold_locales
  fix s :: "'st system"
  show "initial s \<Longrightarrow> registered_ok s" by (simp add: initial_def registered_ok_def)
next
  fix s :: "'st system" and f c
  assume "registered_ok s" "conns s f = Some c"
  then show "registered_ok (client_die f s)"
    by (auto simp: registered_ok_def client_die_def)
next
  fix s :: "'st system" and f c
  assume "registered_ok s" "conns s f = Some c"
  then show "registered_ok (s\<lparr>conns := (conns s)(f \<mapsto> c\<lparr>c_flight := None\<rparr>)\<rparr>)"
    by (auto simp: registered_ok_def)
next
  fix s :: "'st system" and w st
  show "registered_ok s \<Longrightarrow> registered_ok (s\<lparr>kernel := w, store_state := st\<rparr>)"
    by (rule registered_fields) auto
next
  fix s :: "'st system"
  show "registered_ok s \<Longrightarrow> registered_ok (s\<lparr>running := False\<rparr>)"
    by (rule registered_fields) auto
qed (simp_all add: registered_accept registered_exit registered_leave registered_switch)

end
