(* ===== verification/Messaging.thy ===== *)
theory Messaging
  imports Client_Invariants
begin

text \<open>
  \<^verbatim>\<open>SessionBroadcast.cpp\<close> and \<^verbatim>\<open>ServerMessaging.cpp\<close>: frames the server sends on its
  own account.
\<close>

definition on_kernel :: "(world, 'a) co \<Rightarrow> ('st system, 'a) co" where
  "on_kernel m s = (let (r, w) = m (kernel s) in (r, s\<lparr>kernel := w\<rparr>))"

text \<open>The buffer of an unsolicited frame; it is the binary format whatever the client speaks.\<close>

definition push_buffer :: "u64 \<Rightarrow> u16 \<Rightarrow> bytes \<Rightarrow> bytes" where
  "push_buffer sid cmd payload =
     wire_buffer (mk_header cmd 0 (of_nat (length payload)) sid) payload"

definition send_to_session :: "u64 \<Rightarrow> u16 \<Rightarrow> bytes \<Rightarrow> ('st system, unit) co" where
  "send_to_session sid cmd payload s =
     (case map_of (sessions s) sid of
        None \<Rightarrow> co_ret () s
      | Some f \<Rightarrow> on_kernel (co_seq (async_write f (push_buffer sid cmd payload)) (co_ret ())) s)"

text \<open>The loop runs over a snapshot of the map; a throwing write leaves it.\<close>

fun broadcast_loop :: "u16 \<Rightarrow> bytes \<Rightarrow> (u64 \<times> fd) list \<Rightarrow> (world, unit) co" where
  "broadcast_loop cmd payload [] = co_ret ()"
| "broadcast_loop cmd payload ((sid, f) # rest) =
     co_seq (async_write f (push_buffer sid cmd payload)) (broadcast_loop cmd payload rest)"

definition do_broadcast :: "u16 \<Rightarrow> bytes \<Rightarrow> ('st system, unit) co" where
  "do_broadcast cmd payload s = on_kernel (broadcast_loop cmd payload (sessions s)) s"

definition store_get :: "'st ISessionStore \<Rightarrow> u64 \<Rightarrow> ('st system, Session) co" where
  "store_get store sid s =
     (let (r, st) = get_or_create store sid (store_state s) in (r, s\<lparr>store_state := st\<rparr>))"

fun broadcast_if_loop ::
    "u16 \<Rightarrow> bytes \<Rightarrow> (Session \<Rightarrow> exn + bool) \<Rightarrow> (u64 \<times> fd) list \<Rightarrow> ('st system, unit) co" where
  "broadcast_if_loop cmd payload predicate [] = co_ret ()"
| "broadcast_if_loop cmd payload predicate ((sid, f) # rest) = (\<lambda>s.
     (case session_store s of
        None \<Rightarrow> broadcast_if_loop cmd payload predicate rest s
      | Some store \<Rightarrow>
          co_bind (store_get store sid) (\<lambda>session.
          co_bind (co_of_sum (predicate session)) (\<lambda>p.
            if \<not> p then broadcast_if_loop cmd payload predicate rest
            else co_seq (on_kernel (async_write f (push_buffer sid cmd payload)))
                   (broadcast_if_loop cmd payload predicate rest))) s))"

definition do_broadcast_if ::
    "u16 \<Rightarrow> bytes \<Rightarrow> (Session \<Rightarrow> exn + bool) \<Rightarrow> ('st system, unit) co" where
  "do_broadcast_if cmd payload predicate s =
     broadcast_if_loop cmd payload predicate (sessions s) s"

text \<open>\<^verbatim>\<open>Server::send_to\<close>, \<^verbatim>\<open>broadcast\<close> and \<^verbatim>\<open>broadcast_if\<close> forward to the engine.\<close>

definition send_to :: "u64 \<Rightarrow> u16 \<Rightarrow> bytes \<Rightarrow> ('st system, unit) co" where
  "send_to sid cmd payload = send_to_session sid cmd payload"

definition broadcast :: "u16 \<Rightarrow> bytes \<Rightarrow> ('st system, unit) co" where
  "broadcast cmd payload = do_broadcast cmd payload"

definition broadcast_if :: "u16 \<Rightarrow> bytes \<Rightarrow> (Session \<Rightarrow> exn + bool) \<Rightarrow> ('st system, unit) co" where
  "broadcast_if cmd payload predicate = do_broadcast_if cmd payload predicate"

section \<open>Deliveries\<close>

definition deliveries :: "u16 \<Rightarrow> bytes \<Rightarrow> (u64 \<times> fd) list \<Rightarrow> int list \<Rightarrow> tx list" where
  "deliveries cmd payload es rs =
     map2 (\<lambda>(sid, f) r. Sent f (take (nat r) (push_buffer sid cmd payload))) es rs"

lemma async_write_ok:
  "\<lbrakk>tx_res w = r # rs; 0 \<le> r\<rbrakk> \<Longrightarrow>
     async_write f b w = (Ret r, w\<lparr>tx_res := rs, tx_log := tx_log w @ [Sent f (take (nat r) b)]\<rparr>)"
  by (simp add: async_write_def)

lemma async_write_error:
  "\<lbrakk>tx_res w = r # rs; r < 0; r \<noteq> - ETIME\<rbrakk> \<Longrightarrow>
     async_write f b w = (Throw (SystemError (- r)), w\<lparr>tx_res := rs\<rparr>)"
  by (simp add: async_write_def await_resume_def)

lemma broadcast_loop_ok:
  assumes "tx_res w = rs @ rest" "length rs = length es" "\<forall>r \<in> set rs. 0 \<le> r"
  shows "broadcast_loop cmd payload es w =
    (Ret (), w\<lparr>tx_res := rest, tx_log := tx_log w @ deliveries cmd payload es rs\<rparr>)"
  using assms
proof (induction es arbitrary: w rs)
  case Nil
  then show ?case by (simp add: deliveries_def)
next
  case (Cons e es)
  obtain sid f r rs' where [simp]: "e = (sid, f)" "rs = r # rs'"
    using Cons.prems(2) by (cases e; cases rs) auto
  let ?w = "w\<lparr>tx_res := rs' @ rest, tx_log := tx_log w @ [Sent f (take (nat r) (push_buffer sid cmd payload))]\<rparr>"
  have "async_write f (push_buffer sid cmd payload) w = (Ret r, ?w)"
    using Cons.prems by (simp add: async_write_ok)
  moreover have "broadcast_loop cmd payload es ?w =
      (Ret (), ?w\<lparr>tx_res := rest, tx_log := tx_log ?w @ deliveries cmd payload es rs'\<rparr>)"
    using Cons.prems by (intro Cons.IH) auto
  ultimately show ?case by (simp add: co_seq_simps deliveries_def)
qed

lemma broadcast_loop_fails:
  assumes "tx_res w = rs @ r # rest" "length rs < length es" "\<forall>r \<in> set rs. 0 \<le> r" "r < 0" "r \<noteq> - ETIME"
  shows "broadcast_loop cmd payload es w =
    (Throw (SystemError (- r)), w\<lparr>tx_res := rest,
       tx_log := tx_log w @ deliveries cmd payload (take (length rs) es) rs\<rparr>)"
  using assms
proof (induction es arbitrary: w rs)
  case Nil
  then show ?case by simp
next
  case (Cons e es)
  obtain sid f where [simp]: "e = (sid, f)" by (cases e)
  show ?case
  proof (cases rs)
    case Nil
    with Cons.prems show ?thesis
      by (simp add: co_seq_simps async_write_error deliveries_def)
  next
    case (Cons x xs)
    let ?w = "w\<lparr>tx_res := xs @ r # rest, tx_log := tx_log w @ [Sent f (take (nat x) (push_buffer sid cmd payload))]\<rparr>"
    have "async_write f (push_buffer sid cmd payload) w = (Ret x, ?w)"
      using Cons.prems Cons by (simp add: async_write_ok)
    moreover have "broadcast_loop cmd payload es ?w =
      (Throw (SystemError (- r)), ?w\<lparr>tx_res := rest,
         tx_log := tx_log ?w @ deliveries cmd payload (take (length xs) es) xs\<rparr>)"
      using Cons.prems Cons by (intro Cons.IH) auto
    ultimately show ?thesis using Cons by (simp add: co_seq_simps deliveries_def)
  qed
qed

text \<open>
  Over any store that keeps the contract of \<open>session_memory\<close>, the predicate is asked
  about the session each id stands for, and exactly those it accepts are written to.
\<close>

context session_memory
begin

definition chosen :: "(Session \<Rightarrow> bool) \<Rightarrow> 'st \<Rightarrow> (u64 \<times> fd) list \<Rightarrow> (u64 \<times> fd) list" where
  "chosen P st es = filter (\<lambda>(sid, f). P (mem st sid)) es"

lemma store_get_mem:
  assumes "invar (store_state s)"
  shows "\<exists>st. store_get store sid s = (Ret (mem (store_state s) sid), s\<lparr>store_state := st\<rparr>) \<and>
    mem st = mem (store_state s) \<and> invar st"
  using get_pair [OF assms, of sid] by (auto simp: store_get_def)

lemma broadcast_if_loop_ok:
  assumes "invar (store_state s)" "session_store s = Some store"
    and "tx_res (kernel s) = rs @ rest" "length rs = length (chosen P (store_state s) es)"
    and "\<forall>r \<in> set rs. 0 \<le> r"
  shows "\<exists>st. broadcast_if_loop cmd payload (\<lambda>x. Inr (P x)) es s =
      (Ret (), s\<lparr>store_state := st, kernel := (kernel s)\<lparr>tx_res := rest,
         tx_log := tx_log (kernel s) @ deliveries cmd payload (chosen P (store_state s) es) rs\<rparr>\<rparr>) \<and>
    mem st = mem (store_state s) \<and> invar st"
  using assms
proof (induction es arbitrary: s rs)
  case Nil
  then show ?case
    by (intro exI [of _ "store_state s"]) (simp add: chosen_def deliveries_def)
next
  case (Cons e es)
  obtain sid f where e: "e = (sid, f)" by (cases e)
  obtain st where g: "store_get store sid s = (Ret (mem (store_state s) sid), s\<lparr>store_state := st\<rparr>)"
      "mem st = mem (store_state s)" "invar st"
    using store_get_mem [OF Cons.prems(1)] by blast
  have ch: "chosen P st es = chosen P (store_state s) es" using g by (simp add: chosen_def)
  show ?case
  proof (cases "P (mem (store_state s) sid)")
    case False
    then have "chosen P (store_state s) (e # es) = chosen P st es" using e ch by (simp add: chosen_def)
    with Cons.IH [of "s\<lparr>store_state := st\<rparr>" rs] Cons.prems g False e show ?thesis
      by (auto simp: co_bind_def)
  next
    case True
    then have che: "chosen P (store_state s) (e # es) = e # chosen P st es"
      using e ch by (simp add: chosen_def)
    with Cons.prems obtain r rs' where rs: "rs = r # rs'" by (cases rs) auto
    let ?k = "(kernel s)\<lparr>tx_res := rs' @ rest,
        tx_log := tx_log (kernel s) @ [Sent f (take (nat r) (push_buffer sid cmd payload))]\<rparr>"
    let ?s = "s\<lparr>store_state := st, kernel := ?k\<rparr>"
    have w: "async_write f (push_buffer sid cmd payload) (kernel s) = (Ret r, ?k)"
      using Cons.prems rs by (simp add: async_write_ok)
    obtain st' where "broadcast_if_loop cmd payload (\<lambda>x. Inr (P x)) es ?s =
        (Ret (), ?s\<lparr>store_state := st', kernel := ?k\<lparr>tx_res := rest,
           tx_log := tx_log ?k @ deliveries cmd payload (chosen P st es) rs'\<rparr>\<rparr>)"
        "mem st' = mem st" "invar st'"
      using Cons.IH [of ?s rs'] Cons.prems g rs che by auto
    then show ?thesis
      using True e g w che rs Cons.prems(2)
      by (intro exI [of _ st'])
        (simp add: co_bind_def co_seq_def on_kernel_def deliveries_def)
  qed
qed

end

end
