(* ===== verification/Datagram_Engine.thy ===== *)
theory Datagram_Engine
  imports Messaging
begin

text \<open>
  \<^verbatim>\<open>ClientHandlers.cpp\<close> (\<^verbatim>\<open>start_udp_loop\<close>, \<^verbatim>\<open>start_discovery_loop\<close>) and the idle
  announcement of \<^verbatim>\<open>ServerLifecycle.cpp\<close>. The result of a turn is whether the loop
  goes on: an exception that is not a \<^verbatim>\<open>std::exception\<close> destroys the loop's coroutine.
\<close>

section \<open>UDP requests\<close>

definition UDP_BUFFER :: nat where
  "UDP_BUFFER = 65536"

text \<open>The request that the first \<open>n\<close> bytes of the buffer hold.\<close>

definition udp_request :: "bytes \<Rightarrow> nat \<Rightarrow> ClientFrame" where
  "udp_request buffer n =
     (let h = header_of_bytes (take sizeof_FrameHeader buffer);
          pl = min (payload_length h) (of_nat (n - sizeof_FrameHeader)) in
      \<lparr>cf_header = h\<lparr>payload_length := pl\<rparr>, cf_payload = subspan sizeof_FrameHeader (unat pl) buffer\<rparr>)"

text \<open>\<open>buffer\<close> is the loop's array, which keeps what earlier datagrams left in it.\<close>

definition udp_turn :: "fd \<Rightarrow> bytes \<Rightarrow> 'st system \<Rightarrow> bool \<times> bytes \<times> 'st system" where
  "udp_turn f buffer s =
     (case async_recvmsg f UDP_BUFFER (kernel s) of
        (Pending, _) \<Rightarrow> (True, buffer, s)
      | (Throw e, w) \<Rightarrow> (is_std_exception e, buffer, s\<lparr>kernel := w\<rparr>)
      | (Ret (n, data, addr), w) \<Rightarrow>
          let buf = overwrite buffer 0 data; s1 = s\<lparr>kernel := w\<rparr> in
          if n < sizeof_FrameHeader then (True, buf, s1)
          else
            let frame = udp_request buf n in
            case session_store s1 of
              None \<Rightarrow> (True, buf, s1)
            | Some store \<Rightarrow>
                (case get_or_create store (session_id (cf_header frame)) (store_state s1) of
                   (Pending, _) \<Rightarrow> (True, buffer, s)
                 | (Throw e, st) \<Rightarrow> (is_std_exception e, buf, s1\<lparr>store_state := st\<rparr>)
                 | (Ret session, st) \<Rightarrow>
                     (case process_command (pipeline_of s1) frame (UringUdpConnection f addr) (session, w) of
                        (Pending, _) \<Rightarrow> (True, buffer, s)
                      | (Throw e, (_, w')) \<Rightarrow>
                          (is_std_exception e, buf, s1\<lparr>kernel := w', store_state := st\<rparr>)
                      | (Ret _, (session', w')) \<Rightarrow>
                          (case save store session' st of
                             (Pending, _) \<Rightarrow> (True, buffer, s)
                           | (Throw e, st') \<Rightarrow>
                               (is_std_exception e, buf, s1\<lparr>kernel := w', store_state := st'\<rparr>)
                           | (Ret _, st') \<Rightarrow> (True, buf, s1\<lparr>kernel := w', store_state := st'\<rparr>)))))"

section \<open>Discovery\<close>

definition reply_tcp_port :: "('st, 'z) Server_scheme \<Rightarrow> u32" where
  "reply_tcp_port s =
     (if advertised_tcp_port (discovery_config s) \<noteq> 0 then ucast (advertised_tcp_port (discovery_config s))
      else case tcp_ports s of [] \<Rightarrow> 0 | (p, _) # _ \<Rightarrow> ucast p)"

definition reply_udp_port :: "('st, 'z) Server_scheme \<Rightarrow> u32" where
  "reply_udp_port s =
     (if advertised_udp_port (discovery_config s) \<noteq> 0 then ucast (advertised_udp_port (discovery_config s))
      else case udp_ports s of [] \<Rightarrow> 0 | p # _ \<Rightarrow> ucast p)"

definition announcement :: "('st, 'z) Server_scheme \<Rightarrow> DiscoveryPacket" where
  "announcement s = \<lparr>magic_number = config_magic (discovery_config s), action = SERVER_ANNOUNCING,
     tcp_port = reply_tcp_port s, udp_port = reply_udp_port s\<rparr>"

definition discovery_turn :: "fd \<Rightarrow> 'st system \<Rightarrow> bool \<times> 'st system" where
  "discovery_turn f s =
     (case async_recvmsg f sizeof_DiscoveryPacket (kernel s) of
        (Pending, _) \<Rightarrow> (True, s)
      | (Throw e, w) \<Rightarrow> (is_std_exception e, s\<lparr>kernel := w\<rparr>)
      | (Ret (n, data, addr), w) \<Rightarrow>
          let s1 = s\<lparr>kernel := w\<rparr>;
              req = discovery_of_bytes (overwrite (replicate sizeof_DiscoveryPacket 0) 0 data) in
          if n < sizeof_DiscoveryPacket then (True, s1)
          else if magic_number req \<noteq> config_magic (discovery_config s1) then (True, s1)
          else if action req \<noteq> CLIENT_LOOKING_FOR_SERVER then (True, s1)
          else if \<not> respond_to_clients (discovery_config s1) then (True, s1)
          else
            (case (case on_discovery_request (discovery_config s1) of
                     None \<Rightarrow> Inr (announcement s1)
                   | Some responder \<Rightarrow> responder addr (announcement s1)) of
               Inl e \<Rightarrow> (is_std_exception e, s1)
             | Inr resp \<Rightarrow>
                 (case async_sendto f (discovery_bytes resp) addr w of
                    (Pending, _) \<Rightarrow> (True, s)
                  | (Throw e, w') \<Rightarrow> (is_std_exception e, s1\<lparr>kernel := w'\<rparr>)
                  | (Ret _, w') \<Rightarrow> (True, s1\<lparr>kernel := w'\<rparr>))))"

text \<open>
  The idle announcement: \<^verbatim>\<open>sockaddr_in\<close> of the limited broadcast address (family in
  host order, port in network order), copied into a zeroed \<^verbatim>\<open>sockaddr_storage\<close>.
\<close>

definition broadcast_sockaddr :: "u16 \<Rightarrow> sockaddr" where
  "broadcast_sockaddr port =
     le_bytes 2 (2 :: u16) @ rev (le_bytes 2 port) @ replicate 4 255 @ replicate 120 0"

definition announce_if_idle :: "('st system, unit) co" where
  "announce_if_idle s =
     (if 0 < active_connections s \<or> discovery_fd s < 0 \<or> \<not> discovery_enabled s then co_ret () s
      else on_kernel (co_seq (async_sendto (discovery_fd s) (discovery_bytes (announcement s))
             (broadcast_sockaddr (broadcast_port (discovery_config s)))) (co_ret ())) s)"

section \<open>Facts\<close>

lemma recvmsg_dgram:
  assumes "dgrams w f = Dgram bs addr # q" "length bs \<le> n" "n < 2 ^ 64"
  shows "async_recvmsg f n w = (Ret (length bs, bs, addr), w\<lparr>dgrams := (dgrams w)(f := q)\<rparr>)"
proof -
  have "nat (int (length bs) mod 2 ^ 64) = length bs" using assms(2,3) by (simp add: nat_mod_distrib)
  then show ?thesis using assms by (simp add: async_recvmsg_def co_bind_def)
qed

lemma overwrite_take:
  "length bs \<le> length buf \<Longrightarrow> take (length bs) (overwrite buf 0 bs) = bs"
  by (simp add: overwrite_def)

lemma udp_request_bounds:
  assumes "sizeof_FrameHeader \<le> n" "n \<le> 65536"
  shows "unat (payload_length (cf_header (udp_request buf n))) \<le> n - sizeof_FrameHeader"
proof -
  let ?m = "of_nat (n - sizeof_FrameHeader) :: u32"
  have "unat ?m = n - sizeof_FrameHeader" using assms by (simp only: unat_of_nat) simp
  moreover have "unat (min a ?m) \<le> unat ?m" for a :: u32
    by (simp add: word_le_nat_alt flip: word_le_nat_alt)
  ultimately show ?thesis by (simp add: udp_request_def Let_def)
qed

text \<open>Only the datagram's own bytes are looked at.\<close>

lemma udp_request_prefix:
  assumes "sizeof_FrameHeader \<le> n" "n \<le> 65536" "take n buf = take n buf'"
  shows "udp_request buf n = udp_request buf' n"
proof -
  have h: "take sizeof_FrameHeader buf = take sizeof_FrameHeader buf'"
    using take_prefix_eq [OF assms(3,1)] .
  let ?pl = "unat (payload_length (cf_header (udp_request buf n)))"
  have "sizeof_FrameHeader + ?pl \<le> n" using udp_request_bounds [OF assms(1,2)] assms(1) by (simp add: le_diff_conv2 add.commute)
  then have "subspan sizeof_FrameHeader ?pl buf = subspan sizeof_FrameHeader ?pl buf'"
    using take_prefix_eq [OF assms(3)] by (simp add: subspan_alt)
  with h show ?thesis by (simp add: udp_request_def Let_def)
qed

end
