(* ===== verification/Engine_Properties.thy ===== *)
theory Engine_Properties
  imports Datagram_Engine
begin

text \<open>
  What the engine guarantees about its connections, its registrations and the messages it
  sends on its own account.
\<close>

section \<open>Connections\<close>

text \<open>
  C8. Connection limit. In every interleaving of accepts, requests and disconnects, the
  counter of active connections is the number of client descriptors the process holds
  open, and with a limit configured that number never exceeds it.
\<close>

theorem connection_limit:
  assumes "reachable s"
  shows "unat (active_connections s) = card (open_fds s) \<and>
    (0 < max_clients s \<longrightarrow> card (open_fds s) \<le> unat (max_clients s))"
proof -
  have c: "counted s" using assms by (rule count.inv_reachable)
  then have "0 < max_clients s \<longrightarrow> unat (active_connections s) \<le> unat (max_clients s)"
    unfolding counted_def word_le_nat_alt by blast
  with unat_active [OF c] show ?thesis by simp
qed

text \<open>
  C9. Registrations are not stale. In every reachable state, for every session id but 0
  and the sentinel, a registration points to a descriptor that is open, and a client
  served on that descriptor is currently speaking for exactly that session and not waiting
  for its disconnect callback; no id is registered twice.
\<close>

theorem registrations_not_stale:
  assumes "reachable s"
  shows "distinct (map fst (sessions s)) \<and>
    (\<forall>sid f. map_of (sessions s) sid = Some f \<longrightarrow> \<not> special_sid sid \<longrightarrow>
       f \<in> open_fds s \<and> (\<forall>c. conns s f = Some c \<longrightarrow> current_sid c = sid \<and> \<not> c_leaving c))"
  using registration.inv_reachable [OF assms] unfolding registered_ok_def by blast

text \<open>
  C28. A clean disconnect. When the connection of a binary client that spoke for a session
  ends, the session is unregistered at once, while the coroutine waits for the callback on
  the thread pool with its descriptor still open and counted. When the callback has
  returned (and not thrown), it has seen the session id exactly once, the descriptor is closed,
  the coroutine is gone and the count has gone down by one.
\<close>

theorem clean_disconnect:
  assumes "conns s f = Some c" "c_mode c = BINARY" "current_sid c \<noteq> NO_SID"
    and "disconnect_handler s = Some h" "thread_pool s = Some n" "h (current_sid c) = Inr ()"
    and "is_std_exception e"
  shows "let t = client_catch e f c s; c' = c\<lparr>c_flight := None, c_leaving := True\<rparr>;
           u = client_leave f c' t in
    conns t f = Some c' \<and> map_of (sessions t) (current_sid c) = None \<and> open_fds t = open_fds s \<and>
    active_connections t = active_connections s \<and> disconnects t = disconnects s \<and>
    map_of (sessions u) (current_sid c) = None \<and> disconnects u = disconnects s @ [current_sid c] \<and>
    open_fds u = open_fds s - {f} \<and> conns u f = None \<and> active_connections u = active_connections s - 1"
  using assms
  by (simp add: client_catch_def client_exit_def Let_def thread_pool_ref_def client_leave_def
      unregister_session_def client_close_def reenable_discovery_def AList.delete_conv')

text \<open>
  C35. A disconnect callback leaks the connection if there is no thread pool, or if it throws.
  Either exception (of \<^verbatim>\<open>thread_pool()\<close>, or of the callback rethrown by the wait) is outside
  the \<^verbatim>\<open>try\<close> block: the coroutine dies, the descriptor stays open and the connection stays
  counted.
\<close>

theorem disconnect_without_pool_leaks:
  assumes "conns s f = Some c" "c_mode c = BINARY" "current_sid c \<noteq> NO_SID" "f \<in> open_fds s"
    and "disconnect_handler s = Some h" "is_std_exception e"
    and "thread_pool s = None \<or> h (current_sid c) = Inl e'"
  shows "let t = client_catch e f c s;
             u = (if thread_pool s = None then t
                  else client_leave f (c\<lparr>c_flight := None, c_leaving := True\<rparr>) t) in
    conns u f = None \<and> f \<in> open_fds u \<and> active_connections u = active_connections s \<and>
    disconnects u = disconnects s"
  using assms
  by (auto simp: client_catch_def client_exit_def Let_def thread_pool_ref_def client_leave_def
      unregister_session_def client_die_def)

text \<open>
  At the limit, a new connection is closed at once, no client coroutine is started and
  the count is unchanged, and discovery goes quiet; the next disconnect below the limit
  turns discovery answers on again.
\<close>

theorem accept_at_limit:
  assumes "0 < max_clients s" "max_clients s \<le> active_connections s" "0 \<le> f" "f \<notin> open_fds s"
    and "active_connections s - 1 < max_clients s"
  shows "let t = accept_turn mode f s; u = client_close g t in
    open_fds t = open_fds s \<and> conns t = conns s \<and> active_connections t = active_connections s \<and>
    \<not> respond_to_clients (discovery_config t) \<and> \<not> discovery_enabled t \<and>
    respond_to_clients (discovery_config u) \<and> discovery_enabled u"
  using assms
  by (auto simp: accept_turn_def Let_def disable_discovery_def client_close_def reenable_discovery_def)

text \<open>
  Discovery that was switched off by configuration does not stay off: with a client
  limit set, the first disconnect below the limit makes the server answer and announce,
  although the limit was never reached.
\<close>

theorem disconnect_overrides_discovery_configuration:
  assumes "0 < max_clients s" "active_connections s - 1 < max_clients s"
    and "\<not> respond_to_clients (discovery_config s)" "\<not> discovery_enabled s"
  shows "respond_to_clients (discovery_config (client_close f s)) \<and> discovery_enabled (client_close f s)"
  using assms by (simp add: client_close_def Let_def reenable_discovery_def)

section \<open>Requests\<close>

text \<open>A received request: the session is looked up and held, the connection registered.\<close>

lemma client_receive_ok:
  assumes "read_request s f c (kernel s) = (Ret frame, w)" "session_store s = Some store"
    and "get_or_create store (session_id (cf_header frame)) (store_state s) = (Ret session, st)"
  shows "client_receive f c s =
    (switch_session f c (session_id (cf_header frame)) (s\<lparr>kernel := w, store_state := st\<rparr>))
      \<lparr>conns := (conns s)(f \<mapsto> c\<lparr>current_sid := session_id (cf_header frame),
                                c_flight := Some (frame, session)\<rparr>)\<rparr>"
  using assms by (simp add: client_receive_def Let_def)

text \<open>A command that completes: its session is saved and the loop goes round.\<close>

lemma client_finish_ok:
  assumes "process_command (pipeline_of s) frame (client_connection f c) (session, kernel s) = (Ret (), (session', w))"
    and "session_store s = Some store" "save store session' (store_state s) = (Ret (), st)" "running s"
  shows "client_finish f c frame session s =
    s\<lparr>kernel := w, store_state := st, conns := (conns s)(f \<mapsto> c\<lparr>c_flight := None\<rparr>)\<rparr>"
  using assms by (simp add: client_finish_def Let_def)

lemma im_store_calls:
  "get_or_create InMemorySessionStore sid st = (Ret (im_mem st sid), st(sid \<mapsto> im_mem st sid))"
  "save InMemorySessionStore x st = (Ret (), st(sess_id x \<mapsto> x))"
  by (auto simp: InMemorySessionStore_def im_get_or_create_def im_save_def im_mem_def Let_def
      split: option.split)

lemma im_mem_upd [simp]: "im_mem (st(sid \<mapsto> x)) = (im_mem st)(sid := x)"
  by (auto simp: im_mem_def fun_eq_iff)

text \<open>
  A connection reads its own writes: what one command did to the session is what the
  next command of the same session on that connection starts from.
\<close>

theorem next_request_sees_session:
  assumes "process_command (pipeline_of s) frame (client_connection f c) (session, kernel s) = (Ret (), (session', w))"
    and "session_store s = Some InMemorySessionStore" "running s" "sess_id session' = current_sid c"
    and "t = client_finish f c frame session s"
    and "read_request t f (c\<lparr>c_flight := None\<rparr>) (kernel t) = (Ret next_frame, w')"
    and "session_id (cf_header next_frame) = current_sid c"
  shows "conns t f = Some (c\<lparr>c_flight := None\<rparr>) \<and>
    conns (client_receive f (c\<lparr>c_flight := None\<rparr>) t) f = Some (c\<lparr>c_flight := Some (next_frame, session')\<rparr>)"
proof -
  have t: "t = s\<lparr>kernel := w, store_state := (store_state s)(sess_id session' \<mapsto> session'),
      conns := (conns s)(f \<mapsto> c\<lparr>c_flight := None\<rparr>)\<rparr>"
    using assms(1-3,5) by (simp add: client_finish_ok im_store_calls)
  have "client_receive f (c\<lparr>c_flight := None\<rparr>) t =
      (switch_session f (c\<lparr>c_flight := None\<rparr>) (current_sid c)
        (t\<lparr>kernel := w', store_state := (store_state t)(current_sid c \<mapsto> session')\<rparr>))
        \<lparr>conns := (conns t)(f \<mapsto> c\<lparr>c_flight := Some (next_frame, session')\<rparr>)\<rparr>"
    using client_receive_ok [OF assms(6), where store = InMemorySessionStore] assms(2,4,7) t
    by (simp add: im_store_calls)
  with t show ?thesis by simp
qed

text \<open>
  C34. Sessions are copied, not shared: when two connections process commands of the same
  session at the same time, the one that finishes last overwrites what the other did, so
  that its effect on the session (a login, an agreed key) is lost.
\<close>

theorem concurrent_session_update_lost:
  assumes "process_command (pipeline_of s) fa (client_connection f c) (sa, kernel s) = (Ret (), (sa', w))"
    and "process_command (pipeline_of s) fb (client_connection g d) (sb, w) = (Ret (), (sb', w'))"
    and "session_store s = Some InMemorySessionStore" "running s" "sess_id sa' = sess_id sb'"
  shows "store_state (client_finish g d fb sb (client_finish f c fa sa s)) (sess_id sa') = Some sb'"
proof -
  have t: "client_finish f c fa sa s = s\<lparr>kernel := w, store_state := (store_state s)(sess_id sa' \<mapsto> sa'),
      conns := (conns s)(f \<mapsto> c\<lparr>c_flight := None\<rparr>)\<rparr>" (is "_ = ?t")
    using assms(1,3,4) by (simp add: client_finish_ok im_store_calls)
  have "pipeline_of ?t = pipeline_of s" by (simp add: pipeline_of_def)
  with assms(2-4) have "client_finish g d fb sb ?t = ?t\<lparr>kernel := w',
      store_state := (store_state ?t)(sess_id sb' \<mapsto> sb'), conns := (conns ?t)(g \<mapsto> d\<lparr>c_flight := None\<rparr>)\<rparr>"
    by (intro client_finish_ok [where store = InMemorySessionStore]) (simp_all add: im_store_calls)
  with t assms(5) show ?thesis by simp
qed

text \<open>
  C38. A command that throws a standard exception ends its own connection and no other, and
  nothing it did to the session is saved, while what it sent stays sent. The session the
  connection spoke for is unregistered. With no disconnect callback to run (none is set, a
  text client, or no session yet) the descriptor is closed and the count goes down at once.
  Otherwise descriptor and count are left as they are, and the coroutine waits for the
  callback on the thread pool, or is gone if there is no pool.
\<close>

theorem failing_command_ends_connection:
  assumes "conns s f = Some c" "is_std_exception e"
    and "process_command (pipeline_of s) frame (client_connection f c) (session, kernel s) = (Throw e, (session', w))"
  shows "let t = client_finish f c frame session s; sid = current_sid c;
             callback = (c_mode c = BINARY \<and> disconnect_handler s \<noteq> None \<and> sid \<noteq> NO_SID) in
    store_state t = store_state s \<and> kernel t = w \<and> (\<forall>g. g \<noteq> f \<longrightarrow> conns t g = conns s g) \<and>
    (sid \<noteq> NO_SID \<longrightarrow> map_of (sessions t) sid = None) \<and>
    (\<not> callback \<longrightarrow> conns t f = None \<and> f \<notin> open_fds t \<and> active_connections t = active_connections s - 1) \<and>
    (callback \<longrightarrow> open_fds t = open_fds s \<and> active_connections t = active_connections s \<and>
       conns t f = (if thread_pool s = None then None else Some (c\<lparr>c_flight := None, c_leaving := True\<rparr>)))"
proof -
  let ?s = "s\<lparr>kernel := w\<rparr>"
  have t: "client_finish f c frame session s = client_exit f c ?s"
    using assms(2,3) by (simp add: client_finish_def client_catch_def)
  show ?thesis
    unfolding t
    by (auto simp: client_exit_def Let_def thread_pool_ref_def client_die_def unregister_session_def
        client_close_def reenable_discovery_def AList.delete_conv' split: option.split)
qed

text \<open>
  C24. Contrary to the README, which says that a connection is dropped when the tag of an
  encrypted message is refused, the code keeps it. With an agreed key, enough bytes for nonce
  and tag, the cipher available and the in-memory store holding the session, a message whose
  tag Botan refuses changes nothing in the server but that the client is ready for its next
  request: no reply, no handler, no change to the session, nothing closed, unregistered or
  counted down.
\<close>

theorem refused_tag_keeps_connection:
  assumes "command_id (cf_header frame) = CMD_ENCRYPTED_MESSAGE" "gcm_available (pl_botan (pipeline_of s))"
    and "has_aes_key session" "NONCE_SIZE + TAG_SIZE \<le> length (cf_payload frame)"
    and "gcm_finish_dec (pl_botan (pipeline_of s)) (aes_key session) (subspan 0 NONCE_SIZE (cf_payload frame)) []
         (drop (NONCE_SIZE + TAG_SIZE) (cf_payload frame) @ subspan NONCE_SIZE TAG_SIZE (cf_payload frame)) = None"
    and "session_store s = Some InMemorySessionStore" "store_state s (sess_id session) = Some session" "running s"
  shows "client_finish f c frame session s = s\<lparr>conns := (conns s)(f \<mapsto> c\<lparr>c_flight := None\<rparr>)\<rparr>"
proof -
  have "process_command (pipeline_of s) frame (client_connection f c) (session, kernel s) = (Ret (), (session, kernel s))"
    by (rule undecryptable_message_ignored) (use assms in simp_all)
  then have "client_finish f c frame session s = s\<lparr>kernel := kernel s,
      store_state := (store_state s)(sess_id session \<mapsto> session), conns := (conns s)(f \<mapsto> c\<lparr>c_flight := None\<rparr>)\<rparr>"
    using assms(6,8) by (intro client_finish_ok [where store = InMemorySessionStore]) (simp_all add: im_store_calls)
  also have "(store_state s)(sess_id session \<mapsto> session) = store_state s"
    using assms(7) by (rule fun_upd_idem)
  finally show ?thesis by (simp add: fun_upd_def)
qed

text \<open>
  C33. Session 0 is never unregistered when a connection moves on to another session. After
  the connection is closed its registration still names the closed descriptor, and once
  the kernel hands the same number to the next client, messages for session 0 are
  delivered to that client.
\<close>

theorem session_zero_misdelivered:
  assumes "read_request s f c (kernel s) = (Ret frame, w)" "session_store s = Some store"
    and "get_or_create store (session_id (cf_header frame)) (store_state s) = (Ret session, st)"
    and "current_sid c = 0" "map_of (sessions s) 0 = Some f"
    and "session_id (cf_header frame) = sid" "sid \<noteq> 0" "sid \<noteq> NO_SID"
    and "t = client_receive f c s" "conns t f = Some c'" "disconnect_handler s = None"
    and "u = client_catch (RuntimeError msg) f c' t" "max_clients s = 0" "0 \<le> f"
    and "v = accept_turn mode f u" "tx_res (kernel v) = r # rs" "0 \<le> r"
  shows "map_of (sessions u) 0 = Some f \<and> f \<notin> open_fds u \<and>
    conns v f = Some \<lparr>c_mode = mode, current_sid = NO_SID, c_flight = None, c_leaving = False\<rparr> \<and>
    tx_log (kernel (snd (send_to 0 cmd payload v))) =
      tx_log (kernel v) @ [Sent f (take (nat r) (push_buffer 0 cmd payload))]"
proof -
  have t: "t = (switch_session f c sid (s\<lparr>kernel := w, store_state := st\<rparr>))
      \<lparr>conns := (conns s)(f \<mapsto> c\<lparr>current_sid := sid, c_flight := Some (frame, session)\<rparr>)\<rparr>"
    using client_receive_ok [OF assms(1-3)] assms(6,9) by simp
  have c': "c' = c\<lparr>current_sid := sid, c_flight := Some (frame, session)\<rparr>" using assms(10) t by simp
  have "map_of (sessions t) 0 = Some f"
    using assms(4,5,7) t
    by (simp add: switch_session_def register_session_def AList.update_conv')
  moreover have u: "u = client_close f (unregister_session sid t)"
    using assms(8,11,12) c' t by (simp add: client_catch_def client_exit_no_handler)
  ultimately have z: "map_of (sessions u) 0 = Some f"
    using assms(7) by (simp add: client_close_fields AList.delete_conv')
  have "max_clients u = 0"
    using u t assms(13) by (simp add: client_close_def Let_def)
  then have v: "v = client_start mode f (u\<lparr>open_fds := insert f (open_fds u)\<rparr>)"
    using assms(14,15) by (simp add: accept_turn_def Let_def)
  then have "map_of (sessions v) 0 = Some f" using z by (simp add: client_start_def)
  then have "tx_log (kernel (snd (send_to 0 cmd payload v))) =
      tx_log (kernel v) @ [Sent f (take (nat r) (push_buffer 0 cmd payload))]"
    using assms(16,17)
    by (simp add: send_to_def send_to_session_def on_kernel_def co_seq_simps async_write_ok)
  with z u v show ?thesis by (simp add: client_close_fields client_start_def)
qed

end
