(* ===== verification/Lifecycle.thy ===== *)
theory Lifecycle
  imports Datagram_Engine "HOL-Library.Signed_Division"
begin

text \<open>
  \<^verbatim>\<open>ServerLifecycle.cpp\<close>, the timer and bus loops of \<^verbatim>\<open>ClientHandlers.cpp\<close> and
  \<^verbatim>\<open>UdpConnection::get_remote_address\<close>: bringing the server up, and the coroutines that
  are not about clients. The socket calls are the environment's; the results they are going
  to give are part of the state.
\<close>

section \<open>State\<close>

datatype address = Inet u16 | UnixPath string

text \<open>The coroutines that \<^verbatim>\<open>init\<close> starts.\<close>

datatype loop =
    AcceptLoop fd ProtocolMode
  | UdpLoop fd
  | DiscoveryLoop fd
  | TimerLoop int
  | AnnounceLoop int
  | BusLoop bool

text \<open>
  \<open>periodic_tasks\<close> and the two bus connections are members of \<^verbatim>\<open>Server\<close>;
  \<open>listen_fds\<close> are the sockets created, \<open>sockopts\<close>, \<open>bound\<close> and \<open>unlinked\<close> record the
  calls, \<open>loops\<close> the coroutines started.
\<close>

record 'st deployment = "'st system" +
  periodic_tasks :: "(int \<times> ('st system, unit) co) list"
  session_bus :: bool
  system_bus :: bool
  socket_res :: "int list"
  bind_res :: "int list"
  listen_res :: "int list"
  listen_fds :: "fd list"
  sockopts :: "(fd \<times> int) list"
  bound :: "(fd \<times> address) list"
  unlinked :: "string list"
  loops :: "loop list"

text \<open>
  \<^verbatim>\<open>enable_session_bus\<close> and \<^verbatim>\<open>enable_system_bus\<close>; \<open>obtained\<close> is whether sd-bus yields a
  connection. Its error code is not looked at, and the pointer then stays as it was.
\<close>

definition enable_session_bus :: "bool \<Rightarrow> 'st deployment \<Rightarrow> 'st deployment" where
  "enable_session_bus obtained s = (if obtained then s\<lparr>session_bus := True\<rparr> else s)"

definition enable_system_bus :: "bool \<Rightarrow> 'st deployment \<Rightarrow> 'st deployment" where
  "enable_system_bus obtained s = (if obtained then s\<lparr>system_bus := True\<rparr> else s)"

section \<open>Socket calls\<close>

text \<open>A queue of results that has run out answers 0.\<close>

definition next_res :: "int list \<Rightarrow> int \<times> int list" where
  "next_res rs = (case rs of [] \<Rightarrow> (0, []) | r # rs' \<Rightarrow> (r, rs'))"

definition sys_socket :: "string \<Rightarrow> ('st deployment, fd) co" where
  "sys_socket msg s =
     (let (r, rs) = next_res (socket_res s) in
      if r < 0 then (Throw (RuntimeError msg), s\<lparr>socket_res := rs\<rparr>)
      else (Ret r, s\<lparr>socket_res := rs, listen_fds := listen_fds s @ [r]\<rparr>))"

definition sys_setsockopt :: "fd \<Rightarrow> int \<Rightarrow> ('st deployment, unit) co" where
  "sys_setsockopt f optname s = (Ret (), s\<lparr>sockopts := sockopts s @ [(f, optname)]\<rparr>)"

definition sys_bind :: "fd \<Rightarrow> address \<Rightarrow> string \<Rightarrow> ('st deployment, unit) co" where
  "sys_bind f a msg s =
     (let (r, rs) = next_res (bind_res s) in
      if r < 0 then (Throw (RuntimeError msg), s\<lparr>bind_res := rs\<rparr>)
      else (Ret (), s\<lparr>bind_res := rs, bound := bound s @ [(f, a)]\<rparr>))"

definition sys_listen :: "string \<Rightarrow> ('st deployment, unit) co" where
  "sys_listen msg s =
     (let (r, rs) = next_res (listen_res s) in
      if r < 0 then (Throw (RuntimeError msg), s\<lparr>listen_res := rs\<rparr>) else (Ret (), s\<lparr>listen_res := rs\<rparr>))"

definition start_loop :: "loop \<Rightarrow> ('st deployment, unit) co" where
  "start_loop l s = (Ret (), s\<lparr>loops := loops s @ [l]\<rparr>)"

text \<open>The Linux option numbers; the code combines two names with a bitwise or.\<close>

definition SO_REUSEADDR :: int where "SO_REUSEADDR = 2"
definition SO_BROADCAST :: int where "SO_BROADCAST = 6"
definition SO_REUSEPORT :: int where "SO_REUSEPORT = 15"

definition reuse_option :: int where
  "reuse_option = SO_REUSEADDR OR SO_REUSEPORT"

section \<open>init\<close>

definition init_tcp_socket :: "u16 \<Rightarrow> ProtocolMode \<Rightarrow> ('st deployment, unit) co" where
  "init_tcp_socket port mode =
     co_bind (sys_socket ''Failed to create TCP socket'') (\<lambda>f.
     co_seq (sys_setsockopt f reuse_option)
     (co_seq (sys_bind f (Inet port) (''bind() failed on TCP port '' @ show_nat (unat port)))
     (co_seq (sys_listen ''listen() failed on TCP socket'')
     (start_loop (AcceptLoop f mode)))))"

fun init_tcp_sockets :: "(u16 \<times> ProtocolMode) list \<Rightarrow> ('st deployment, unit) co" where
  "init_tcp_sockets [] = co_ret ()"
| "init_tcp_sockets ((port, mode) # ps) = co_seq (init_tcp_socket port mode) (init_tcp_sockets ps)"

text \<open>\<^verbatim>\<open>strncpy\<close> into the 108 bytes of \<^verbatim>\<open>sun_path\<close>, of which the last stays zero.\<close>

definition sun_path :: "string \<Rightarrow> string" where
  "sun_path path = takeWhile (\<lambda>c. c \<noteq> CHR 0x00) (take 107 path)"

definition init_unix_socket :: "string \<Rightarrow> ProtocolMode \<Rightarrow> ('st deployment, unit) co" where
  "init_unix_socket path mode =
     co_bind (sys_socket ''Failed to create UNIX socket'') (\<lambda>f.
     co_seq (\<lambda>s. (Ret (), s\<lparr>unlinked := unlinked s @ [path]\<rparr>))
     (co_seq (sys_bind f (UnixPath (sun_path path)) (''bind() failed on UNIX socket '' @ path))
     (co_seq (sys_listen ''listen() failed on UNIX socket'')
     (start_loop (AcceptLoop f mode)))))"

fun init_unix_sockets :: "(string \<times> ProtocolMode) list \<Rightarrow> ('st deployment, unit) co" where
  "init_unix_sockets [] = co_ret ()"
| "init_unix_sockets ((path, mode) # ps) = co_seq (init_unix_socket path mode) (init_unix_sockets ps)"

definition init_periodic_tasks :: "('st deployment, unit) co" where
  "init_periodic_tasks s = (Ret (), s\<lparr>loops := loops s @ map (TimerLoop \<circ> fst) (periodic_tasks s)\<rparr>)"

definition init_dbus :: "('st deployment, unit) co" where
  "init_dbus s = (Ret (), s\<lparr>loops := loops s @ (if session_bus s then [BusLoop False] else []) @
     (if system_bus s then [BusLoop True] else [])\<rparr>)"

definition init_udp_socket :: "u16 \<Rightarrow> ('st deployment, unit) co" where
  "init_udp_socket port =
     co_bind (sys_socket ''Failed to create UDP socket'') (\<lambda>f.
     co_seq (sys_setsockopt f reuse_option)
     (co_seq (sys_bind f (Inet port) (''bind() failed on UDP port '' @ show_nat (unat port)))
     (start_loop (UdpLoop f))))"

fun init_udp_sockets :: "u16 list \<Rightarrow> ('st deployment, unit) co" where
  "init_udp_sockets [] = co_ret ()"
| "init_udp_sockets (port # ps) = co_seq (init_udp_socket port) (init_udp_sockets ps)"

definition init_discovery :: "('st deployment, unit) co" where
  "init_discovery s =
     (let cfg = discovery_config s in
      if \<not> discovery_enabled s \<or> broadcast_port cfg = 0 then (Ret (), s)
      else
        co_bind (sys_socket ''Failed to create discovery UDP socket'') (\<lambda>f.
        co_seq (sys_setsockopt f reuse_option)
        (co_seq (sys_setsockopt f SO_BROADCAST)
        (co_seq (sys_bind f (Inet (broadcast_port cfg))
                  (''bind() failed on discovery port '' @ show_nat (unat (broadcast_port cfg))))
        (co_seq (\<lambda>s. (Ret (), s\<lparr>discovery_fd := f\<rparr>))
        (co_seq (start_loop (DiscoveryLoop f))
        (if 0 < active_announce_if_idle cfg
         then start_loop (AnnounceLoop (1000 * active_announce_if_idle cfg)) else co_ret ())))))) s)"

text \<open>\<^verbatim>\<open>Server::init\<close>. The session store defaults to the in-memory one.\<close>

definition init :: "(session_map deployment, unit) co" where
  "init s0 =
     (let s = (init_defaults s0)\<lparr>running := True\<rparr> in
      co_seq (init_tcp_sockets (tcp_ports s))
      (co_seq (init_unix_sockets (unix_paths s))
      (co_seq init_periodic_tasks
      (co_seq init_dbus
      (co_seq (init_udp_sockets (udp_ports s)) init_discovery)))) s)"

definition server_stop :: "('st, 'z) system_scheme \<Rightarrow> ('st, 'z) system_scheme" where
  "server_stop s = s\<lparr>running := False\<rparr>"

section \<open>Timers and the bus\<close>

text \<open>
  The kernel timespec of an interval in milliseconds; C++ division and remainder round
  towards zero.
\<close>

definition timespec_of :: "int \<Rightarrow> int \<times> int" where
  "timespec_of ms = (ms sdiv 1000, (ms smod 1000) * 1000000)"

text \<open>
  One turn of \<^verbatim>\<open>periodic_timer_loop\<close>. The wait is outside the \<^verbatim>\<open>try\<close> block: an error
  other than the expected \<^verbatim>\<open>-ETIME\<close> ends the coroutine. The first component is whether
  the loop goes on.
\<close>

definition timer_turn :: "('s, unit) co \<Rightarrow> int \<Rightarrow> 's \<Rightarrow> bool \<times> 's" where
  "timer_turn task res s =
     (case await_resume res of
        Inl _ \<Rightarrow> (False, s)
      | Inr _ \<Rightarrow>
          (case task s of
             (Pending, _) \<Rightarrow> (True, s)
           | (Throw e, t) \<Rightarrow> (is_std_exception e, t)
           | (Ret _, t) \<Rightarrow> (True, t)))"

text \<open>
  One turn of \<^verbatim>\<open>bus_monitor_loop\<close>: \<open>process\<close> stands for \<^verbatim>\<open>sd_bus_process\<close> on the bus's
  state, which is called until it has nothing left to do.
\<close>

partial_function (option) bus_process_all :: "('b \<Rightarrow> int \<times> 'b) \<Rightarrow> 'b \<Rightarrow> 'b option" where
  "bus_process_all process b =
     (let (r, b') = process b in if 0 < r then bus_process_all process b' else Some b')"

definition bus_turn :: "('b \<Rightarrow> int \<times> 'b) \<Rightarrow> int \<Rightarrow> 'b \<Rightarrow> bool \<times> 'b option" where
  "bus_turn process res b =
     (case await_resume res of
        Inl _ \<Rightarrow> (False, Some b)
      | Inr events \<Rightarrow> if events < 0 then (True, Some b) else (True, bus_process_all process b))"

section \<open>Remote addresses\<close>

definition dotted :: "bytes \<Rightarrow> string" where
  "dotted bs = (case bs of
     [a, b, c, d] \<Rightarrow> show_nat (unat a) @ ''.'' @ show_nat (unat b) @ ''.'' @ show_nat (unat c) @ ''.'' @ show_nat (unat d)
   | _ \<Rightarrow> [])"

fun get_remote_address :: "IConnection \<Rightarrow> string" where
  "get_remote_address (UringTcpConnection _) = ''unknown (TODO)''"
| "get_remote_address (TextTcpConnection _) = ''unknown (TODO)''"
| "get_remote_address (UringUdpConnection _ addr) =
     dotted (subspan 4 4 addr) @ '':'' @
     show_nat (unat (le_word (rev (subspan 2 2 addr)) :: u16))"

section \<open>Facts\<close>

lemmas socket_calls = sys_socket_def sys_setsockopt_def sys_bind_def sys_listen_def start_loop_def next_res_def

lemma init_tcp_sockets_ok:
  assumes "socket_res s = fs @ srest" "bind_res s = replicate (length ps) 0 @ brest"
    and "listen_res s = replicate (length ps) 0 @ lrest" "length fs = length ps" "\<forall>f \<in> set fs. 0 \<le> f"
  shows "init_tcp_sockets (ps @ qs) s = init_tcp_sockets qs
    (s\<lparr>socket_res := srest, bind_res := brest, listen_res := lrest, listen_fds := listen_fds s @ fs,
       sockopts := sockopts s @ map (\<lambda>f. (f, reuse_option)) fs,
       bound := bound s @ map2 (\<lambda>f (port, mode). (f, Inet port)) fs ps,
       loops := loops s @ map2 (\<lambda>f (port, mode). AcceptLoop f mode) fs ps\<rparr>)"
  using assms
proof (induction ps arbitrary: s fs)
  case Nil
  show ?case unfolding append_Nil
    by (rule arg_cong [where f = "init_tcp_sockets qs"]) (use Nil in simp)
next
  case (Cons p ps)
  obtain port mode f fs' where [simp]: "p = (port, mode)" "fs = f # fs'"
    using Cons.prems(4) by (cases p; cases fs) auto
  let ?s = "s\<lparr>socket_res := fs' @ srest, bind_res := replicate (length ps) 0 @ brest,
    listen_res := replicate (length ps) 0 @ lrest, listen_fds := listen_fds s @ [f],
    sockopts := sockopts s @ [(f, reuse_option)], bound := bound s @ [(f, Inet port)],
    loops := loops s @ [AcceptLoop f mode]\<rparr>"
  have "init_tcp_socket port mode s = (Ret (), ?s)"
    using Cons.prems by (simp add: init_tcp_socket_def socket_calls co_bind_def co_seq_def)
  then show ?case
    using Cons.IH [of ?s fs'] Cons.prems by (simp add: co_seq_simps)
qed

lemma init_unix_sockets_ok:
  assumes "socket_res s = fs @ srest" "bind_res s = replicate (length ps) 0 @ brest"
    and "listen_res s = replicate (length ps) 0 @ lrest" "length fs = length ps" "\<forall>f \<in> set fs. 0 \<le> f"
  shows "init_unix_sockets ps s =
    (Ret (), s\<lparr>socket_res := srest, bind_res := brest, listen_res := lrest, listen_fds := listen_fds s @ fs,
       unlinked := unlinked s @ map fst ps,
       bound := bound s @ map2 (\<lambda>f (path, mode). (f, UnixPath (sun_path path))) fs ps,
       loops := loops s @ map2 (\<lambda>f (path, mode). AcceptLoop f mode) fs ps\<rparr>)"
  using assms
proof (induction ps arbitrary: s fs)
  case Nil
  then show ?case by simp
next
  case (Cons p ps)
  obtain path mode f fs' where [simp]: "p = (path, mode)" "fs = f # fs'"
    using Cons.prems(4) by (cases p; cases fs) auto
  let ?s = "s\<lparr>socket_res := fs' @ srest, bind_res := replicate (length ps) 0 @ brest,
    listen_res := replicate (length ps) 0 @ lrest, listen_fds := listen_fds s @ [f],
    unlinked := unlinked s @ [path], bound := bound s @ [(f, UnixPath (sun_path path))],
    loops := loops s @ [AcceptLoop f mode]\<rparr>"
  have "init_unix_socket path mode s = (Ret (), ?s)"
    using Cons.prems by (simp add: init_unix_socket_def socket_calls co_bind_def co_seq_def)
  then show ?case
    using Cons.IH [of ?s fs'] Cons.prems by (simp add: co_seq_simps)
qed

lemma init_udp_sockets_ok:
  assumes "socket_res s = fs @ srest" "bind_res s = replicate (length ps) 0 @ brest"
    and "length fs = length ps" "\<forall>f \<in> set fs. 0 \<le> f"
  shows "init_udp_sockets ps s =
    (Ret (), s\<lparr>socket_res := srest, bind_res := brest, listen_fds := listen_fds s @ fs,
       sockopts := sockopts s @ map (\<lambda>f. (f, reuse_option)) fs,
       bound := bound s @ map2 (\<lambda>f port. (f, Inet port)) fs ps,
       loops := loops s @ map UdpLoop fs\<rparr>)"
  using assms
proof (induction ps arbitrary: s fs)
  case Nil
  then show ?case by simp
next
  case (Cons port ps)
  obtain f fs' where [simp]: "fs = f # fs'" using Cons.prems(3) by (cases fs) auto
  let ?s = "s\<lparr>socket_res := fs' @ srest, bind_res := replicate (length ps) 0 @ brest,
    listen_fds := listen_fds s @ [f], sockopts := sockopts s @ [(f, reuse_option)],
    bound := bound s @ [(f, Inet port)], loops := loops s @ [UdpLoop f]\<rparr>"
  have "init_udp_socket port s = (Ret (), ?s)"
    using Cons.prems by (simp add: init_udp_socket_def socket_calls co_bind_def co_seq_def)
  then show ?case
    using Cons.IH [of ?s fs'] Cons.prems by (simp add: co_seq_simps)
qed

definition discovers :: "('st, 'z) Server_scheme \<Rightarrow> bool" where
  "discovers s \<longleftrightarrow> discovery_enabled s \<and> broadcast_port (discovery_config s) \<noteq> 0"

definition announce_loops :: "('st, 'z) Server_scheme \<Rightarrow> loop list" where
  "announce_loops s = (if discovers s \<and> 0 < active_announce_if_idle (discovery_config s)
     then [AnnounceLoop (1000 * active_announce_if_idle (discovery_config s))] else [])"

lemma init_discovery_ok:
  assumes "socket_res s = cfs" "\<forall>f \<in> set cfs. 0 \<le> f" "length cfs = (if discovers s then 1 else 0)"
    and "bind_res s = map (\<lambda>_. 0) cfs"
  shows "\<exists>t. init_discovery s = (Ret (), t) \<and> running t = running s \<and> session_store t = session_store s \<and>
    authenticator t = authenticator s \<and> discovery_fd t = (if discovers s then hd cfs else discovery_fd s) \<and>
    bound t = bound s @ map (\<lambda>f. (f, Inet (broadcast_port (discovery_config s)))) cfs \<and>
    loops t = loops s @ map DiscoveryLoop cfs @ announce_loops s"
proof (cases "discovers s")
  case False
  with assms(3) show ?thesis by (auto simp: init_discovery_def discovers_def announce_loops_def)
next
  case True
  with assms(3) obtain f where "cfs = [f]" by (cases cfs) auto
  with True assms show ?thesis
    by (simp add: init_discovery_def discovers_def announce_loops_def socket_calls co_bind_def co_seq_def Let_def)
qed

text \<open>Socket options: what \<^verbatim>\<open>init\<close> sets on any socket.\<close>

definition options_set :: "'st deployment \<Rightarrow> bool" where
  "options_set s \<longleftrightarrow> (\<forall>(f, optname) \<in> set (sockopts s). optname \<in> {SO_REUSEPORT, SO_BROADCAST})"

lemma keeps_options:
  "keeps options_set (sys_socket m)" "keeps options_set (sys_bind f a m)" "keeps options_set (sys_listen m)"
  "keeps options_set (start_loop l)" "keeps options_set (sys_setsockopt f reuse_option)"
  "keeps options_set (sys_setsockopt f SO_BROADCAST)"
  "keeps options_set (\<lambda>s. (Ret (), s\<lparr>unlinked := h s\<rparr>))" "keeps options_set (\<lambda>s. (Ret (), s\<lparr>discovery_fd := f\<rparr>))"
  "keeps options_set init_periodic_tasks" "keeps options_set init_dbus"
  by (auto simp: keeps_def options_set_def socket_calls reuse_option_def SO_REUSEADDR_def SO_REUSEPORT_def
      init_periodic_tasks_def init_dbus_def split: list.split)

lemma keeps_options_sockets:
  "keeps options_set (init_tcp_sockets ps)" "keeps options_set (init_unix_sockets us)"
  "keeps options_set (init_udp_sockets qs)"
  "keeps options_set (init_discovery :: ('d deployment, unit) co)"
proof -
  show "keeps options_set (init_tcp_sockets ps)"
    by (induction ps rule: init_tcp_sockets.induct)
      (simp_all only: init_tcp_sockets.simps init_tcp_socket_def,
       (intro keeps_ret keeps_bind keeps_seq keeps_options | assumption)+)
  show "keeps options_set (init_unix_sockets us)"
    by (induction us rule: init_unix_sockets.induct)
      (simp_all only: init_unix_sockets.simps init_unix_socket_def,
       (intro keeps_ret keeps_bind keeps_seq keeps_options | assumption)+)
  show "keeps options_set (init_udp_sockets qs)"
    by (induction qs rule: init_udp_sockets.induct)
      (simp_all only: init_udp_sockets.simps init_udp_socket_def,
       (intro keeps_ret keeps_bind keeps_seq keeps_options | assumption)+)
  have disc: "keeps options_set (co_bind (sys_socket m) (\<lambda>f. co_seq (sys_setsockopt f reuse_option)
      (co_seq (sys_setsockopt f SO_BROADCAST) (co_seq (sys_bind f a m')
      (co_seq (\<lambda>s. (Ret (), s\<lparr>discovery_fd := f\<rparr>)) (co_seq (start_loop (DiscoveryLoop f))
      (if c then start_loop l else co_ret ())))))))" for m a m' c l
    by (cases c) (simp_all only: if_True if_False, (intro keeps_ret keeps_bind keeps_seq keeps_options)+)
  have "options_set (snd (init_discovery s))" if "options_set s" for s :: "'d deployment"
  proof (cases "\<not> discovery_enabled s \<or> broadcast_port (discovery_config s) = 0")
    case True
    with that show ?thesis by (simp add: init_discovery_def Let_def)
  next
    case False
    show ?thesis unfolding init_discovery_def Let_def if_not_P [OF False] by (rule keepsD [OF disc that])
  qed
  then show "keeps options_set (init_discovery :: ('d deployment, unit) co)" by (simp add: keeps_def)
qed

section \<open>Properties\<close>

text \<open>
  C31. Bringing the server up. When the socket calls succeed, \<^verbatim>\<open>init\<close> binds every configured
  port and path to a socket of its own and starts, in this order, one accept loop per stream
  listener with that listener's protocol, the periodic tasks, the bus loops, one loop per
  datagram port, and the discovery loop if discovery is on; afterwards the server is running
  and has a session store and an authenticator.
\<close>

theorem init_starts_everything:
  assumes "socket_res s = tfs @ ufs @ dfs @ cfs" "\<forall>f \<in> set (socket_res s). 0 \<le> f"
    and "length tfs = length (tcp_ports s)" "length ufs = length (unix_paths s)" "length dfs = length (udp_ports s)"
    and "length cfs = (if discovers s then 1 else 0)"
    and "bind_res s = replicate (length (tcp_ports s)) 0 @ replicate (length (unix_paths s)) 0 @
           replicate (length (udp_ports s)) 0 @ map (\<lambda>_. 0) cfs"
    and "listen_res s = replicate (length (tcp_ports s)) 0 @ replicate (length (unix_paths s)) 0"
  shows "\<exists>t. init s = (Ret (), t) \<and> running t \<and> session_store t \<noteq> None \<and> authenticator t \<noteq> None \<and>
    discovery_fd t = (if discovers s then hd cfs else discovery_fd s) \<and>
    bound t = bound s @ map2 (\<lambda>f (port, mode). (f, Inet port)) tfs (tcp_ports s) @
      map2 (\<lambda>f (path, mode). (f, UnixPath (sun_path path))) ufs (unix_paths s) @
      map2 (\<lambda>f port. (f, Inet port)) dfs (udp_ports s) @
      map (\<lambda>f. (f, Inet (broadcast_port (discovery_config s)))) cfs \<and>
    loops t = loops s @ map2 (\<lambda>f (port, mode). AcceptLoop f mode) tfs (tcp_ports s) @
      map2 (\<lambda>f (path, mode). AcceptLoop f mode) ufs (unix_paths s) @ map (TimerLoop \<circ> fst) (periodic_tasks s) @
      (if session_bus s then [BusLoop False] else []) @ (if system_bus s then [BusLoop True] else []) @
      map UdpLoop dfs @ map DiscoveryLoop cfs @ announce_loops s"
proof -
  define s0 where "s0 = (init_defaults s)\<lparr>running := True\<rparr>"
  have s0: "tcp_ports s0 = tcp_ports s" "unix_paths s0 = unix_paths s" "udp_ports s0 = udp_ports s" "running s0"
    "discovers s0 = discovers s" "announce_loops s0 = announce_loops s" "discovery_fd s0 = discovery_fd s"
    "discovery_config s0 = discovery_config s" "session_store s0 \<noteq> None"
    "authenticator s0 \<noteq> None" "socket_res s0 = socket_res s" "bind_res s0 = bind_res s"
    "listen_res s0 = listen_res s" "bound s0 = bound s" "loops s0 = loops s" "periodic_tasks s0 = periodic_tasks s"
    "session_bus s0 = session_bus s" "system_bus s0 = system_bus s"
    by (auto simp: s0_def init_defaults_def discovers_def announce_loops_def Let_def)
  let ?s1 = "s0\<lparr>socket_res := ufs @ dfs @ cfs,
     bind_res := replicate (length (unix_paths s)) 0 @ replicate (length (udp_ports s)) 0 @ map (\<lambda>_. 0) cfs,
     listen_res := replicate (length (unix_paths s)) 0, listen_fds := listen_fds s0 @ tfs,
     sockopts := sockopts s0 @ map (\<lambda>f. (f, reuse_option)) tfs,
     bound := bound s0 @ map2 (\<lambda>f (port, mode). (f, Inet port)) tfs (tcp_ports s),
     loops := loops s0 @ map2 (\<lambda>f (port, mode). AcceptLoop f mode) tfs (tcp_ports s)\<rparr>"
  have 1: "init_tcp_sockets (tcp_ports s) s0 = (Ret (), ?s1)"
    using init_tcp_sockets_ok [of s0 tfs "ufs @ dfs @ cfs" "tcp_ports s" _ _ "[]"] assms s0 by simp
  define s5 where "s5 = snd (co_seq (init_unix_sockets (unix_paths s)) (co_seq init_periodic_tasks
    (co_seq init_dbus (init_udp_sockets (udp_ports s)))) ?s1)"
  have 2: "co_seq (init_unix_sockets (unix_paths s)) (co_seq init_periodic_tasks
    (co_seq init_dbus (co_seq (init_udp_sockets (udp_ports s)) init_discovery))) ?s1 = init_discovery s5"
    and s5: "socket_res s5 = cfs" "bind_res s5 = map (\<lambda>_. 0) cfs" "running s5" "discovers s5 = discovers s"
    "announce_loops s5 = announce_loops s" "discovery_fd s5 = discovery_fd s" "discovery_config s5 = discovery_config s"
    "session_store s5 \<noteq> None" "authenticator s5 \<noteq> None"
    "bound s5 = bound s @ map2 (\<lambda>f (port, mode). (f, Inet port)) tfs (tcp_ports s) @
      map2 (\<lambda>f (path, mode). (f, UnixPath (sun_path path))) ufs (unix_paths s) @
      map2 (\<lambda>f port. (f, Inet port)) dfs (udp_ports s)"
    "loops s5 = loops s @ map2 (\<lambda>f (port, mode). AcceptLoop f mode) tfs (tcp_ports s) @
      map2 (\<lambda>f (path, mode). AcceptLoop f mode) ufs (unix_paths s) @ map (TimerLoop \<circ> fst) (periodic_tasks s) @
      (if session_bus s then [BusLoop False] else []) @ (if system_bus s then [BusLoop True] else []) @ map UdpLoop dfs"
    using init_unix_sockets_ok [of ?s1 ufs "dfs @ cfs" "unix_paths s" _ "[]"] assms s0
    by (simp_all add: s5_def co_seq_simps init_periodic_tasks_def init_dbus_def discovers_def announce_loops_def
        init_udp_sockets_ok [where fs = dfs and srest = cfs and brest = "map (\<lambda>_. 0) cfs"])
  have "init s = init_discovery s5"
    using 1 2 s0 by (simp add: init_def s0_def [symmetric] co_seq_simps)
  with init_discovery_ok [of s5 cfs] s5 assms show ?thesis by auto
qed

text \<open>
  A port that cannot be bound stops \<^verbatim>\<open>init\<close> with an exception that names it. The
  listeners of the ports before it are already running, and the socket made for it is not
  closed.
\<close>

theorem init_bind_failure:
  assumes "tcp_ports s = ps @ (port, mode) # qs" "length fs = length ps" "\<forall>f \<in> set fs. 0 \<le> f"
    and "socket_res s = fs @ f # srest" "0 \<le> f" "bind_res s = replicate (length ps) 0 @ r # brest" "r < 0"
    and "listen_res s = replicate (length ps) 0 @ lrest"
  shows "\<exists>t. init s = (Throw (RuntimeError (''bind() failed on TCP port '' @ show_nat (unat port))), t) \<and>
    listen_fds t = listen_fds s @ fs @ [f] \<and>
    bound t = bound s @ map2 (\<lambda>f (port, mode). (f, Inet port)) fs ps \<and>
    loops t = loops s @ map2 (\<lambda>f (port, mode). AcceptLoop f mode) fs ps"
proof -
  define s0 where "s0 = (init_defaults s)\<lparr>running := True\<rparr>"
  have s0: "tcp_ports s0 = tcp_ports s" "socket_res s0 = socket_res s" "bind_res s0 = bind_res s"
    "listen_res s0 = listen_res s" "bound s0 = bound s" "loops s0 = loops s" "listen_fds s0 = listen_fds s"
    by (auto simp: s0_def init_defaults_def Let_def)
  have "init_tcp_sockets (tcp_ports s) s0 = init_tcp_sockets ((port, mode) # qs)
    (s0\<lparr>socket_res := f # srest, bind_res := r # brest, listen_res := lrest, listen_fds := listen_fds s0 @ fs,
       sockopts := sockopts s0 @ map (\<lambda>f. (f, reuse_option)) fs,
       bound := bound s0 @ map2 (\<lambda>f (port, mode). (f, Inet port)) fs ps,
       loops := loops s0 @ map2 (\<lambda>f (port, mode). AcceptLoop f mode) fs ps\<rparr>)"
    unfolding assms(1) by (rule init_tcp_sockets_ok) (use assms s0 in auto)
  then show ?thesis
    using assms s0
    by (simp add: init_def s0_def [symmetric] co_seq_def co_bind_def init_tcp_socket_def socket_calls)
qed

text \<open>
  Address reuse is never switched on. The option names are combined with a bitwise or,
  which yields the number of the port-reuse option; no run of \<^verbatim>\<open>init\<close>, however it ends,
  sets \<^verbatim>\<open>SO_REUSEADDR\<close> on any socket.
\<close>

theorem reuseaddr_never_set:
  assumes "sockopts s = []"
  shows "\<forall>(f, optname) \<in> set (sockopts (snd (init s))). optname \<noteq> SO_REUSEADDR"
proof -
  define s0 where "s0 = (init_defaults s)\<lparr>running := True\<rparr>"
  have "options_set s0" using assms by (simp add: options_set_def s0_def init_defaults_def Let_def)
  then have "options_set (snd (init s))"
    unfolding init_def s0_def [symmetric] Let_def
    by (rule keepsD [rotated]) (intro keeps_seq keeps_options keeps_options_sockets)
  then show ?thesis
    by (auto simp: options_set_def SO_REUSEADDR_def SO_REUSEPORT_def SO_BROADCAST_def)
qed

text \<open>
  Timers. The kernel timespec of a non-negative interval is normalised and stands for
  exactly that many milliseconds; an expired timer runs its task, and a task that throws a
  standard exception does not stop the timer.
\<close>

theorem timer_interval_and_survival:
  assumes "0 \<le> ms" "task s = (r, t)" "r = Ret () \<or> r = Throw e \<and> is_std_exception e"
  shows "fst (timespec_of ms) * 1000000000 + snd (timespec_of ms) = ms * 1000000 \<and>
    0 \<le> snd (timespec_of ms) \<and> snd (timespec_of ms) < 1000000000 \<and>
    timer_turn task (- ETIME) s = (True, t)"
proof -
  have "timespec_of ms = (ms div 1000, (ms mod 1000) * 1000000)"
    using assms(1) by (simp add: timespec_of_def signed_divide_int_def signed_modulo_int_def sgn_if)
  moreover have "timer_turn task (- ETIME) s = (True, t)"
    using assms(2,3) by (auto simp: timer_turn_def await_resume_def)
  moreover have "ms div 1000 * 1000000000 + ms mod 1000 * 1000000 = ms * 1000000"
    using div_mult_mod_eq [of ms 1000] by linarith
  ultimately show ?thesis by simp
qed

text \<open>A bus turn ends once there is nothing more to process.\<close>

lemma bus_process_all_ends:
  assumes "\<forall>i < n. 0 < fst (process (((snd \<circ> process) ^^ i) b))" "fst (process (((snd \<circ> process) ^^ n) b)) \<le> 0"
  shows "bus_process_all process b = Some (((snd \<circ> process) ^^ Suc n) b)"
  using assms
proof (induction n arbitrary: b)
  case 0
  then show ?case by (subst bus_process_all.simps) (simp add: case_prod_beta)
next
  case (Suc n)
  have "bus_process_all process (snd (process b)) = Some (((snd \<circ> process) ^^ Suc n) (snd (process b)))"
  proof (rule Suc.IH)
    show "\<forall>i < n. 0 < fst (process (((snd \<circ> process) ^^ i) (snd (process b))))"
      using Suc.prems(1) by (metis Suc_less_eq comp_apply funpow_Suc_right)
    show "fst (process (((snd \<circ> process) ^^ n) (snd (process b)))) \<le> 0"
      using Suc.prems(2) by (metis comp_apply funpow_Suc_right)
  qed
  moreover have "0 < fst (process b)" using Suc.prems(1) [rule_format, of 0] by simp
  ultimately show ?case by (subst bus_process_all.simps) (simp add: case_prod_beta funpow_swap1)
qed

end
