(* ===== verification/App_Main.thy ===== *)
theory App_Main
  imports Engine_Properties Lifecycle
begin

text \<open>
  \<^verbatim>\<open>app/main.cpp\<close>: the example application, with its two commands, its listeners and the
  periodic alert; and a concrete library parameter for evaluating the crypto layer.
\<close>

section \<open>The application\<close>

definition CMD_PING :: u16 where "CMD_PING = 0x01"
definition CMD_LOGIN :: u16 where "CMD_LOGIN = 0x02"
definition CMD_SYS_ALERT :: u16 where "CMD_SYS_ALERT = 0x99"

fun transport_code :: "TransportType \<Rightarrow> nat" where
  "transport_code ANY = 0"
| "transport_code TCP = 1"
| "transport_code UDP = 2"
| "transport_code UNIX = 3"

definition ping_handler :: "(Context, ResponseFrame) co" where
  "ping_handler ctx =
     co_ret \<lparr>rf_flags = 0, rf_payload = bytes_of_string
       (''PONG! From transport ID '' @ show_nat (transport_code (current_transport ctx)))\<rparr> ctx"

definition login_handler :: "(Context, ResponseFrame) co" where
  "login_handler ctx =
     co_ret \<lparr>rf_flags = 0, rf_payload = []\<rparr>
       (ctx\<lparr>ctx_session := set_authenticated True ''SuperAdmin'' (ctx_session ctx)\<rparr>)"

definition fresh_server :: "botan \<Rightarrow> session_map system" where
  "fresh_server B =
     \<lparr>router = empty_router, session_store = None, store_state = Map.empty, authenticator = None,
      tcp_ports = [], udp_ports = [], unix_paths = [], discovery_config = default_discovery,
      discovery_enabled = False, disconnect_handler = None, max_clients = 0, discovery_fd = - 1,
      text_command_names = Map.empty, thread_pool = None, botan_lib = B,
      running = False, sessions = [], active_connections = 0, conns = Map.empty, open_fds = {},
      kernel = \<lparr>rx = (\<lambda>_. []), dgrams = (\<lambda>_. []), tx_res = [], tx_log = [],
                getrandom_src = [], privkey_src = []\<rparr>,
      disconnects = []\<rparr>"

definition app_configured :: "botan \<Rightarrow> session_map system" where
  "app_configured B =
     (let s1 = enable_unix_socket ''/tmp/servd_test.sock'' BINARY
                 (enable_udp 8081 (enable_tcp 8080 BINARY (fresh_server B)));
          s2 = add_command CMD_PING (Some ping_handler) s1;
          s3 = add_command CMD_LOGIN (Some login_handler) s2
      in s3\<lparr>router := at_endpoint CMD_LOGIN tcp_only (router s3)\<rparr>)"

text \<open>\<^verbatim>\<open>app.init()\<close> as far as the clients are concerned: the defaults, then running.\<close>

definition app_running :: "botan \<Rightarrow> session_map system" where
  "app_running B = (init_defaults (app_configured B))\<lparr>running := True\<rparr>"

definition system_alert :: "(session_map system, unit) co" where
  "system_alert = broadcast_if CMD_SYS_ALERT (bytes_of_string ''System alert: All is well!'')
     (\<lambda>s. Inr (is_authenticated s))"

text \<open>The whole of \<^verbatim>\<open>main\<close> up to \<^verbatim>\<open>app.init()\<close>, with the periodic alert.\<close>

definition add_periodic_task :: "int \<Rightarrow> ('st system, unit) co \<Rightarrow> 'st deployment \<Rightarrow> 'st deployment" where
  "add_periodic_task interval task s = s\<lparr>periodic_tasks := periodic_tasks s @ [(interval, task)]\<rparr>"

definition deploy :: "'st system \<Rightarrow> 'st deployment" where
  "deploy s = system.extend s (deployment.fields [] False False [] [] [] [] [] [] [] [])"

definition app_main :: "botan \<Rightarrow> session_map deployment" where
  "app_main B = add_periodic_task 10000 system_alert (deploy (app_configured B))"

lemma app_router:
  "router_get CMD_PING (router (app_running B)) =
     Some \<lparr>handler = Some ping_handler, requires_auth = False, allowed_transport = ANY\<rparr>"
  "router_get CMD_LOGIN (router (app_running B)) =
     Some \<lparr>handler = Some login_handler, requires_auth = False, allowed_transport = TCP\<rparr>"
  by (simp_all add: app_running_def app_configured_def init_defaults_def fresh_server_def Let_def
      enable_unix_socket_def enable_udp_def enable_tcp_def add_command_def router_get_def
      router_add_def at_endpoint_def tcp_only_def CMD_PING_def CMD_LOGIN_def is_valid_def
      empty_router_def)

section \<open>A concrete library parameter\<close>

text \<open>
  No cipher, only the interface: the tag is sixteen zero bytes, the key agreement a
  bytewise exclusive or. It satisfies every hypothesis the crypto layer states.
\<close>

definition null_botan :: botan where
  "null_botan =
     \<lparr>gcm_available = True,
      gcm_finish_enc = (\<lambda>k n u p. p @ replicate 16 0),
      gcm_finish_dec = (\<lambda>k n u c.
        if 16 \<le> length c \<and> drop (length c - 16) c = replicate 16 0 then Some (take (length c - 16) c) else None),
      x25519_public = to_key,
      x25519_agree = (\<lambda>a b. Some (map2 (XOR) (to_key a) (to_key b)))\<rparr>"

lemma null_botan_ok: "gcm_ok null_botan" "x25519_sizes null_botan" "x25519_commutes null_botan"
proof -
  show "gcm_ok null_botan"
    by (simp add: gcm_ok_def null_botan_def gcm_tag_appended_def gcm_decrypts_def)
  show "x25519_sizes null_botan" by (auto simp: x25519_sizes_def null_botan_def)
  have "map2 (XOR) (to_key a) (to_key b) = map2 (XOR) (to_key b) (to_key a)" for a b
    by (rule nth_equalityI) (auto simp: xor.commute)
  then show "x25519_commutes null_botan" by (simp add: x25519_commutes_def null_botan_def)
qed

end
