(* ===== verification/Delivery_Properties.thy ===== *)
theory Delivery_Properties
  imports App_Main
begin

text \<open>
  What reaches the network: messages the server sends on its own account, datagram
  requests, discovery, and the example application.
\<close>

section \<open>Messages to sessions\<close>

text \<open>
  A broadcast writes one frame to every registered session, addressed with that
  session's own id, if every write succeeds; nothing else changes.
\<close>

theorem broadcast_reaches_every_session:
  assumes "tx_res (kernel s) = rs @ rest" "length rs = length (sessions s)" "\<forall>r \<in> set rs. 0 \<le> r"
  shows "broadcast cmd payload s =
    (Ret (), s\<lparr>kernel := (kernel s)\<lparr>tx_res := rest,
       tx_log := tx_log (kernel s) @ deliveries cmd payload (sessions s) rs\<rparr>\<rparr>)"
  using broadcast_loop_ok [OF assms]
  by (simp add: broadcast_def do_broadcast_def on_kernel_def)

text \<open>
  A broadcast stops at the first write that fails: the sessions behind it get nothing
  and the caller sees the error.
\<close>

theorem broadcast_stops_at_failed_send:
  assumes "tx_res (kernel s) = rs @ r # rest" "length rs < length (sessions s)"
    and "\<forall>x \<in> set rs. 0 \<le> x" "r < 0" "r \<noteq> - ETIME"
  shows "broadcast cmd payload s =
    (Throw (SystemError (- r)), s\<lparr>kernel := (kernel s)\<lparr>tx_res := rest,
       tx_log := tx_log (kernel s) @ deliveries cmd payload (take (length rs) (sessions s)) rs\<rparr>\<rparr>)"
  using broadcast_loop_fails [OF assms]
  by (simp add: broadcast_def do_broadcast_def on_kernel_def)

text \<open>
  \<^verbatim>\<open>send_to\<close> writes exactly one frame, to the descriptor registered for the session,
  and does nothing for a session that is not registered.
\<close>

theorem send_to_registered:
  assumes "tx_res (kernel s) = r # rs" "0 \<le> r"
  shows "send_to sid cmd payload s =
    (case map_of (sessions s) sid of
       None \<Rightarrow> (Ret (), s)
     | Some f \<Rightarrow> (Ret (), s\<lparr>kernel := (kernel s)\<lparr>tx_res := rs,
         tx_log := tx_log (kernel s) @ [Sent f (take (nat r) (push_buffer sid cmd payload))]\<rparr>\<rparr>))"
  using assms
  by (simp add: send_to_def send_to_session_def on_kernel_def co_seq_simps async_write_ok split: option.split)

text \<open>
  C36. A conditional broadcast over the in-memory store writes to exactly those registered
  sessions whose stored session satisfies the predicate, and asking changes no session.
\<close>

theorem broadcast_if_selects:
  assumes "im_invar (store_state s)" "session_store s = Some InMemorySessionStore"
    and "tx_res (kernel s) = rs @ rest" "\<forall>r \<in> set rs. 0 \<le> r"
    and "length rs = length (filter (\<lambda>(sid, f). P (im_mem (store_state s) sid)) (sessions s))"
  shows "\<exists>st. broadcast_if cmd payload (\<lambda>x. Inr (P x)) s =
      (Ret (), s\<lparr>store_state := st, kernel := (kernel s)\<lparr>tx_res := rest,
         tx_log := tx_log (kernel s) @ deliveries cmd payload
           (filter (\<lambda>(sid, f). P (im_mem (store_state s) sid)) (sessions s)) rs\<rparr>\<rparr>) \<and>
    im_mem st = im_mem (store_state s)"
  using im_store.broadcast_if_loop_ok [of s rs rest P "sessions s" cmd payload] assms
  by (auto simp: broadcast_if_def do_broadcast_if_def im_store.chosen_def)

section \<open>Datagram requests\<close>

lemma udp_turn_dgram:
  assumes "dgrams (kernel s) f = Dgram bs addr # q" "length bs \<le> UDP_BUFFER" "length buffer = UDP_BUFFER"
    and "w = (kernel s)\<lparr>dgrams := (dgrams (kernel s))(f := q)\<rparr>"
  shows "async_recvmsg f UDP_BUFFER (kernel s) = (Ret (length bs, bs, addr), w)"
  using assms recvmsg_dgram [of "kernel s" f bs addr q UDP_BUFFER] by (simp add: UDP_BUFFER_def)

text \<open>
  C29. Datagrams do not mix. The receive buffer is shared by all datagrams of a socket and
  is never cleared, yet what a turn does (whether the loop goes on, session, store, reply)
  depends only on the datagram just received and not on what earlier ones left behind.
\<close>

theorem udp_turn_ignores_stale_buffer:
  assumes "dgrams (kernel s) f = Dgram bs addr # q" "length bs \<le> UDP_BUFFER"
    and "length buffer = UDP_BUFFER" "length buffer' = UDP_BUFFER"
  shows "fst (udp_turn f buffer s) = fst (udp_turn f buffer' s) \<and>
    snd (snd (udp_turn f buffer s)) = snd (snd (udp_turn f buffer' s))"
proof (cases "length bs < sizeof_FrameHeader")
  case True
  with udp_turn_dgram [OF assms(1,2,3) refl] show ?thesis by (simp add: udp_turn_def Let_def)
next
  case False
  have "udp_request (overwrite buffer 0 bs) (length bs) = udp_request (overwrite buffer' 0 bs) (length bs)"
    using False assms by (intro udp_request_prefix) (auto simp: overwrite_take UDP_BUFFER_def)
  with udp_turn_dgram [OF assms(1,2,3) refl] False show ?thesis
    by (simp add: udp_turn_def Let_def split: option.split prod.split outcome.split)
qed



text \<open>A datagram shorter than a frame header is consumed and has no other effect.\<close>

theorem udp_short_datagram_ignored:
  assumes "dgrams (kernel s) f = Dgram bs addr # q" "length bs < 16" "length buffer = UDP_BUFFER"
  shows "\<exists>buf. udp_turn f buffer s = (True, buf,
    s\<lparr>kernel := (kernel s)\<lparr>dgrams := (dgrams (kernel s))(f := q)\<rparr>\<rparr>) \<and> length buf = UDP_BUFFER"
proof -
  have le: "length bs \<le> UDP_BUFFER" using assms(2) by (simp add: UDP_BUFFER_def)
  then have "length (overwrite buffer 0 bs) = UDP_BUFFER" using assms(3) by (simp add: overwrite_def)
  then show ?thesis
    using udp_turn_dgram [OF assms(1) le assms(3) refl] assms(2)
    by (simp add: udp_turn_def Let_def sizeof_FrameHeader_def)
qed

section \<open>Discovery\<close>



text \<open>
  The server announces itself only while nobody is connected and discovery is enabled,
  and then sends one announcement to the broadcast address on the configured port.
\<close>

theorem announces_only_when_idle:
  assumes "tx_res (kernel s) = r # rs" "0 \<le> r"
  shows "announce_if_idle s = (Ret (),
    if active_connections s = 0 \<and> 0 \<le> discovery_fd s \<and> discovery_enabled s
    then s\<lparr>kernel := (kernel s)\<lparr>tx_res := rs, tx_log := tx_log (kernel s) @
      [SentTo (discovery_fd s) (take (nat r) (discovery_bytes (announcement s)))
         (broadcast_sockaddr (broadcast_port (discovery_config s)))]\<rparr>\<rparr>
    else s)"
  using assms
  by (auto simp: announce_if_idle_def on_kernel_def co_seq_simps async_sendto_def word_gt_0)

section \<open>The example application\<close>

lemma app_pipeline:
  "pl_router (pipeline_of (app_running B)) = router (app_running B)"
  "pl_authenticator (pipeline_of (app_running B)) = DefaultAuthenticator"
  "pl_botan (pipeline_of (app_running B)) = B"
  by (simp_all add: pipeline_of_def app_running_def app_configured_def fresh_server_def init_defaults_def
      Let_def enable_unix_socket_def enable_udp_def enable_tcp_def add_command_def)

text \<open>
  The application's login is reachable over stream connections only: a login command
  that arrives in a datagram changes neither the session nor the world.
\<close>

theorem app_login_not_over_udp:
  "process_command (pipeline_of (app_running B))
     \<lparr>cf_header = mk_header CMD_LOGIN fl n sid, cf_payload = p\<rparr> (UringUdpConnection f addr) (s, w) =
   (Ret (), (s, w))"
proof -
  have "\<not> reserved CMD_LOGIN" by (simp add: reserved_def CMD_LOGIN_def CMD_KEY_EXCHANGE_def CMD_ENCRYPTED_MESSAGE_def)
  then show ?thesis
    by (simp add: process_command_normal handle_normal_command_def app_pipeline app_router with_context_def
        gate_default co_bind_def transport_ok_def)
qed

end
