(* ===== verification/Encrypted_Equivalence.thy ===== *)
theory Encrypted_Equivalence
  imports Pipeline_Properties
begin

text \<open>
  The plain and the encrypted path of \<^verbatim>\<open>CommandRoute.cpp\<close> and \<^verbatim>\<open>EncryptedHandler.cpp\<close>
  compared: both look the command up, ask the gate and call the handler in the same way, and
  differ only in how the reply is written.
\<close>

section \<open>The common part and the two replies\<close>

text \<open>From the request to the response of the handler, if there is one.\<close>

definition run_command :: "pipeline \<Rightarrow> ClientFrame \<Rightarrow> IConnection \<Rightarrow> (request_state, ResponseFrame option) co" where
  "run_command pl frame conn =
     (case router_get (command_id (cf_header frame)) (pl_router pl) of
        None \<Rightarrow> co_ret None
      | Some ep \<Rightarrow>
          with_context (cf_header frame) (cf_payload frame) conn
            (co_bind (gate (pl_authenticator pl) ep conn) (\<lambda>ok.
             if \<not> ok then co_ret None else co_bind (invoke ep) (\<lambda>resp. co_ret (Some resp)))))"

definition plain_reply :: "IConnection \<Rightarrow> u16 \<Rightarrow> ResponseFrame \<Rightarrow> (request_state, unit) co" where
  "plain_reply conn cmd resp = (\<lambda>(s, w).
     on_world (send_frame conn (mk_header cmd (rf_flags resp) (of_nat (length (rf_payload resp))) (sess_id s))
       (rf_payload resp)) (s, w))"

definition sealed_reply :: "botan \<Rightarrow> AesGcm \<Rightarrow> IConnection \<Rightarrow> u16 \<Rightarrow> ResponseFrame \<Rightarrow> (request_state, unit) co" where
  "sealed_reply B cipher conn cmd resp =
     co_bind (on_world (gen NONCE_SIZE)) (\<lambda>iv.
     co_bind (co_of_sum (encrypt B cipher (le_bytes 2 cmd @ rf_payload resp) [] iv)) (\<lambda>enc. \<lambda>(s, w).
       let out = seal_layout iv enc in
       on_world (send_frame conn
         (mk_header CMD_ENCRYPTED_MESSAGE (rf_flags resp) (of_nat (length out)) (sess_id s)) out) (s, w)))"

definition answering :: "(ResponseFrame \<Rightarrow> (request_state, unit) co) \<Rightarrow> ResponseFrame option \<Rightarrow> (request_state, unit) co" where
  "answering reply r = (case r of None \<Rightarrow> co_ret () | Some resp \<Rightarrow> reply resp)"

text \<open>The plain frame that asks for the same as a sealed command of the session.\<close>

definition opened_frame :: "u16 \<Rightarrow> bytes \<Rightarrow> u64 \<Rightarrow> ClientFrame" where
  "opened_frame cmd p sid = \<lparr>cf_header = mk_header cmd 0 (of_nat (length p)) sid, cf_payload = p\<rparr>"

section \<open>Leaving the context\<close>

text \<open>A computation in a context that does to session and world what another does outside.\<close>

definition mirrors :: "(Context, 'a) co \<Rightarrow> (request_state, 'a) co \<Rightarrow> bool" where
  "mirrors mc mr \<longleftrightarrow> (\<forall>ctx. fst (mc ctx) = fst (mr (ctx_session ctx, ctx_world ctx)) \<and>
     (ctx_session (snd (mc ctx)), ctx_world (snd (mc ctx))) = snd (mr (ctx_session ctx, ctx_world ctx)))"

lemma mirrors_ret: "mirrors (co_ret a) (co_ret a)"
  by (simp add: mirrors_def)

lemma mirrors_of_sum: "mirrors (co_of_sum r) (co_of_sum r)"
  by (simp add: mirrors_def co_of_sum_def split: sum.split)

lemma mirrors_world: "mirrors (in_world m) (on_world m)"
  by (simp add: mirrors_def in_world_def on_world_def split: prod.split)

lemma mirrors_world_at: "mirrors (\<lambda>ctx. in_world (m (ctx_session ctx)) ctx) (\<lambda>(s, w). on_world (m s) (s, w))"
  by (simp add: mirrors_def in_world_def on_world_def split: prod.split)

lemma mirrors_bind:
  assumes "mirrors mc mr" "\<And>a. mirrors (fc a) (fr a)"
  shows "mirrors (co_bind mc fc) (co_bind mr fr)"
  unfolding mirrors_def
proof
  fix ctx :: Context
  let ?r = "mr (ctx_session ctx, ctx_world ctx)"
  have m: "fst (mc ctx) = fst ?r" "snd ?r = (ctx_session (snd (mc ctx)), ctx_world (snd (mc ctx)))"
    using assms(1) unfolding mirrors_def by (metis, metis)
  show "fst (co_bind mc fc ctx) = fst (co_bind mr fr (ctx_session ctx, ctx_world ctx)) \<and>
      (ctx_session (snd (co_bind mc fc ctx)), ctx_world (snd (co_bind mc fc ctx))) =
        snd (co_bind mr fr (ctx_session ctx, ctx_world ctx))"
  proof (cases "fst ?r")
    case (Ret a)
    with m assms(2) [of a] show ?thesis
      unfolding mirrors_def by (simp add: co_bind_def split_beta)
  qed (use m in \<open>simp_all add: co_bind_def split_beta\<close>)
qed

lemma with_context_bind:
  assumes "\<And>a. mirrors (fc a) (fr a)"
  shows "with_context h p conn (co_bind m fc) = co_bind (with_context h p conn m) fr"
proof
  fix st :: request_state
  obtain s w where st: "st = (s, w)" by fastforce
  obtain r ctx where m: "m (mk_context h p s conn w) = (r, ctx)" by fastforce
  show "with_context h p conn (co_bind m fc) st = co_bind (with_context h p conn m) fr st"
  proof (cases r)
    case (Ret a)
    have "fst (fc a ctx) = fst (fr a (ctx_session ctx, ctx_world ctx)) \<and>
        (ctx_session (snd (fc a ctx)), ctx_world (snd (fc a ctx))) = snd (fr a (ctx_session ctx, ctx_world ctx))"
      using assms [of a] unfolding mirrors_def by blast
    with Ret m st show ?thesis
      by (simp add: with_context_def co_bind_def split_beta Let_def prod_eq_iff)
  qed (use m st in \<open>simp_all add: with_context_def co_bind_def\<close>)
qed

lemma gated_bind:
  "co_bind g (\<lambda>ok. if \<not> ok then co_ret () else co_bind i f) =
     co_bind (co_bind g (\<lambda>ok. if \<not> ok then co_ret None else co_bind i (\<lambda>resp. co_ret (Some resp))))
       (\<lambda>r. case r of None \<Rightarrow> co_ret () | Some resp \<Rightarrow> f resp)"
  by (rule ext) (simp add: co_bind_def split: prod.split outcome.split)

section \<open>The two paths\<close>

lemma normal_splits:
  "handle_normal_command pl frame conn =
     co_bind (run_command pl frame conn) (answering (plain_reply conn (command_id (cf_header frame))))"
proof (cases "router_get (command_id (cf_header frame)) (pl_router pl)")
  case None
  then show ?thesis by (simp add: handle_normal_command_def run_command_def answering_def fun_eq_iff)
next
  case (Some ep)
  let ?f = "\<lambda>resp ctx. in_world (send_frame conn
      (mk_header (command_id (cf_header frame)) (rf_flags resp) (of_nat (length (rf_payload resp))) (sess_id (ctx_session ctx)))
      (rf_payload resp)) ctx"
  have "mirrors (case r of None \<Rightarrow> co_ret () | Some resp \<Rightarrow> ?f resp)
      (answering (plain_reply conn (command_id (cf_header frame))) r)" for r
    using mirrors_ret mirrors_world_at
    by (cases r) (simp_all add: answering_def plain_reply_def)
  with Some show ?thesis
    by (simp add: handle_normal_command_def run_command_def gated_bind with_context_bind)
qed

lemma routed_splits:
  "do_route_and_send pl conn cipher cmd p (s, w) =
     co_bind (run_command pl (opened_frame cmd p (sess_id s)) conn)
       (answering (sealed_reply (pl_botan pl) cipher conn cmd)) (s, w)"
proof (cases "router_get cmd (pl_router pl)")
  case None
  then show ?thesis by (simp add: do_route_and_send_def run_command_def answering_def opened_frame_def)
next
  case (Some ep)
  let ?f = "\<lambda>resp.
      co_bind (in_world (gen NONCE_SIZE)) (\<lambda>iv_out.
      co_bind (co_of_sum (encrypt (pl_botan pl) cipher (le_bytes 2 cmd @ rf_payload resp) [] iv_out)) (\<lambda>enc. \<lambda>ctx.
        in_world (send_frame conn
          (mk_header CMD_ENCRYPTED_MESSAGE (rf_flags resp) (of_nat (length (seal_layout iv_out enc)))
            (sess_id (ctx_session ctx))) (seal_layout iv_out enc)) ctx))"
  have "mirrors (?f resp) (sealed_reply (pl_botan pl) cipher conn cmd resp)" for resp
    unfolding sealed_reply_def Let_def
    by (intro mirrors_bind mirrors_world mirrors_of_sum mirrors_world_at)
  then have "mirrors (case r of None \<Rightarrow> co_ret () | Some resp \<Rightarrow> ?f resp)
      (answering (sealed_reply (pl_botan pl) cipher conn cmd) r)" for r
    using mirrors_ret by (cases r) (simp_all add: answering_def)
  note wb = with_context_bind [where fc = "case_option (co_ret ()) ?f"
      and fr = "answering (sealed_reply (pl_botan pl) cipher conn cmd)", OF this]
  show ?thesis
    using Some by (simp add: do_route_and_send_def run_command_def opened_frame_def Let_def gated_bind wb)
qed

section \<open>Properties\<close>

text \<open>
  C21. Encryption is transparent to commands. A sealed message that opens under the session's key
  to a command and the plain frame with that command, payload and session run the same lookup,
  the same gate and the same handler, with the same effects on session and world whatever those
  do (answer, refuse, throw or wait); only when there is a response do they differ, in that it
  is sent sealed for the one and plain for the other.
\<close>

theorem encryption_is_transparent:
  assumes "command_id (cf_header frame) = CMD_ENCRYPTED_MESSAGE"
    and "do_decrypt (pl_botan pl) (cf_payload frame) s = Inr (Some (cipher, cmd, p))" "\<not> reserved cmd"
  shows "process_command pl frame conn (s, w) =
      co_bind (run_command pl (opened_frame cmd p (sess_id s)) conn)
        (answering (sealed_reply (pl_botan pl) cipher conn cmd)) (s, w) \<and>
    process_command pl (opened_frame cmd p (sess_id s)) conn (s, w) =
      co_bind (run_command pl (opened_frame cmd p (sess_id s)) conn)
        (answering (plain_reply conn cmd)) (s, w)"
proof
  show "process_command pl frame conn (s, w) =
      co_bind (run_command pl (opened_frame cmd p (sess_id s)) conn)
        (answering (sealed_reply (pl_botan pl) cipher conn cmd)) (s, w)"
    using assms(1,2) by (simp add: process_command_encrypted handle_encrypted_message_def routed_splits)
  show "process_command pl (opened_frame cmd p (sess_id s)) conn (s, w) =
      co_bind (run_command pl (opened_frame cmd p (sess_id s)) conn) (answering (plain_reply conn cmd)) (s, w)"
    using assms(3) by (simp add: process_command_normal normal_splits opened_frame_def)
qed

end
