(* ===== verification/Event_Loop.thy ===== *)
theory Event_Loop
  imports Uring_IO "HOL-Library.Multiset"
begin

text \<open>
  \<^verbatim>\<open>EngineCore.cpp\<close> and \<^verbatim>\<open>UringOperation\<close> of \<^verbatim>\<open>detail/Engine.hpp\<close>: the event loop and
  the posting of coroutines from other threads. Operations live at addresses; the ring's
  user data is such an address. \<^verbatim>\<open>post_coroutine\<close> and \<^verbatim>\<open>drain_pending_posts\<close> hold
  \<^verbatim>\<open>sqe_mutex_\<close> from beginning to end, so each is one atomic action of the interleaving.
\<close>

section \<open>State\<close>

record 'c UringOperation =
  op_coroutine :: 'c
  cqe_res :: int
  op_owned :: bool

text \<open>
  \<open>sq_room\<close> are the answers \<^verbatim>\<open>io_uring_get_sqe\<close> is going to give (\<open>True\<close>: an entry is
  free). \<open>in_flight\<close> are the submitted operations, \<open>resumed\<close> and \<open>freed\<close> record what
  the loop did, and \<open>posted\<close> what was handed to \<^verbatim>\<open>post_coroutine\<close>.
\<close>

record 'c ring =
  lp_running :: bool
  g_signal_received :: bool
  heap :: "nat \<rightharpoonup> 'c UringOperation"
  next_addr :: nat
  in_flight :: "nat list"
  pending_posts :: "nat list"
  sq_room :: "bool list"
  posted :: "'c list"
  resumed :: "('c \<times> int \<times> bool) list"
  freed :: "nat list"

definition io_uring_get_sqe :: "'c ring \<Rightarrow> bool \<times> 'c ring" where
  "io_uring_get_sqe s =
     (case sq_room s of [] \<Rightarrow> (False, s) | b # bs \<Rightarrow> (b, s\<lparr>sq_room := bs\<rparr>))"

definition new_op :: "'c \<Rightarrow> bool \<Rightarrow> 'c ring \<Rightarrow> nat \<times> 'c ring" where
  "new_op c ow s =
     (next_addr s, s\<lparr>heap := (heap s)(next_addr s \<mapsto> \<lparr>op_coroutine = c, cqe_res = 0, op_owned = ow\<rparr>),
                     next_addr := Suc (next_addr s)\<rparr>)"

definition submit :: "nat \<Rightarrow> 'c ring \<Rightarrow> 'c ring" where
  "submit a s = s\<lparr>in_flight := in_flight s @ [a]\<rparr>"

section \<open>Operations\<close>

text \<open>
  An asynchronous operation of a coroutine \<open>c\<close>: the \<^verbatim>\<open>UringOperation\<close> is a local of the
  coroutine. The code does not check that a submission entry was free, so the interleavings
  below let a coroutine do this only when one is.
\<close>

definition async_submit :: "'c \<Rightarrow> 'c ring \<Rightarrow> 'c ring" where
  "async_submit c s =
     (let (a, s1) = new_op c False s; (_, s2) = io_uring_get_sqe s1 in submit a s2)"

definition post_coroutine :: "'c \<Rightarrow> 'c ring \<Rightarrow> 'c ring" where
  "post_coroutine h s =
     (let (a, s1) = new_op h True (s\<lparr>posted := posted s @ [h]\<rparr>);
          (sqe, s2) = io_uring_get_sqe s1 in
      if \<not> sqe then s2\<lparr>pending_posts := pending_posts s2 @ [a]\<rparr> else submit a s2)"

function drain_pending_posts :: "'c ring \<Rightarrow> 'c ring" where
  "drain_pending_posts s =
     (case pending_posts s of
        [] \<Rightarrow> s
      | a # rest \<Rightarrow>
          (let (sqe, s1) = io_uring_get_sqe s in
           if \<not> sqe then s1 else drain_pending_posts (submit a (s1\<lparr>pending_posts := rest\<rparr>))))"
  by pat_completeness auto
termination
  by (relation "measure (\<lambda>s. length (pending_posts s))")
    (auto simp: submit_def io_uring_get_sqe_def split: list.splits)

declare drain_pending_posts.simps [simp del]

text \<open>
  A completion: the coroutine is resumed with the result and the operation is deleted if the
  loop owns it; otherwise it ends with the coroutine's \<^verbatim>\<open>co_await\<close>. What the resumed
  coroutine does next are further actions.
\<close>

definition dispatch :: "nat \<Rightarrow> int \<Rightarrow> 'c ring \<Rightarrow> 'c ring" where
  "dispatch a res s =
     (case heap s a of
        None \<Rightarrow> s
      | Some opn \<Rightarrow>
          s\<lparr>resumed := resumed s @ [(op_coroutine opn, res, op_owned opn)],
            freed := (if op_owned opn then freed s @ [a] else freed s),
            heap := (heap s)(a := None), in_flight := remove1 a (in_flight s)\<rparr>)"

text \<open>
  What \<^verbatim>\<open>io_uring_wait_cqe\<close> yields: an interrupted wait, or the completion of an operation.
\<close>

datatype wait_result = WaitError | Cqe nat int

definition loop_turn :: "wait_result \<Rightarrow> 'c ring \<Rightarrow> 'c ring" where
  "loop_turn r s =
     (if lp_running s \<and> \<not> g_signal_received s then
        (case r of
           WaitError \<Rightarrow> drain_pending_posts s
         | Cqe a res \<Rightarrow> dispatch a res (drain_pending_posts s))
      else s\<lparr>lp_running := False\<rparr>)"

text \<open>\<^verbatim>\<open>run\<close> up to its loop: the signal flag is cleared and the engine marked as running.\<close>

definition run_enter :: "'c ring \<Rightarrow> 'c ring" where
  "run_enter s = s\<lparr>g_signal_received := False, lp_running := True\<rparr>"

text \<open>A constructed engine.\<close>

definition empty_ring :: "'c ring" where
  "empty_ring = \<lparr>lp_running = False, g_signal_received = False, heap = Map.empty, next_addr = 0,
     in_flight = [], pending_posts = [], sq_room = [], posted = [], resumed = [], freed = []\<rparr>"

text \<open>Its construction; \<open>res\<close> is the result of \<^verbatim>\<open>io_uring_queue_init\<close>.\<close>

definition mk_UringEngine :: "int \<Rightarrow> exn + 'c ring" where
  "mk_UringEngine res = (if res < 0 then Inl (RuntimeError ''io_uring_queue_init failed'') else Inr empty_ring)"

text \<open>The handler of the signals, and what \<^verbatim>\<open>Server::stop\<close> does to the loop.\<close>

definition signal_handler :: "'c ring \<Rightarrow> 'c ring" where
  "signal_handler s = s\<lparr>g_signal_received := True\<rparr>"

definition stop_loop :: "'c ring \<Rightarrow> 'c ring" where
  "stop_loop s = s\<lparr>lp_running := False\<rparr>"

section \<open>Interleavings\<close>

inductive ring_step :: "'c ring \<Rightarrow> 'c ring \<Rightarrow> bool" where
  room: "ring_step s (s\<lparr>sq_room := sq_room s @ bs\<rparr>)"
| enter: "\<not> lp_running s \<Longrightarrow> ring_step s (run_enter s)"
| await: "fst (io_uring_get_sqe s) \<Longrightarrow> ring_step s (async_submit c s)"
| post: "ring_step s (post_coroutine h s)"
| interrupted: "ring_step s (loop_turn WaitError s)"
| completion: "a \<in> set (in_flight (drain_pending_posts s)) \<Longrightarrow> ring_step s (loop_turn (Cqe a res) s)"
| signal: "ring_step s (signal_handler s)"
| stop: "ring_step s (stop_loop s)"

inductive ring_reachable :: "'c ring \<Rightarrow> bool" where
  start: "ring_reachable empty_ring"
| step: "ring_reachable s \<Longrightarrow> ring_step s t \<Longrightarrow> ring_reachable t"

text \<open>
  The posted coroutines among the operations at some addresses, and those already resumed.
\<close>

definition owned_at :: "(nat \<rightharpoonup> 'c UringOperation) \<Rightarrow> nat \<Rightarrow> bool" where
  "owned_at h a \<longleftrightarrow> (case h a of Some opn \<Rightarrow> op_owned opn | None \<Rightarrow> False)"

definition posts_at :: "(nat \<rightharpoonup> 'c UringOperation) \<Rightarrow> nat list \<Rightarrow> 'c list" where
  "posts_at h as = map (\<lambda>a. op_coroutine (the (h a))) (filter (owned_at h) as)"

definition resumed_posts :: "'c ring \<Rightarrow> 'c list" where
  "resumed_posts s = map fst (filter (\<lambda>(c, r, ow). ow) (resumed s))"

definition known_ops :: "'c ring \<Rightarrow> nat list" where
  "known_ops s = in_flight s @ pending_posts s"

definition ring_ok :: "'c ring \<Rightarrow> bool" where
  "ring_ok s \<longleftrightarrow> distinct (known_ops s) \<and> set (known_ops s) = dom (heap s) \<and>
     dom (heap s) \<subseteq> {..<next_addr s} \<and> (\<forall>a \<in> set (pending_posts s). owned_at (heap s) a) \<and>
     distinct (freed s) \<and> set (freed s) \<subseteq> {..<next_addr s} \<and> set (freed s) \<inter> dom (heap s) = {} \<and>
     mset (posted s) = mset (resumed_posts s) + mset (posts_at (heap s) (known_ops s))"

section \<open>Preservation\<close>

lemma posts_at_upd: "a \<notin> set as \<Longrightarrow> posts_at (h(a := v)) as = posts_at h as"
  by (induction as) (auto simp: posts_at_def owned_at_def)

lemma owned_at_upd [simp]:
  "owned_at (h(a := v)) b = (if b = a then (case v of Some opn \<Rightarrow> op_owned opn | None \<Rightarrow> False) else owned_at h b)"
  by (simp add: owned_at_def)

lemma posts_at_mset: "mset as = mset bs \<Longrightarrow> mset (posts_at h as) = mset (posts_at h bs)"
  by (simp add: posts_at_def)

lemma posts_at_simps [simp]:
  "posts_at h [] = []" "posts_at h (as @ bs) = posts_at h as @ posts_at h bs"
  "posts_at h (a # as) = (if owned_at h a then op_coroutine (the (h a)) # posts_at h as else posts_at h as)"
  by (simp_all add: posts_at_def)

text \<open>The invariant sees the known operations only as a multiset.\<close>

lemma ring_ok_shuffle:
  assumes "ring_ok s" "mset (known_ops t) = mset (known_ops s)" "set (pending_posts t) \<subseteq> set (pending_posts s)"
    and "heap t = heap s" "next_addr t = next_addr s" "freed t = freed s" "posted t = posted s" "resumed t = resumed s"
  shows "ring_ok t"
proof -
  have "set (known_ops t) = set (known_ops s)" "distinct (known_ops t) = distinct (known_ops s)"
    using assms(2) by (metis set_mset_mset, metis mset_eq_imp_distinct_iff)
  then show ?thesis
    using assms posts_at_mset [OF assms(2), of "heap s"]
    by (auto simp: ring_ok_def resumed_posts_def)
qed

lemma get_sqe_frame:
  assumes "io_uring_get_sqe s = (b, s1)"
  shows "in_flight s1 = in_flight s" "pending_posts s1 = pending_posts s" "heap s1 = heap s"
    "next_addr s1 = next_addr s" "freed s1 = freed s" "posted s1 = posted s" "resumed s1 = resumed s"
  using assms by (auto simp: io_uring_get_sqe_def split: list.splits)

lemma drain_shuffle:
  "mset (known_ops (drain_pending_posts s)) = mset (known_ops s) \<and>
   set (pending_posts (drain_pending_posts s)) \<subseteq> set (pending_posts s) \<and>
   heap (drain_pending_posts s) = heap s \<and> next_addr (drain_pending_posts s) = next_addr s \<and>
   freed (drain_pending_posts s) = freed s \<and> posted (drain_pending_posts s) = posted s \<and>
   resumed (drain_pending_posts s) = resumed s"
proof (induction s rule: drain_pending_posts.induct)
  case (1 s)
  show ?case
  proof (cases "pending_posts s")
    case Nil
    then show ?thesis by (simp add: drain_pending_posts.simps)
  next
    case (Cons a rest)
    obtain b s1 where g: "io_uring_get_sqe s = (b, s1)" by fastforce
    note fr = get_sqe_frame [OF g]
    show ?thesis
    proof (cases b)
      case False
      then have "drain_pending_posts s = s1" using Cons g by (subst drain_pending_posts.simps) simp
      with fr show ?thesis by (simp add: known_ops_def)
    next
      case True
      let ?t = "submit a (s1\<lparr>pending_posts := rest\<rparr>)"
      have d: "drain_pending_posts s = drain_pending_posts ?t"
        using Cons g True by (subst drain_pending_posts.simps) simp
      have t: "heap ?t = heap s" "next_addr ?t = next_addr s" "freed ?t = freed s"
        "posted ?t = posted s" "resumed ?t = resumed s" "pending_posts ?t = rest"
        "in_flight ?t = in_flight s @ [a]"
        using fr by (simp_all add: submit_def)
      have ih: "mset (known_ops (drain_pending_posts ?t)) = mset (known_ops ?t) \<and>
          set (pending_posts (drain_pending_posts ?t)) \<subseteq> set (pending_posts ?t) \<and>
          heap (drain_pending_posts ?t) = heap ?t \<and> next_addr (drain_pending_posts ?t) = next_addr ?t \<and>
          freed (drain_pending_posts ?t) = freed ?t \<and> posted (drain_pending_posts ?t) = posted ?t \<and>
          resumed (drain_pending_posts ?t) = resumed ?t"
        using "1.IH" [OF Cons g [symmetric] refl] True by simp
      have "mset (known_ops ?t) = mset (known_ops s)" using t Cons by (simp add: known_ops_def)
      with ih t Cons show ?thesis unfolding d by auto
    qed
  qed
qed

lemma ring_ok_drain: "ring_ok s \<Longrightarrow> ring_ok (drain_pending_posts s)"
  using drain_shuffle [of s] ring_ok_shuffle [of s "drain_pending_posts s"] by blast

lemma ring_okD:
  assumes "ring_ok s"
  shows "distinct (known_ops s)" "set (known_ops s) = dom (heap s)" "dom (heap s) \<subseteq> {..<next_addr s}"
    "\<forall>a \<in> set (pending_posts s). owned_at (heap s) a" "distinct (freed s)" "set (freed s) \<subseteq> {..<next_addr s}"
    "set (freed s) \<inter> dom (heap s) = {}"
    "mset (posted s) = mset (resumed_posts s) + mset (posts_at (heap s) (known_ops s))"
  using assms by (simp_all add: ring_ok_def)

lemma ring_ok_new:
  assumes ok: "ring_ok s" and ow: "ow \<or> now"
    and t: "t = s\<lparr>heap := (heap s)(next_addr s \<mapsto> \<lparr>op_coroutine = c, cqe_res = 0, op_owned = ow\<rparr>),
      next_addr := Suc (next_addr s), in_flight := in_flight s @ (if now then [next_addr s] else []),
      pending_posts := pending_posts s @ (if now then [] else [next_addr s]),
      posted := posted s @ (if ow then [c] else []), sq_room := room\<rparr>"
  shows "ring_ok t"
proof -
  let ?a = "next_addr s"
  note D = ring_okD [OF ok]
  have a: "?a \<notin> set (known_ops s)" "?a \<notin> set (freed s)" using D(2,3,6) by auto
  then have p: "posts_at (heap t) (in_flight s) = posts_at (heap s) (in_flight s)"
      "posts_at (heap t) (pending_posts s) = posts_at (heap s) (pending_posts s)"
    by (simp_all add: t posts_at_upd known_ops_def)
  have k: "known_ops t = in_flight s @ (if now then [?a] else []) @ pending_posts s @ (if now then [] else [?a])"
    by (simp add: t known_ops_def)
  show ?thesis
    unfolding ring_ok_def
  proof (intro conjI)
    show "distinct (known_ops t)" using D(1) a(1) by (auto simp: k known_ops_def [of s])
    show "set (known_ops t) = dom (heap t)" using D(2) by (auto simp: k known_ops_def [of s]) (auto simp: t)
    show "dom (heap t) \<subseteq> {..<next_addr t}" using D(3) by (auto simp: t)
    show "\<forall>a \<in> set (pending_posts t). owned_at (heap t) a" using D(4) ow a(1) by (auto simp: t known_ops_def)
    show "distinct (freed t)" "set (freed t) \<subseteq> {..<next_addr t}" using D(5,6) by (auto simp: t)
    show "set (freed t) \<inter> dom (heap t) = {}" using D(7) a(2) by (auto simp: t)
    show "mset (posted t) = mset (resumed_posts t) + mset (posts_at (heap t) (known_ops t))"
      using D(8) p by (auto simp: k) (auto simp: t resumed_posts_def known_ops_def [of s])
  qed
qed

lemma ring_ok_async: "ring_ok s \<Longrightarrow> ring_ok (async_submit c s)"
  by (rule ring_ok_new [of s False True, where room = "tl (sq_room s)" and c = c])
    (simp_all add: async_submit_def new_op_def submit_def io_uring_get_sqe_def split: list.split)

lemma ring_ok_post:
  assumes "ring_ok s" shows "ring_ok (post_coroutine h s)"
proof (cases "sq_room s")
  case Nil
  show ?thesis
    by (rule ring_ok_new [OF assms, where ow = True and now = False and c = h and room = "[]"])
      (simp_all add: Nil post_coroutine_def new_op_def io_uring_get_sqe_def)
next
  case (Cons b bs)
  show ?thesis
    by (rule ring_ok_new [OF assms, where ow = True and now = b and c = h and room = bs])
      (simp_all add: Cons post_coroutine_def new_op_def io_uring_get_sqe_def submit_def)
qed

lemma ring_ok_dispatch:
  assumes ok: "ring_ok s" and fl: "a \<in> set (in_flight s)"
  shows "ring_ok (dispatch a res s)"
proof -
  note D = ring_okD [OF ok]
  have "a \<in> dom (heap s)" using D(2) fl by (auto simp: known_ops_def)
  then obtain opn where opn: "heap s a = Some opn" by blast
  define t where "t = dispatch a res s"
  have h: "heap t = (heap s)(a := None)" "in_flight t = remove1 a (in_flight s)" "pending_posts t = pending_posts s"
    "next_addr t = next_addr s" "posted t = posted s"
    "freed t = (if op_owned opn then freed s @ [a] else freed s)"
    "resumed t = resumed s @ [(op_coroutine opn, res, op_owned opn)]"
    using opn by (simp_all add: t_def dispatch_def)
  obtain xs ys where split: "in_flight s = xs @ a # ys" "a \<notin> set xs"
    using fl by (meson split_list_first)
  then have r: "known_ops t = xs @ ys @ pending_posts s" "a \<notin> set xs" "a \<notin> set ys" "a \<notin> set (pending_posts s)"
    using D(1) by (auto simp: known_ops_def h remove1_append)
  have af: "a \<notin> set (freed s)" "a < next_addr s" using opn D(3,7) by auto
  have "ring_ok t"
    unfolding ring_ok_def
  proof (intro conjI)
    show "distinct (known_ops t)" using D(1) by (auto simp: r(1) known_ops_def [of s] split(1))
    show "set (known_ops t) = dom (heap t)" using D(2) r(2-4) by (auto simp: h(1) r(1) known_ops_def [of s] split(1))
    show "dom (heap t) \<subseteq> {..<next_addr t}" using D(3) by (auto simp: h)
    show "\<forall>a \<in> set (pending_posts t). owned_at (heap t) a" using D(4) r(4) by (auto simp: h)
    show "distinct (freed t)" "set (freed t) \<subseteq> {..<next_addr t}" using D(5,6) af by (auto simp: h)
    show "set (freed t) \<inter> dom (heap t) = {}" using D(7) by (auto simp: h)
    have "mset (posts_at (heap s) (known_ops s)) =
        (if op_owned opn then {#op_coroutine opn#} else {#}) + mset (posts_at (heap t) (known_ops t))"
      using r(2-4) opn by (simp add: known_ops_def [of s] h r(1) split(1) posts_at_upd owned_at_def)
    moreover have "mset (resumed_posts t) = mset (resumed_posts s) + (if op_owned opn then {#op_coroutine opn#} else {#})"
      by (simp add: resumed_posts_def h)
    ultimately show "mset (posted t) = mset (resumed_posts t) + mset (posts_at (heap t) (known_ops t))"
      using D(8) by (simp add: h(5))
  qed
  then show ?thesis by (simp add: t_def)
qed

lemma ring_ok_fields:
  assumes "ring_ok s" shows "ring_ok (s\<lparr>sq_room := r\<rparr>)" "ring_ok (s\<lparr>g_signal_received := b\<rparr>)" "ring_ok (s\<lparr>lp_running := b\<rparr>)"
    "ring_ok (run_enter s)"
  using assms by (simp_all add: ring_ok_def known_ops_def resumed_posts_def run_enter_def)

lemma ring_reachable_ok: "ring_reachable s \<Longrightarrow> ring_ok s"
proof (induction rule: ring_reachable.induct)
  case start
  show ?case by (simp add: ring_ok_def empty_ring_def known_ops_def resumed_posts_def)
next
  case (step s t)
  from step.hyps(2) step.IH show ?case
    by (induction rule: ring_step.induct)
      (simp_all add: ring_ok_async ring_ok_post ring_ok_drain ring_ok_fields ring_ok_dispatch loop_turn_def
        signal_handler_def stop_loop_def)
qed

section \<open>Properties\<close>

text \<open>
  C17. Posted coroutines are neither lost nor run twice. In every interleaving of worker
  threads posting, the loop draining, completions in any order and interrupted waits, each
  posted coroutine is in exactly one place: already resumed, submitted to the ring, or
  waiting for room; and the loop frees each operation it owns at most once and never one
  that is still in use.
\<close>

theorem posts_exactly_once:
  assumes "ring_reachable s"
  shows "mset (posted s) = mset (resumed_posts s) + mset (posts_at (heap s) (in_flight s)) +
      mset (posts_at (heap s) (pending_posts s)) \<and>
    distinct (freed s) \<and> set (freed s) \<inter> set (in_flight s @ pending_posts s) = {}"
proof -
  note D = ring_okD [OF ring_reachable_ok [OF assms]]
  from D(2,5,7,8) show ?thesis by (auto simp: known_ops_def add.assoc)
qed

text \<open>
  Waiting posts are submitted as soon as there is room, in the order in which they were
  posted: a turn of the loop that finds enough free entries leaves none behind.
\<close>

theorem drain_submits_in_order:
  assumes "sq_room s = replicate (length (pending_posts s)) True @ more_room"
  shows "in_flight (drain_pending_posts s) = in_flight s @ pending_posts s \<and>
    pending_posts (drain_pending_posts s) = []"
  using assms
proof (induction "pending_posts s" arbitrary: s)
  case Nil
  then show ?case by (subst (1 2) drain_pending_posts.simps) (simp split: list.split)
next
  case (Cons a rest)
  let ?t = "submit a (s\<lparr>sq_room := replicate (length rest) True @ more_room, pending_posts := rest\<rparr>)"
  have p: "pending_posts s = a # rest" using Cons.hyps(2) by simp
  then have "drain_pending_posts s = drain_pending_posts ?t"
    using Cons.prems by (subst drain_pending_posts.simps) (simp add: io_uring_get_sqe_def)
  moreover have "in_flight (drain_pending_posts ?t) = in_flight ?t @ pending_posts ?t \<and>
      pending_posts (drain_pending_posts ?t) = []"
    by (rule Cons.hyps(1)) (simp_all add: submit_def)
  ultimately show ?case using p by (simp add: submit_def)
qed

end
