(* ===== verification/Thread_Pool.thy ===== *)
theory Thread_Pool
  imports Servd_Prelude
begin

text \<open>
  \<^verbatim>\<open>ThreadPool.hpp\<close>: the queue, the worker loop and the awaiter of \<^verbatim>\<open>enqueue\<close>. The parts
  that hold a mutex are the atomic steps; everything between them can be interleaved
  with the other threads. \<open>func n\<close> is what the \<open>n\<close>-th submitted function does: return a
  value or throw.
\<close>

section \<open>State\<close>

text \<open>\<^verbatim>\<open>struct Shared\<close>; the two fields \<^verbatim>\<open>result\<close> and \<^verbatim>\<open>error\<close> are one sum here.\<close>

record 'r Shared =
  sh_result :: "(exn + 'r) option"
  sh_waiter :: bool
  sh_done :: bool

definition new_shared :: "'r Shared" where
  "new_shared = \<lparr>sh_result = None, sh_waiter = False, sh_done = False\<rparr>"

text \<open>
  Where the coroutine that called \<^verbatim>\<open>enqueue\<close> is: before \<^verbatim>\<open>await_ready\<close>, between
  \<^verbatim>\<open>await_ready\<close> and \<^verbatim>\<open>await_suspend\<close>, suspended, or resumed with the value of
  \<^verbatim>\<open>await_resume\<close>.
\<close>

datatype 'r phase = Enqueued | NotReady | Suspended | Resumed "exn + 'r"

text \<open>
  \<open>running_tasks\<close> are the tasks a worker has taken and not finished; \<open>post_queue\<close> the
  coroutines handed to \<^verbatim>\<open>post_cb\<close> and not yet resumed by the event loop; \<open>workers\<close> the
  number of threads started and \<open>exited\<close> the number of those that have returned from
  \<^verbatim>\<open>worker_loop\<close>.
\<close>

record 'r pool =
  post_cb :: bool
  stopping :: bool
  tasks :: "nat list"
  running_tasks :: "nat set"
  shared :: "nat \<Rightarrow> 'r Shared"
  phases :: "nat \<rightharpoonup> 'r phase"
  post_queue :: "nat list"
  workers :: nat
  exited :: nat

section \<open>Operations\<close>

definition enqueue :: "nat \<Rightarrow> 'r pool \<Rightarrow> 'r pool" where
  "enqueue n s = s\<lparr>tasks := tasks s @ [n], shared := (shared s)(n := new_shared),
     phases := (phases s)(n \<mapsto> Enqueued)\<rparr>"

text \<open>\<^verbatim>\<open>await_resume\<close> rethrows the error or moves the result out.\<close>

definition tp_await_resume :: "nat \<Rightarrow> 'r pool \<Rightarrow> 'r pool" where
  "tp_await_resume n s =
     (case sh_result (shared s n) of
        None \<Rightarrow> s
      | Some r \<Rightarrow> s\<lparr>phases := (phases s)(n \<mapsto> Resumed r)\<rparr>)"

definition tp_await_ready :: "nat \<Rightarrow> 'r pool \<Rightarrow> 'r pool" where
  "tp_await_ready n s =
     (if sh_done (shared s n) then tp_await_resume n s
      else s\<lparr>phases := (phases s)(n \<mapsto> NotReady)\<rparr>)"

definition tp_await_suspend :: "nat \<Rightarrow> 'r pool \<Rightarrow> 'r pool" where
  "tp_await_suspend n s =
     (let s1 = s\<lparr>shared := (shared s)(n := (shared s n)\<lparr>sh_waiter := True\<rparr>)\<rparr> in
      if \<not> sh_done (shared s1 n) then s1\<lparr>phases := (phases s1)(n \<mapsto> Suspended)\<rparr>
      else tp_await_resume n s1)"

text \<open>\<^verbatim>\<open>worker_loop\<close> up to the call of the task.\<close>

definition worker_take :: "'r pool \<Rightarrow> 'r pool" where
  "worker_take s =
     (case tasks s of
        [] \<Rightarrow> s
      | n # ns \<Rightarrow> s\<lparr>tasks := ns, running_tasks := insert n (running_tasks s)\<rparr>)"

text \<open>The task: run the function, publish the outcome, wake the waiter if there is one.\<close>

definition worker_finish :: "(nat \<Rightarrow> exn + 'r) \<Rightarrow> nat \<Rightarrow> 'r pool \<Rightarrow> 'r pool" where
  "worker_finish func n s =
     (let s1 = s\<lparr>running_tasks := running_tasks s - {n},
                 shared := (shared s)(n := (shared s n)\<lparr>sh_result := Some (func n), sh_done := True\<rparr>)\<rparr> in
      if sh_waiter (shared s1 n) then
        (if post_cb s1 then s1\<lparr>post_queue := post_queue s1 @ [n]\<rparr> else tp_await_resume n s1)
      else s1)"

text \<open>The event loop resumes a posted coroutine.\<close>

definition resume_posted :: "nat \<Rightarrow> 'r pool \<Rightarrow> 'r pool" where
  "resume_posted n s = tp_await_resume n (s\<lparr>post_queue := remove1 n (post_queue s)\<rparr>)"

text \<open>The return from \<^verbatim>\<open>worker_loop\<close>, and the first half of the destructor.\<close>

definition worker_exit :: "'r pool \<Rightarrow> 'r pool" where
  "worker_exit s = s\<lparr>exited := Suc (exited s)\<rparr>"

definition pool_stop :: "'r pool \<Rightarrow> 'r pool" where
  "pool_stop s = s\<lparr>stopping := True\<rparr>"

text \<open>The destructor is through when it has joined every worker.\<close>

definition pool_joined :: "'r pool \<Rightarrow> bool" where
  "pool_joined s \<longleftrightarrow> stopping s \<and> exited s = workers s"

section \<open>Interleavings\<close>

text \<open>
  What the threads of the pool do. A thread that neither runs a task nor has returned is
  waiting; it goes on when there is a task, and returns when there is none and the pool is
  stopping.
\<close>

definition idle_worker :: "'r pool \<Rightarrow> bool" where
  "idle_worker s \<longleftrightarrow> card (running_tasks s) + exited s < workers s"

inductive worker_step :: "(nat \<Rightarrow> exn + 'r) \<Rightarrow> 'r pool \<Rightarrow> 'r pool \<Rightarrow> bool" for func where
  take: "\<lbrakk>idle_worker s; tasks s \<noteq> []\<rbrakk> \<Longrightarrow> worker_step func s (worker_take s)"
| finish: "n \<in> running_tasks s \<Longrightarrow> worker_step func s (worker_finish func n s)"
| exit: "\<lbrakk>idle_worker s; stopping s; tasks s = []\<rbrakk> \<Longrightarrow> worker_step func s (worker_exit s)"

text \<open>
  Once the destructor has begun, which it does on the thread of the event loop, only code on
  a worker can still submit functions.
\<close>

inductive pool_step :: "(nat \<Rightarrow> exn + 'r) \<Rightarrow> 'r pool \<Rightarrow> 'r pool \<Rightarrow> bool" for func where
  submit: "\<lbrakk>phases s n = None; stopping s \<longrightarrow> running_tasks s \<noteq> {}\<rbrakk> \<Longrightarrow> pool_step func s (enqueue n s)"
| ready: "phases s n = Some Enqueued \<Longrightarrow> pool_step func s (tp_await_ready n s)"
| suspend: "phases s n = Some NotReady \<Longrightarrow> pool_step func s (tp_await_suspend n s)"
| work: "worker_step func s t \<Longrightarrow> pool_step func s t"
| resume: "n \<in> set (post_queue s) \<Longrightarrow> pool_step func s (resume_posted n s)"
| stop: "pool_step func s (pool_stop s)"

definition new_pool :: "bool \<Rightarrow> nat \<Rightarrow> 'r pool" where
  "new_pool cb thread_count = \<lparr>post_cb = cb, stopping = False, tasks = [], running_tasks = {},
     shared = (\<lambda>_. new_shared), phases = Map.empty, post_queue = [], workers = thread_count, exited = 0\<rparr>"

inductive pool_reachable :: "(nat \<Rightarrow> exn + 'r) \<Rightarrow> 'r pool \<Rightarrow> bool" for func where
  start: "pool_reachable func (new_pool cb thread_count)"
| step: "pool_reachable func s \<Longrightarrow> pool_step func s t \<Longrightarrow> pool_reachable func t"

text \<open>
  The invariant, for one task: where it is, what its outcome is, and when its coroutine is
  waiting or posted.
\<close>

definition task_ok :: "(nat \<Rightarrow> exn + 'r) \<Rightarrow> 'r pool \<Rightarrow> nat \<Rightarrow> bool" where
  "task_ok func s n \<longleftrightarrow>
     (phases s n = None \<longrightarrow> n \<notin> set (tasks s) \<and> n \<notin> running_tasks s \<and> n \<notin> set (post_queue s) \<and>
        \<not> sh_done (shared s n)) \<and>
     (phases s n \<noteq> None \<longrightarrow> (sh_done (shared s n) \<longleftrightarrow> n \<notin> set (tasks s) \<and> n \<notin> running_tasks s)) \<and>
     sh_result (shared s n) = (if sh_done (shared s n) then Some (func n) else None) \<and>
     (phases s n \<in> {None, Some Enqueued, Some NotReady} \<longrightarrow> \<not> sh_waiter (shared s n)) \<and>
     (phases s n = Some Suspended \<longrightarrow>
        sh_waiter (shared s n) \<and> (sh_done (shared s n) \<longleftrightarrow> n \<in> set (post_queue s))) \<and>
     (n \<in> set (post_queue s) \<longrightarrow> phases s n = Some Suspended) \<and>
     (\<forall>r. phases s n = Some (Resumed r) \<longrightarrow> r = func n \<and> sh_done (shared s n))"

definition pool_ok :: "(nat \<Rightarrow> exn + 'r) \<Rightarrow> 'r pool \<Rightarrow> bool" where
  "pool_ok func s \<longleftrightarrow> distinct (tasks s) \<and> set (tasks s) \<inter> running_tasks s = {} \<and>
     distinct (post_queue s) \<and> (\<forall>n. task_ok func s n)"

lemma waiter_suspended:
  assumes "n \<in> running_tasks s" "pool_ok func s" "sh_waiter (shared s n)"
  shows "phases s n = Some Suspended"
proof -
  have ok: "task_ok func s n" using assms(2) by (simp add: pool_ok_def)
  show ?thesis
  proof (cases "phases s n")
    case None
    with ok assms show ?thesis by (simp add: task_ok_def)
  next
    case (Some p)
    with ok assms show ?thesis by (cases p) (auto simp: task_ok_def)
  qed
qed

lemma task_ok_frame:
  assumes "task_ok func s m" "phases t m = phases s m" "shared t m = shared s m"
    and "m \<in> set (tasks t) \<longleftrightarrow> m \<in> set (tasks s)" "m \<in> running_tasks t \<longleftrightarrow> m \<in> running_tasks s"
    and "m \<in> set (post_queue t) \<longleftrightarrow> m \<in> set (post_queue s)"
  shows "task_ok func t m"
  using assms(1) unfolding task_ok_def assms(2-6) .

lemma pool_ok_finish:
  assumes run: "n \<in> running_tasks s" and ok: "pool_ok func s"
  shows "pool_ok func (worker_finish func n s)"
proof -
  let ?t = "worker_finish func n s"
  have m: "task_ok func s m" for m using ok by (simp add: pool_ok_def)
  have n: "task_ok func s n" "n \<notin> set (tasks s)" using m ok run unfolding pool_ok_def by blast+
  then have nd: "\<not> sh_done (shared s n)" "n \<notin> set (post_queue s)" using run by (auto simp: task_ok_def)
  have q: "tasks ?t = tasks s" "running_tasks ?t = running_tasks s - {n}"
    "post_queue ?t = (if sh_waiter (shared s n) \<and> post_cb s then post_queue s @ [n] else post_queue s)"
    by (simp_all add: worker_finish_def tp_await_resume_def Let_def)
  have "task_ok func ?t m" for m
  proof (cases "m = n")
    case False
    then show ?thesis
      by (intro task_ok_frame [OF m [of m]]) (simp_all add: worker_finish_def tp_await_resume_def Let_def)
  next
    case True
    show ?thesis
    proof (cases "sh_waiter (shared s n)")
      case False
      then show ?thesis using True n nd run by (simp add: task_ok_def worker_finish_def Let_def)
    next
      case w: True
      have "phases s n = Some Suspended" by (rule waiter_suspended [OF run ok w])
      then show ?thesis
        using True n nd w run by (simp add: task_ok_def worker_finish_def tp_await_resume_def Let_def)
    qed
  qed
  moreover have "distinct (tasks s)" "set (tasks s) \<inter> running_tasks s = {}" "distinct (post_queue s)"
    using ok by (simp_all add: pool_ok_def)
  ultimately show ?thesis
    using nd unfolding pool_ok_def q by auto
qed

lemma pool_ok_worker: "worker_step func s t \<Longrightarrow> pool_ok func s \<Longrightarrow> pool_ok func t"
proof (induction rule: worker_step.induct)
  case (take s)
  then show ?case by (cases "tasks s") (auto simp: pool_ok_def task_ok_def worker_take_def)
next
  case (finish n s)
  then show ?case by (rule pool_ok_finish)
next
  case (exit s)
  then show ?case by (auto simp: pool_ok_def worker_exit_def intro: task_ok_frame)
qed

lemma pool_ok_step: "pool_step func s t \<Longrightarrow> pool_ok func s \<Longrightarrow> pool_ok func t"
proof (induction rule: pool_step.induct)
  case (submit s n)
  then show ?case by (auto simp: pool_ok_def task_ok_def enqueue_def new_shared_def)
next
  case (ready s n)
  then show ?case by (auto simp: pool_ok_def task_ok_def tp_await_ready_def tp_await_resume_def)
next
  case (suspend s n)
  then show ?case by (auto simp: pool_ok_def task_ok_def tp_await_suspend_def tp_await_resume_def Let_def)
next
  case (work s t)
  then show ?case by (rule pool_ok_worker)
next
  case (resume n s)
  then show ?case by (auto simp: pool_ok_def task_ok_def resume_posted_def tp_await_resume_def)
next
  case (stop s)
  then show ?case by (auto simp: pool_ok_def pool_stop_def intro: task_ok_frame)
qed

lemma pool_reachable_ok: "pool_reachable func s \<Longrightarrow> pool_ok func s"
proof (induction rule: pool_reachable.induct)
  case (start cb thread_count)
  show ?case by (simp add: pool_ok_def task_ok_def new_pool_def new_shared_def)
next
  case (step s t)
  then show ?case by (simp add: pool_ok_step)
qed

section \<open>Properties\<close>

text \<open>
  No lost wakeup, no double resumption and no wrong result. In every interleaving of
  callers and workers: a coroutine resumed from \<^verbatim>\<open>enqueue\<close> got exactly what its function
  returned or threw; a suspended one has its task still queued or running, or else is posted
  for resumption, exactly once; and nothing is posted that is not suspended.
\<close>

lemma pool_resumes_exactly_once:
  assumes "pool_reachable func s"
  shows "(\<forall>n r. phases s n = Some (Resumed r) \<longrightarrow> r = func n) \<and>
    (\<forall>n. phases s n = Some Suspended \<longrightarrow>
       (n \<in> set (tasks s) \<or> n \<in> running_tasks s) \<noteq> (n \<in> set (post_queue s))) \<and>
    (\<forall>n \<in> set (post_queue s). phases s n = Some Suspended) \<and> distinct (post_queue s)"
  using pool_reachable_ok [OF assms] unfolding pool_ok_def task_ok_def by auto

text \<open>
  The race between suspending and finishing has one winner: whether the worker publishes
  its result before or after \<^verbatim>\<open>await_suspend\<close> took the lock, the coroutine ends up resumed
  with that result (at once in the first order, through the post queue in the second).
\<close>

theorem pool_race_resolved:
  assumes "pool_reachable func s" "phases s n = Some NotReady" "n \<in> running_tasks s" "post_cb s"
  shows "phases (tp_await_suspend n (worker_finish func n s)) n = Some (Resumed (func n)) \<and>
    post_queue (tp_await_suspend n (worker_finish func n s)) = post_queue s \<and>
    phases (resume_posted n (worker_finish func n (tp_await_suspend n s))) n = Some (Resumed (func n)) \<and>
    post_queue (resume_posted n (worker_finish func n (tp_await_suspend n s))) = post_queue s"
proof -
  have ok: "task_ok func s n" using pool_reachable_ok [OF assms(1)] by (simp add: pool_ok_def)
  then have "\<not> sh_done (shared s n)" "\<not> sh_waiter (shared s n)" "n \<notin> set (post_queue s)"
    using assms(2,3) by (auto simp: task_ok_def)
  with assms(4) show ?thesis
    by (simp add: worker_finish_def tp_await_suspend_def resume_posted_def tp_await_resume_def Let_def
        remove1_append)
qed

section \<open>Shutting down\<close>

definition threads_ok :: "'r pool \<Rightarrow> bool" where
  "threads_ok s \<longleftrightarrow> finite (running_tasks s) \<and> card (running_tasks s) + exited s \<le> workers s \<and>
     (0 < exited s \<longrightarrow> stopping s) \<and> (0 < workers s \<and> exited s = workers s \<longrightarrow> tasks s = [])"

definition work_left :: "'r pool \<Rightarrow> nat" where
  "work_left s = 2 * length (tasks s) + card (running_tasks s) + (workers s - exited s)"

lemma pool_frame [simp]:
  "tasks (tp_await_resume n s) = tasks s" "running_tasks (tp_await_resume n s) = running_tasks s"
  "workers (tp_await_resume n s) = workers s" "exited (tp_await_resume n s) = exited s"
  "stopping (tp_await_resume n s) = stopping s"
  by (simp_all add: tp_await_resume_def split: option.split)

lemma worker_finish_frame [simp]:
  "tasks (worker_finish func n s) = tasks s" "running_tasks (worker_finish func n s) = running_tasks s - {n}"
  "workers (worker_finish func n s) = workers s" "exited (worker_finish func n s) = exited s"
  "stopping (worker_finish func n s) = stopping s"
  by (simp_all add: worker_finish_def Let_def)

lemma worker_take_frame:
  assumes "tasks s = n # ns"
  shows "tasks (worker_take s) = ns" "running_tasks (worker_take s) = insert n (running_tasks s)"
    "workers (worker_take s) = workers s" "exited (worker_take s) = exited s" "stopping (worker_take s) = stopping s"
  using assms by (simp_all add: worker_take_def)

lemma worker_step_progress:
  assumes "worker_step func s t" "threads_ok s"
  shows "threads_ok t \<and> work_left t < work_left s \<and> workers t = workers s \<and> stopping t = stopping s"
  using assms
proof (induction rule: worker_step.induct)
  case (take s)
  then obtain n ns where n: "tasks s = n # ns" by (cases "tasks s") auto
  have "card (insert n (running_tasks s)) \<le> Suc (card (running_tasks s))"
    by (rule card_insert_le_m1) simp_all
  with take n show ?case
    by (auto simp: threads_ok_def work_left_def idle_worker_def worker_take_frame [OF n])
next
  case (finish n s)
  then have "0 < card (running_tasks s)" by (auto simp: threads_ok_def card_gt_0_iff)
  with finish show ?case by (auto simp: threads_ok_def work_left_def)
next
  case (exit s)
  then show ?case by (auto simp: threads_ok_def work_left_def idle_worker_def worker_exit_def)
qed

lemma threads_ok_step: "pool_step func s t \<Longrightarrow> threads_ok s \<Longrightarrow> threads_ok t"
proof (induction rule: pool_step.induct)
  case (submit s n)
  then have "\<not> (0 < workers s \<and> exited s = workers s)" by (auto simp: threads_ok_def card_eq_0_iff)
  with submit show ?case by (auto simp: threads_ok_def enqueue_def)
qed (auto simp: threads_ok_def tp_await_ready_def tp_await_suspend_def resume_posted_def pool_stop_def Let_def
    dest: worker_step_progress)

lemma pool_reachable_threads: "pool_reachable func s \<Longrightarrow> threads_ok s"
proof (induction rule: pool_reachable.induct)
  case (start cb thread_count)
  show ?case by (simp add: threads_ok_def new_pool_def)
next
  case (step s t)
  then show ?case by (simp add: threads_ok_step)
qed

lemma worker_steps_bounded:
  "(worker_step func ^^ k) s t \<Longrightarrow> threads_ok s \<Longrightarrow>
     work_left t + k \<le> work_left s \<and> threads_ok t \<and> workers t = workers s \<and> stopping t = stopping s"
proof (induction k arbitrary: t)
  case (Suc k)
  then obtain u where u: "(worker_step func ^^ k) s u" "worker_step func u t" by auto
  with Suc.IH [OF u(1)] Suc.prems(2) worker_step_progress [OF u(2)] show ?case by auto
qed simp

lemma pool_reachable_work: "(worker_step func ^^ k) s t \<Longrightarrow> pool_reachable func s \<Longrightarrow> pool_reachable func t"
proof (induction k arbitrary: t)
  case (Suc k)
  then show ?case by (auto intro: pool_reachable.step pool_step.work)
qed simp

lemma worker_stuck_joined:
  assumes "threads_ok s" "stopping s" "0 < workers s" "\<nexists>t. worker_step func s t"
  shows "pool_joined s \<and> tasks s = [] \<and> running_tasks s = {}"
proof -
  have none: "running_tasks s = {}" using assms(4) worker_step.finish by fastforce
  have "\<not> idle_worker s"
    using assms(2,4) worker_step.take [of s] worker_step.exit [of s] by blast
  with assms(1) none have "exited s = workers s" by (simp add: idle_worker_def threads_ok_def)
  with assms none show ?thesis by (simp add: pool_joined_def threads_ok_def)
qed

text \<open>
  C14. The destructor ends, and drops nothing. Once the pool is stopping and has at least one
  thread, its threads take a bounded number of steps; when they can take no more, all have
  returned (so that the destructor has joined them), the queue is empty, and every function
  ever submitted has been run and its outcome published.
\<close>

theorem pool_shutdown_completes:
  assumes "pool_reachable func s" "stopping s" "0 < workers s" "(worker_step func ^^ k) s t"
  shows "k \<le> 2 * length (tasks s) + card (running_tasks s) + (workers s - exited s) \<and>
    ((\<nexists>u. worker_step func t u) \<longrightarrow>
       pool_joined t \<and> tasks t = [] \<and> running_tasks t = {} \<and>
       (\<forall>n. phases t n \<noteq> None \<longrightarrow> sh_result (shared t n) = Some (func n)))"
proof -
  have b: "work_left t + k \<le> work_left s" "threads_ok t" "workers t = workers s" "stopping t"
    using worker_steps_bounded [OF assms(4)] pool_reachable_threads [OF assms(1)] assms(2) by simp_all
  have "task_ok func t n" for n
    using pool_reachable_ok [OF pool_reachable_work [OF assms(4,1)]] by (simp add: pool_ok_def)
  then have "sh_result (shared t n) = Some (func n)"
    if "phases t n \<noteq> None" "tasks t = []" "running_tasks t = {}" for n
    using that by (auto simp: task_ok_def)
  then show ?thesis
    using b worker_stuck_joined [of t func] assms(3) by (auto simp: work_left_def)
qed

end
