(* ===== verification/Task_Join.thy ===== *)
theory Task_Join
  imports Servd_Prelude
begin

text \<open>
  \<^verbatim>\<open>when_all\<close> of \<^verbatim>\<open>Task.hpp\<close>: several tasks run concurrently on the event loop's
  thread, and their caller continues when all of them are through. The tuple and the
  vector version differ in the type of their slots only.
\<close>

section \<open>The shared state\<close>

text \<open>
  \<^verbatim>\<open>WhenAllStateBase\<close> with its slots; \<open>caller_resumed\<close> counts how often the caller's
  handle was transferred to by a wrapper's final suspend.
\<close>

record 'v when_all =
  remaining :: int
  wa_error :: "exn option"
  caller :: bool
  started :: bool
  slots :: "'v option list"
  caller_resumed :: nat

definition wa_new :: "nat \<Rightarrow> 'v when_all" where
  "wa_new n = \<lparr>remaining = int n, wa_error = None, caller = False, started = False,
     slots = replicate n None, caller_resumed = 0\<rparr>"

text \<open>\<^verbatim>\<open>WhenAllTask::promise_type::FinalAwaiter::await_suspend\<close>.\<close>

definition final_await_suspend :: "'v when_all \<Rightarrow> 'v when_all" where
  "final_await_suspend s =
     (let s1 = s\<lparr>remaining := remaining s - 1\<rparr> in
      if remaining s1 = 0 \<and> started s1 \<and> caller s1
      then s1\<lparr>caller_resumed := Suc (caller_resumed s1)\<rparr> else s1)"

text \<open>
  The end of \<^verbatim>\<open>make_wrapper\<close> for slot \<open>i\<close>: the value is stored, or the exception of the
  task becomes the error of the whole.
\<close>

definition wrapper_complete :: "nat \<Rightarrow> exn + 'v \<Rightarrow> 'v when_all \<Rightarrow> 'v when_all" where
  "wrapper_complete i r s =
     final_await_suspend
       (case r of Inl e \<Rightarrow> s\<lparr>wa_error := Some e\<rparr> | Inr v \<Rightarrow> s\<lparr>slots := (slots s)[i := Some v]\<rparr>)"

text \<open>
  \<^verbatim>\<open>await_suspend\<close> resumes the wrappers one after the other; the list tells how far each
  task gets in its first run (\<open>Pending\<close>: it suspends). The result is whether the caller
  stays suspended.
\<close>

fun resume_wrappers :: "nat \<Rightarrow> 'v outcome list \<Rightarrow> 'v when_all \<Rightarrow> 'v when_all" where
  "resume_wrappers i [] s = s"
| "resume_wrappers i (o1 # os) s =
     resume_wrappers (Suc i) os
       (case o1 of
          Pending \<Rightarrow> s
        | Ret v \<Rightarrow> wrapper_complete i (Inr v) s
        | Throw e \<Rightarrow> wrapper_complete i (Inl e) s)"

definition wa_await_suspend :: "'v outcome list \<Rightarrow> 'v when_all \<Rightarrow> bool \<times> 'v when_all" where
  "wa_await_suspend os s =
     (let s1 = (resume_wrappers 0 os (s\<lparr>caller := True\<rparr>))\<lparr>started := True\<rparr> in (remaining s1 \<noteq> 0, s1))"

definition wa_await_resume :: "'v when_all \<Rightarrow> 'v list outcome" where
  "wa_await_resume s =
     (case wa_error s of Some e \<Rightarrow> Throw e | None \<Rightarrow> Ret (map the (slots s)))"

text \<open>
  The two functions up to their \<^verbatim>\<open>co_await\<close>: the state, and the wrappers in the order in which
  they are resumed, each named by its slot. The tuple version makes one for each index of the
  pack, the vector version in a loop. When the caller goes on, the awaiter of the tuple takes
  the values out slot by slot.
\<close>

definition when_all_tuple :: "nat \<Rightarrow> 'v when_all \<times> nat list" where
  "when_all_tuple n = (wa_new n, foldl (\<lambda>wrappers i. wrappers @ [i]) [] [0..<n])"

function vector_wrappers :: "nat \<Rightarrow> nat \<Rightarrow> nat list \<Rightarrow> nat list" where
  "vector_wrappers n i wrappers = (if i < n then vector_wrappers n (Suc i) (wrappers @ [i]) else wrappers)"
  by pat_completeness auto
termination
  by (relation "measure (\<lambda>(n, i, _). n - i)") auto

declare vector_wrappers.simps [simp del]

definition when_all_vector :: "nat \<Rightarrow> 'v when_all \<times> nat list" where
  "when_all_vector n = (wa_new n, vector_wrappers n 0 [])"

definition wa_extract :: "'v when_all \<Rightarrow> nat list \<Rightarrow> 'v list" where
  "wa_extract s indices = map (\<lambda>i. the (slots s ! i)) indices"

definition tuple_await_resume :: "'v when_all \<Rightarrow> 'v list outcome" where
  "tuple_await_resume s =
     (case wa_error s of Some e \<Rightarrow> Throw e | None \<Rightarrow> Ret (wa_extract s [0..<length (slots s)]))"

section \<open>Facts\<close>

text \<open>The two versions do the same.\<close>

lemma vector_wrappers_upt: "i \<le> n \<Longrightarrow> vector_wrappers n i ws = ws @ [i..<n]"
proof (induction n i ws rule: vector_wrappers.induct)
  case (1 n i ws)
  then show ?case by (cases "i < n") (subst vector_wrappers.simps, simp add: upt_conv_Cons)+
qed

lemma when_all_versions_agree:
  "when_all_tuple n = when_all_vector n" "snd (when_all_vector n) = [0..<n]"
  "tuple_await_resume s = wa_await_resume s"
proof -
  have "foldl (\<lambda>ws i. ws @ [i]) acc js = acc @ js" for acc js :: "nat list"
    by (induction js arbitrary: acc) simp_all
  then show "when_all_tuple n = when_all_vector n" "snd (when_all_vector n) = [0..<n]"
    by (simp_all add: when_all_tuple_def when_all_vector_def vector_wrappers_upt)
  have "wa_extract s [0..<length (slots s)] = map the (slots s)"
    by (rule nth_equalityI) (simp_all add: wa_extract_def)
  then show "tuple_await_resume s = wa_await_resume s"
    by (simp add: tuple_await_resume_def wa_await_resume_def split: option.split)
qed

text \<open>
  After the tasks in \<open>D\<close> have completed with the outcomes \<open>fin\<close>, in whatever order.
\<close>

definition joined :: "(exn + 'v) list \<Rightarrow> nat set \<Rightarrow> 'v when_all \<Rightarrow> bool" where
  "joined fin D s \<longleftrightarrow> D \<subseteq> {..<length fin} \<and> remaining s = int (length fin) - int (card D) \<and>
     caller s \<and> length (slots s) = length fin \<and>
     (\<forall>i v. i \<in> D \<longrightarrow> fin ! i = Inr v \<longrightarrow> slots s ! i = Some v) \<and>
     (wa_error s = None \<longleftrightarrow> (\<forall>i \<in> D. \<exists>v. fin ! i = Inr v)) \<and>
     (\<forall>e. wa_error s = Some e \<longrightarrow> (\<exists>i \<in> D. fin ! i = Inl e))"

lemma joined_finite: "joined fin D s \<Longrightarrow> finite D"
  by (auto simp: joined_def intro: finite_subset)

lemma joined_complete:
  assumes "joined fin D s" "i < length fin" "i \<notin> D"
  shows "joined fin (insert i D) (wrapper_complete i (fin ! i) s)"
proof -
  have c: "card (insert i D) = Suc (card D)" using assms(3) joined_finite [OF assms(1)] by simp
  show ?thesis
  proof (cases "fin ! i")
    case (Inl e)
    with assms c show ?thesis
      by (auto simp: joined_def wrapper_complete_def final_await_suspend_def Let_def)
  next
    case (Inr v)
    with assms c show ?thesis
      by (auto simp: joined_def wrapper_complete_def final_await_suspend_def Let_def nth_list_update)
  qed
qed

lemma complete_frame:
  "started (wrapper_complete i r s) = started s"
  "caller_resumed (wrapper_complete i r s) =
     (if remaining s = 1 \<and> started s \<and> caller s then Suc (caller_resumed s) else caller_resumed s)"
  by (auto simp: wrapper_complete_def final_await_suspend_def Let_def split: sum.split)

lemma resume_wrappers_joined:
  assumes "joined fin D s" "\<not> started s" "i + length os = length fin" "\<forall>j \<ge> i. j \<notin> D"
    and "\<forall>j < length os. os ! j \<noteq> Pending \<longrightarrow>
      os ! j = (case fin ! (i + j) of Inl e \<Rightarrow> Throw e | Inr v \<Rightarrow> Ret v)"
  shows "joined fin (D \<union> {j \<in> {i..<length fin}. os ! (j - i) \<noteq> Pending}) (resume_wrappers i os s) \<and>
    \<not> started (resume_wrappers i os s) \<and> caller_resumed (resume_wrappers i os s) = caller_resumed s"
  using assms
proof (induction os arbitrary: i D s)
  case Nil
  then have "{j \<in> {i..<length fin}. [] ! (j - i) \<noteq> Pending} = {}" by auto
  with Nil show ?case by simp
next
  case (Cons a os)
  let ?s = "case a of Pending \<Rightarrow> s | Ret v \<Rightarrow> wrapper_complete i (Inr v) s | Throw e \<Rightarrow> wrapper_complete i (Inl e) s"
  let ?D = "if a = Pending then D else insert i D"
  have i: "i < length fin" "i \<notin> D" using Cons.prems by auto
  have a: "a \<noteq> Pending \<Longrightarrow> ?s = wrapper_complete i (fin ! i) s"
    using Cons.prems(5) [rule_format, of 0] by (cases "fin ! i") auto
  have j: "joined fin ?D ?s"
    using a joined_complete [OF Cons.prems(1) i] Cons.prems(1) by (cases "a = Pending") auto
  have st: "\<not> started ?s" "caller_resumed ?s = caller_resumed s"
    using Cons.prems(2) by (cases a; simp add: complete_frame)+
  have os: "\<forall>j < length os. os ! j \<noteq> Pending \<longrightarrow>
      os ! j = (case fin ! (Suc i + j) of Inl e \<Rightarrow> Throw e | Inr v \<Rightarrow> Ret v)"
  proof (intro allI impI)
    fix j assume "j < length os" "os ! j \<noteq> Pending"
    with Cons.prems(5) [rule_format, of "Suc j"]
    show "os ! j = (case fin ! (Suc i + j) of Inl e \<Rightarrow> Throw e | Inr v \<Rightarrow> Ret v)" by simp
  qed
  have "?D \<union> {j \<in> {Suc i..<length fin}. os ! (j - Suc i) \<noteq> Pending} =
      D \<union> {j \<in> {i..<length fin}. (a # os) ! (j - i) \<noteq> Pending}"
  proof -
    have "(a # os) ! (j - i) = os ! (j - Suc i)" if "Suc i \<le> j" for j
    proof -
      have "j - i = Suc (j - Suc i)" using that by simp
      then show ?thesis by simp
    qed
    moreover have "{i..<length fin} = insert i {Suc i..<length fin}" using i(1) by auto
    ultimately show ?thesis by auto
  qed
  with Cons.IH [OF j st(1) _ _ os] Cons.prems(3,4) i(2) st(2) show ?case by auto
qed

lemma completions_joined:
  assumes "joined fin D s" "started s" "distinct order" "set order \<subseteq> {..<length fin}" "set order \<inter> D = {}"
    and "set order \<union> D = {..<length fin}" "order \<noteq> []"
  shows "joined fin {..<length fin} (fold (\<lambda>i. wrapper_complete i (fin ! i)) order s) \<and>
    caller_resumed (fold (\<lambda>i. wrapper_complete i (fin ! i)) order s) = Suc (caller_resumed s) \<and>
    (\<forall>k < length order. caller_resumed (fold (\<lambda>i. wrapper_complete i (fin ! i)) (take k order) s) = caller_resumed s)"
  using assms
proof (induction order arbitrary: D s)
  case Nil
  then show ?case by simp
next
  case (Cons i order)
  let ?s = "wrapper_complete i (fin ! i) s"
  have j: "joined fin (insert i D) ?s" using joined_complete [OF Cons.prems(1)] Cons.prems(4,5) by auto
  have "card {..<length fin} = card (set (i # order)) + card D"
    using Cons.prems(5,6) joined_finite [OF Cons.prems(1)] by (metis List.finite_set card_Un_disjoint)
  then have rem: "remaining s = int (Suc (length order))"
    using Cons.prems(1,3) by (simp add: joined_def distinct_card)
  have cl: "caller s" using Cons.prems(1) by (simp add: joined_def)
  show ?case
  proof (cases "order = []")
    case True
    with Cons.prems(6) have "insert i D = {..<length fin}" by auto
    with True j rem cl Cons.prems(2) show ?thesis by (simp add: complete_frame)
  next
    case False
    then have r: "caller_resumed ?s = caller_resumed s" using rem by (cases order) (simp_all add: complete_frame)
    have "joined fin {..<length fin} (fold (\<lambda>i. wrapper_complete i (fin ! i)) order ?s) \<and>
      caller_resumed (fold (\<lambda>i. wrapper_complete i (fin ! i)) order ?s) = Suc (caller_resumed ?s) \<and>
      (\<forall>k < length order. caller_resumed (fold (\<lambda>i. wrapper_complete i (fin ! i)) (take k order) ?s) = caller_resumed ?s)"
      using Cons.prems False by (intro Cons.IH [OF j]) (auto simp: complete_frame)
    then show ?thesis using r by (auto simp: take_Cons' less_Suc_eq_0_disj)
  qed
qed

text \<open>What the caller gets once all tasks are through.\<close>

lemma joined_result:
  assumes t: "joined fin {..<length fin} t"
  shows "if \<exists>e. Inl e \<in> set fin then \<exists>e. Inl e \<in> set fin \<and> wa_await_resume t = Throw e
    else wa_await_resume t = Ret (map projr fin)"
proof (cases "wa_error t")
  case None
  with t have ok: "\<exists>v. fin ! i = Inr v" if "i < length fin" for i using that by (auto simp: joined_def)
  have "map the (slots t) = map projr fin"
  proof (rule nth_equalityI)
    show "length (map the (slots t)) = length (map projr fin)" using t by (simp add: joined_def)
    fix i assume "i < length (map the (slots t))"
    then have i: "i < length fin" using t by (simp add: joined_def)
    then obtain v where "fin ! i = Inr v" using ok by blast
    with t i show "map the (slots t) ! i = map projr fin ! i" by (simp add: joined_def)
  qed
  moreover have "\<not> (\<exists>e. Inl e \<in> set fin)" using ok by (metis Inl_Inr_False in_set_conv_nth)
  ultimately show ?thesis using None by (simp add: wa_await_resume_def)
next
  case (Some e)
  with t have "Inl e \<in> set fin" unfolding joined_def by (metis lessThan_iff nth_mem)
  with Some show ?thesis by (auto simp: wa_await_resume_def)
qed

section \<open>Properties\<close>

text \<open>
  C18. \<^verbatim>\<open>when_all\<close> continues its caller exactly once and with the right results. For any
  tasks, however many of them finish in their first run, and whatever the order in which the
  others complete: the caller is suspended just if some task is outstanding; it is then
  resumed by the last completion and by no earlier one; and it gets the values in the order
  of the tasks, or an exception that one of the tasks threw if any did.
\<close>

theorem when_all_joins:
  assumes "length os = length fin"
    and "\<forall>i < length fin. os ! i \<noteq> Pending \<longrightarrow> os ! i = (case fin ! i of Inl e \<Rightarrow> Throw e | Inr v \<Rightarrow> Ret v)"
    and "distinct order" "set order = {i \<in> {..<length fin}. os ! i = Pending}"
    and "wa_await_suspend os (wa_new (length fin)) = (suspended, s)"
    and "t = fold (\<lambda>i. wrapper_complete i (fin ! i)) order s"
  shows "(suspended \<longleftrightarrow> order \<noteq> []) \<and> caller_resumed s = 0 \<and>
    caller_resumed t = (if suspended then 1 else 0) \<and>
    (\<forall>k < length order. caller_resumed (fold (\<lambda>i. wrapper_complete i (fin ! i)) (take k order) s) = 0) \<and>
    (if \<exists>e. Inl e \<in> set fin then \<exists>e. Inl e \<in> set fin \<and> wa_await_resume t = Throw e
     else wa_await_resume t = Ret (map projr fin))"
proof -
  let ?n = "length fin" and ?D = "{j \<in> {0..<length fin}. os ! (j - 0) \<noteq> Pending}"
  have "joined fin {} ((wa_new ?n)\<lparr>caller := True\<rparr>)" by (simp add: joined_def wa_new_def)
  then have "joined fin ({} \<union> ?D) (resume_wrappers 0 os ((wa_new ?n)\<lparr>caller := True\<rparr>)) \<and>
      \<not> started (resume_wrappers 0 os ((wa_new ?n)\<lparr>caller := True\<rparr>)) \<and>
      caller_resumed (resume_wrappers 0 os ((wa_new ?n)\<lparr>caller := True\<rparr>)) =
        caller_resumed ((wa_new ?n)\<lparr>caller := True\<rparr> :: 'a when_all)"
    using assms(1,2) by (intro resume_wrappers_joined) (auto simp: wa_new_def)
  moreover have s: "s = (resume_wrappers 0 os ((wa_new ?n)\<lparr>caller := True\<rparr>))\<lparr>started := True\<rparr>"
      "suspended \<longleftrightarrow> remaining s \<noteq> 0"
    using assms(5) by (auto simp: wa_await_suspend_def Let_def)
  ultimately have j: "joined fin ?D s" "started s" "caller_resumed s = 0"
    by (simp_all add: joined_def wa_new_def)
  have D: "set order \<union> ?D = {..<?n}" "set order \<inter> ?D = {}" using assms(4) by auto
  have card: "card (set order) + card ?D = ?n"
    using D by (metis card_Un_disjoint card_lessThan finite_Un finite_lessThan)
  then have sus: "suspended \<longleftrightarrow> order \<noteq> []"
    using s(2) j(1) distinct_card [OF assms(3)] by (auto simp: joined_def)
  have t: "joined fin {..<?n} t \<and> caller_resumed t = (if suspended then 1 else 0) \<and>
      (\<forall>k < length order. caller_resumed (fold (\<lambda>i. wrapper_complete i (fin ! i)) (take k order) s) = 0)"
  proof (cases "order = []")
    case True
    then have "?D = {..<?n}" using D by simp
    with True j sus assms(6) show ?thesis by simp
  next
    case False
    with completions_joined [OF j(1,2) assms(3) _ D(2,1)] D(1) j(3) sus assms(6) show ?thesis by auto
  qed
  with sus j(3) joined_result [of fin t] show ?thesis by blast
qed

end
