(* ===== verification/Logging.thy ===== *)
theory Logging
  imports Std_Text
begin

unbundle bit_operations_syntax

text \<open>
  \<^verbatim>\<open>Logger.hpp\<close> and \<^verbatim>\<open>Logger.cpp\<close>: the process-wide logger. Its static members, the
  text on standard error and the files on disk are the state. The clock, the terminal test
  and the expansion of the \<^verbatim>\<open>printf\<close> arguments are the environment's: the time string,
  whether standard error is a terminal and the formatted message are arguments.
\<close>

section \<open>Levels\<close>

datatype LogLevel = DEBUG | INFO | WARN | ERROR

fun level_idx :: "LogLevel \<Rightarrow> nat" where
  "level_idx DEBUG = 0"
| "level_idx INFO = 1"
| "level_idx WARN = 2"
| "level_idx ERROR = 3"

lemma level_idx_eq [simp]: "level_idx a = level_idx b \<longleftrightarrow> a = b"
  by (cases a; cases b) simp_all

instantiation LogLevel :: linorder
begin

definition less_eq_LogLevel :: "LogLevel \<Rightarrow> LogLevel \<Rightarrow> bool" where
  "less_eq_LogLevel a b \<longleftrightarrow> level_idx a \<le> level_idx b"

definition less_LogLevel :: "LogLevel \<Rightarrow> LogLevel \<Rightarrow> bool" where
  "less_LogLevel a b \<longleftrightarrow> level_idx a < level_idx b"

instance
  by standard (auto simp: less_eq_LogLevel_def less_LogLevel_def)

end

definition G_LEVEL_STRINGS :: "string list" where
  "G_LEVEL_STRINGS = [''DEBUG'', ''INFO '', ''WARN '', ''ERROR'']"

definition ESC :: char where
  "ESC = CHR 0x1B"

definition G_LEVEL_COLORS :: "string list" where
  "G_LEVEL_COLORS = [ESC # ''[94m'', ESC # ''[32m'', ESC # ''[33m'', ESC # ''[31m'']"

definition COLOR_RESET :: string where "COLOR_RESET = ESC # ''[0m''"
definition COLOR_META :: string where "COLOR_META = ESC # ''[90m''"

section \<open>State\<close>

text \<open>
  \<^verbatim>\<open>s_file_stream\<close> is an output stream: the file its buffer is connected to, if any, and
  its fail bit, which makes every insertion a no-op.
\<close>

record Logger =
  s_level :: LogLevel
  s_log_file :: string
  fs_path :: "string option"
  fs_fail :: bool
  s_file_column_width :: u64
  stderr_text :: string
  disk :: "string \<rightharpoonup> string"

definition initial_logger :: Logger where
  "initial_logger = \<lparr>s_level = DEBUG, s_log_file = [], fs_path = None, fs_fail = False,
     s_file_column_width = 32, stderr_text = [], disk = Map.empty\<rparr>"

definition setLevel :: "LogLevel \<Rightarrow> Logger \<Rightarrow> Logger" where
  "setLevel l s = s\<lparr>s_level := l\<rparr>"

definition setFileColumnWidth :: "u64 \<Rightarrow> Logger \<Rightarrow> Logger" where
  "setFileColumnWidth w s = s\<lparr>s_file_column_width := w\<rparr>"

definition to_stderr :: "string \<Rightarrow> Logger \<Rightarrow> Logger" where
  "to_stderr t s = s\<lparr>stderr_text := stderr_text s @ t\<rparr>"

definition to_file :: "string \<Rightarrow> Logger \<Rightarrow> Logger" where
  "to_file t s =
     (case fs_path s of
        None \<Rightarrow> s
      | Some p \<Rightarrow> if fs_fail s then s
          else s\<lparr>disk := (disk s)(p \<mapsto> (case disk s p of None \<Rightarrow> [] | Some old \<Rightarrow> old) @ t)\<rparr>)"

section \<open>The log file\<close>

definition expand_home :: "string option \<Rightarrow> string \<Rightarrow> string" where
  "expand_home home p =
     (case p of
        c # rest \<Rightarrow> if c = CHR ''~'' then (case home of Some h \<Rightarrow> h @ rest | None \<Rightarrow> p) else p
      | [] \<Rightarrow> [])"

text \<open>\<^verbatim>\<open>std::filesystem::path::parent_path\<close> of a POSIX path; empty if there is none.\<close>

definition parent_path :: "string \<Rightarrow> string" where
  "parent_path p =
     (if CHR ''/'' \<notin> set p then []
      else let dir = rev (dropWhile (\<lambda>c. c = CHR ''/'') (dropWhile (\<lambda>c. c \<noteq> CHR ''/'') (rev p)))
           in if dir = [] then ''/'' else dir)"

text \<open>
  \<^verbatim>\<open>ofstream::open\<close> in append mode: on a stream that already has a file, or if the file
  cannot be opened, it sets the fail bit and changes nothing else; otherwise it clears it.
\<close>

definition stream_open :: "(string \<Rightarrow> bool) \<Rightarrow> string \<Rightarrow> Logger \<Rightarrow> Logger" where
  "stream_open openable p s =
     (if fs_path s \<noteq> None \<or> \<not> openable p then s\<lparr>fs_fail := True\<rparr>
      else s\<lparr>fs_path := Some p, fs_fail := False,
             disk := (disk s)(p \<mapsto> (case disk s p of None \<Rightarrow> [] | Some old \<Rightarrow> old))\<rparr>)"

text \<open>
  The file system is a parameter: \<open>mkdirs\<close> is \<^verbatim>\<open>create_directories\<close>, which fails with
  an exception of the given text, and \<open>openable\<close> whether a file can be opened for
  appending.
\<close>

definition setLogFile ::
    "string option \<Rightarrow> (string \<Rightarrow> string option) \<Rightarrow> (string \<Rightarrow> bool) \<Rightarrow> string \<Rightarrow> Logger \<Rightarrow> Logger" where
  "setLogFile home mkdirs openable file_path s0 =
     (let s = s0\<lparr>s_log_file := file_path\<rparr>;
          expanded_path = expand_home home file_path;
          parent = parent_path expanded_path in
      case (if parent \<noteq> [] then mkdirs parent else None) of
        Some what \<Rightarrow> to_stderr (''Warning: could not open log file '' @ expanded_path @ '' ('' @ what @ '')'' @ [newline]) s
      | None \<Rightarrow> stream_open openable expanded_path s)"

section \<open>Writing\<close>

definition show_int :: "int \<Rightarrow> string" where
  "show_int i = (if i < 0 then CHR ''-'' # show_nat (nat (- i)) else show_nat (nat i))"

text \<open>
  \<^verbatim>\<open>std::string::substr(pos)\<close> throws if \<open>pos\<close> lies behind the end; \<open>pos\<close> is computed
  in \<^verbatim>\<open>size_t\<close>.
\<close>

definition substr :: "string \<Rightarrow> u64 \<Rightarrow> exn + string" where
  "substr s pos = (if length s < unat pos then Inl OutOfRange else Inr (drop (unat pos) s))"

definition location :: "string \<Rightarrow> int \<Rightarrow> string" where
  "location basename line = CHR ''('' # basename @ CHR '':'' # show_int line @ '')''"

definition format_file_column :: "u64 \<Rightarrow> string \<Rightarrow> int \<Rightarrow> exn + string" where
  "format_file_column width basename line =
     (let loc = location basename line;
          size = of_nat (length loc) :: u64 in
      if width < size then
        (case substr loc (size - (width - 2)) of
           Inl e \<Rightarrow> Inl e
         | Inr t \<Rightarrow> Inr (''..'' @ t))
      else Inr (loc @ replicate (unat (width - size)) (CHR '' '')))"

definition sanitized :: "string \<Rightarrow> string" where
  "sanitized s = concat (map (\<lambda>c. if c = newline then [CHR 0x5C, CHR ''n''] else [c]) s)"

definition basename_of :: "string \<Rightarrow> string" where
  "basename_of file =
     (if CHR ''/'' \<in> set file then rev (takeWhile (\<lambda>c. c \<noteq> CHR ''/'') (rev file)) else file)"

text \<open>The message as the C string in a buffer of 2048 characters.\<close>

definition message_buffer :: "string \<Rightarrow> string" where
  "message_buffer formatted = takeWhile (\<lambda>c. c \<noteq> CHR 0x00) (take 2047 formatted)"

text \<open>
  \<^verbatim>\<open>get_formatted_time\<close>, for a clock that shows \<open>now\<close> nanoseconds since the epoch. The calendar
  is that of \<^verbatim>\<open>localtime\<close>, of which the format uses these fields; \<^verbatim>\<open>snprintf\<close> appends the
  milliseconds in what is left of the buffer of 100 characters.
\<close>

record tm =
  tm_year :: nat
  tm_mon :: nat
  tm_mday :: nat
  tm_hour :: nat
  tm_min :: nat
  tm_sec :: nat

definition padded :: "nat \<Rightarrow> nat \<Rightarrow> string" where
  "padded width n = replicate (width - length (show_nat n)) (CHR ''0'') @ show_nat n"

definition strftime :: "tm \<Rightarrow> string" where
  "strftime t = show_nat (1900 + tm_year t) @ ''-'' @ padded 2 (tm_mon t + 1) @ ''-'' @ padded 2 (tm_mday t) @ '' '' @
     padded 2 (tm_hour t) @ '':'' @ padded 2 (tm_min t) @ '':'' @ padded 2 (tm_sec t)"

definition get_formatted_time :: "(nat \<Rightarrow> tm) \<Rightarrow> nat \<Rightarrow> string" where
  "get_formatted_time localtime now =
     (let time_t_now = now div 1000000000;
          ms = now div 1000000 mod 1000;
          time_buffer = strftime (localtime time_t_now) in
      time_buffer @ take (100 - length time_buffer - 1) (''.'' @ padded 3 ms))"

text \<open>
  \<^verbatim>\<open>Logger::log\<close>. The stream insertions are evaluated from left to right, so what precedes
  the column is out before the column is computed.
\<close>

definition log :: "string \<Rightarrow> bool \<Rightarrow> LogLevel \<Rightarrow> string \<Rightarrow> int \<Rightarrow> string \<Rightarrow> (Logger, unit) co" where
  "log time_str tty level file line formatted s =
     (if level < s_level s then (Ret (), s)
      else
        let basename = basename_of file;
            name = G_LEVEL_STRINGS ! level_idx level;
            msg = sanitized (message_buffer formatted);
            s1 = (if tty then to_stderr (COLOR_META @ time_str @ '' '' @ COLOR_RESET @
                     G_LEVEL_COLORS ! level_idx level @ ''['' @ name @ '']'' @ COLOR_RESET @ COLOR_META @ '' '') s
                  else to_stderr (time_str @ '' ['' @ name @ ''] '' @ '' '') s) in
        case format_file_column (s_file_column_width s) basename line of
          Inl e \<Rightarrow> (Throw e, s1)
        | Inr col \<Rightarrow>
            let s2 = to_stderr (col @ '': '' @ (if tty then COLOR_RESET else []) @ msg @ [newline]) s1 in
            (Ret (), if fs_path s2 = None then s2
                     else to_file (time_str @ '' ['' @ name @ ''] '' @ '' '' @ col @ '': '' @ msg @ [newline]) s2))"

text \<open>\<^verbatim>\<open>Logger::log_s\<close> has the same body.\<close>

definition log_s :: "string \<Rightarrow> bool \<Rightarrow> LogLevel \<Rightarrow> string \<Rightarrow> int \<Rightarrow> string \<Rightarrow> (Logger, unit) co" where
  "log_s time_str tty level file line formatted = log time_str tty level file line formatted"

text \<open>
  On Windows, \<^verbatim>\<open>log\<close> first switches the console to escape sequences. The console is the
  system's: whether there is a handle, its mode if that can be read, and whether it can be set;
  \<open>enabled\<close> is the static local of the function.
\<close>

record win_console =
  enabled :: bool
  handle_valid :: bool
  con_mode :: "u32 option"
  mode_settable :: bool

definition ENABLE_VIRTUAL_TERMINAL_PROCESSING :: u32 where
  "ENABLE_VIRTUAL_TERMINAL_PROCESSING = 4"

definition enable_virtual_terminal_processing :: "win_console \<Rightarrow> win_console" where
  "enable_virtual_terminal_processing c =
     (if enabled c then c
      else if \<not> handle_valid c then c
      else case con_mode c of
        None \<Rightarrow> c
      | Some mode \<Rightarrow>
          if mode_settable c
          then c\<lparr>con_mode := Some (mode OR ENABLE_VIRTUAL_TERMINAL_PROCESSING), enabled := True\<rparr>
          else c)"

definition log_win32 ::
    "string \<Rightarrow> bool \<Rightarrow> LogLevel \<Rightarrow> string \<Rightarrow> int \<Rightarrow> string \<Rightarrow> (win_console \<times> Logger, unit) co" where
  "log_win32 time_str tty level file line formatted = (\<lambda>(c, s).
     if level < s_level s then (Ret (), (c, s))
     else let (r, s') = log time_str tty level file line formatted s in
       (r, (enable_virtual_terminal_processing c, s')))"

section \<open>Facts\<close>

text \<open>
  The mode is changed at most once, by the one bit, and the text is the same on every system.
\<close>

lemma console_switched_once:
  "enable_virtual_terminal_processing (enable_virtual_terminal_processing c) = enable_virtual_terminal_processing c"
  "enabled (enable_virtual_terminal_processing c) \<longleftrightarrow>
     enabled c \<or> handle_valid c \<and> con_mode c \<noteq> None \<and> mode_settable c"
  "snd (snd (log_win32 time_str tty level file line formatted (c, s))) =
     snd (log time_str tty level file line formatted s)"
  by (auto simp: enable_virtual_terminal_processing_def log_win32_def log_def or.assoc split: option.splits prod.splits)

lemma newline_notin_sanitized [simp]: "newline \<notin> set (sanitized s)"
  by (auto simp: sanitized_def newline_def)

lemma newline_notin_show_int [simp]: "newline \<notin> set (show_int i)"
proof -
  have "newline \<notin> set (show_nat n)" for n
    using show_nat_digits [of newline n] by (auto simp: newline_def is_digit_def)
  then show ?thesis by (simp add: show_int_def newline_def)
qed

lemma show_int_nonempty: "show_int i \<noteq> []"
  by (simp add: show_int_def)

text \<open>Where the tail of the location starts, in \<^verbatim>\<open>size_t\<close> arithmetic.\<close>

lemma tail_position:
  fixes n w :: u64
  shows "2 \<le> w \<Longrightarrow> w < n \<Longrightarrow> unat (n - (w - 2)) = unat n - (unat w - 2)"
    and "w < 2 \<Longrightarrow> unat n + 2 < 2 ^ 64 \<Longrightarrow> unat (n - (w - 2)) = unat n + 2 - unat w"
proof -
  assume a: "2 \<le> w" "w < n"
  then have "unat (w - 2) = unat w - 2"
    by (simp add: unat_sub_if_size word_le_nat_alt)
  with a show "unat (n - (w - 2)) = unat n - (unat w - 2)"
    by (simp add: unat_sub_if_size [of n "w - 2"] word_less_nat_alt)
next
  assume a: "w < 2" "unat n + 2 < 2 ^ 64"
  then have "unat (2 - w) = 2 - unat w"
    by (simp add: unat_sub_if_size word_less_nat_alt)
  then have "unat (n + (2 - w)) = unat n + 2 - unat w"
    using a unat_plus_if_size [of n "2 - w"] by (simp add: word_size word_less_nat_alt split: if_splits)
  moreover have "n - (w - 2) = n + (2 - w)" by simp
  ultimately show "unat (n - (w - 2)) = unat n + 2 - unat w" by (simp only:)
qed

lemma location_facts:
  "3 \<le> length (location basename line)" "length (location basename line) = length basename + length (show_int line) + 3"
  "newline \<notin> set basename \<Longrightarrow> newline \<notin> set (location basename line)"
  using newline_notin_show_int [of line] by (simp_all add: location_def newline_def)

lemma format_file_column_ok:
  assumes "2 \<le> width" "length (location basename line) < 2 ^ 63"
  obtains col where "format_file_column width basename line = Inr col" "length col = unat width"
    "newline \<notin> set basename \<Longrightarrow> newline \<notin> set col"
proof -
  let ?loc = "location basename line" and ?size = "of_nat (length (location basename line)) :: u64"
  have size: "unat ?size = length ?loc" using assms(2) by (simp only: unat_of_nat) simp
  show ?thesis
  proof (cases "width < ?size")
    case False
    have "unat (width - ?size) = unat width - length ?loc" "length ?loc \<le> unat width"
      using False size by (simp_all add: unat_sub_if_size word_less_nat_alt)
    with False location_facts(3) [of basename line] show ?thesis
      by (intro that [of "?loc @ replicate (unat (width - ?size)) (CHR '' '')"])
        (auto simp: format_file_column_def Let_def newline_def)
  next
    case True
    have "unat (?size - (width - 2)) = length ?loc - (unat width - 2)"
      using tail_position(1) [OF assms(1) True] by (simp only: size)
    then have "substr ?loc (?size - (width - 2)) = Inr (drop (length ?loc - (unat width - 2)) ?loc)"
      by (simp add: substr_def)
    moreover have "2 \<le> unat width" "unat width < length ?loc"
      using assms(1) True size by (simp_all add: word_le_nat_alt word_less_nat_alt)
    ultimately show ?thesis
      using True location_facts(3) [of basename line]
      by (intro that [of "''..'' @ drop (length ?loc - (unat width - 2)) ?loc"])
        (auto simp: format_file_column_def Let_def newline_def dest: in_set_dropD)
  qed
qed

lemma format_file_column_narrow:
  assumes "width < 2" "length (location basename line) < 2 ^ 63"
  shows "format_file_column width basename line = Inl OutOfRange"
proof -
  let ?loc = "location basename line" and ?size = "of_nat (length (location basename line)) :: u64"
  have size: "unat ?size = length ?loc" using assms(2) by (simp only: unat_of_nat) simp
  have w: "unat width < 2" using assms(1) by (simp add: word_less_nat_alt)
  then have lt: "width < ?size" using size location_facts(1) [of basename line] by (simp add: word_less_nat_alt)
  have "unat (?size - (width - 2)) = length ?loc + 2 - unat width"
    using tail_position(2) [OF assms(1), of ?size] assms(2) unfolding size by simp
  then have "substr ?loc (?size - (width - 2)) = Inl OutOfRange"
    using w by (simp add: substr_def)
  with lt show ?thesis by (simp add: format_file_column_def Let_def)
qed

lemma level_strings: "newline \<notin> set (G_LEVEL_STRINGS ! level_idx l)" "newline \<notin> set (G_LEVEL_COLORS ! level_idx l)"
  by (cases l; simp add: G_LEVEL_STRINGS_def G_LEVEL_COLORS_def newline_def ESC_def)+

lemma basename_subset: "set (basename_of file) \<subseteq> set file"
  by (auto simp: basename_of_def dest: set_takeWhileD)

section \<open>Properties\<close>

text \<open>
  C39. The location column. With a width of at least two the column has exactly the
  configured width, whatever the file name and line; with a width of zero or one the
  unsigned subtraction wraps around and every call throws \<^verbatim>\<open>std::out_of_range\<close>.
\<close>

theorem log_column_width:
  assumes "length (location basename line) < 2 ^ 63"
  shows "if 2 \<le> width
    then \<exists>col. format_file_column width basename line = Inr col \<and> length col = unat width
    else format_file_column width basename line = Inl OutOfRange"
  using format_file_column_ok [OF _ assms, of width] format_file_column_narrow [OF _ assms, of width]
  by (auto simp: not_le)

lemma show_nat_no_newline: "newline \<notin> set (show_nat n)"
  using show_nat_digits [of newline n] by (auto simp: is_digit_def newline_def)

lemma padded_no_newline: "newline \<notin> set (padded k n)"
  by (simp add: padded_def show_nat_no_newline) (simp add: newline_def)

lemma time_no_newline: "newline \<notin> set (get_formatted_time localtime now)"
proof -
  have "newline \<notin> set (strftime t)" for t
    by (simp add: strftime_def show_nat_no_newline padded_no_newline) (simp add: newline_def)
  moreover have "newline \<notin> set (''.'' @ padded 3 ms)" for ms
    by (simp add: padded_no_newline) (simp add: newline_def)
  ultimately show ?thesis by (auto simp: get_formatted_time_def Let_def dest: in_set_takeD)
qed

lemma length_show_nat: "0 < k \<Longrightarrow> n < 10 ^ k \<Longrightarrow> length (show_nat n) \<le> k"
proof (induction k arbitrary: n)
  case (Suc k)
  show ?case
  proof (cases "n < 10")
    case True
    then show ?thesis by (subst show_nat.simps) simp
  next
    case False
    then have "0 < k" using Suc.prems(2) by (cases k) auto
    moreover have "n div 10 < 10 ^ k" using Suc.prems(2) by (simp add: less_mult_imp_div_less mult.commute)
    ultimately have "length (show_nat (n div 10)) \<le> k" by (rule Suc.IH)
    with False show ?thesis by (subst show_nat.simps) simp
  qed
qed simp

lemma length_padded: "0 < k \<Longrightarrow> n < 10 ^ k \<Longrightarrow> length (padded k n) = k"
  using length_show_nat [of k n] by (simp add: padded_def)

lemma length_show_nat_ge: "10 ^ k \<le> n \<Longrightarrow> Suc k \<le> length (show_nat n)"
proof (induction k arbitrary: n)
  case 0
  then show ?case using show_nat_nonempty [of n] by (cases "show_nat n") simp_all
next
  case (Suc k)
  then have "10 ^ k \<le> n div 10" by (simp add: less_eq_div_iff_mult_less_eq mult.commute)
  then have "Suc k \<le> length (show_nat (n div 10))" by (rule Suc.IH)
  moreover have "\<not> n < 10" using Suc.prems by (auto simp: not_less intro: order_trans [of 10 "10 * 10 ^ k"])
  ultimately show ?case by (subst show_nat.simps) simp
qed

lemma length_year: "1000 \<le> y \<Longrightarrow> y < 10000 \<Longrightarrow> length (show_nat y) = 4"
  using length_show_nat [of 4 y] length_show_nat_ge [of 3 y] by simp

text \<open>
  The time stamp fits. For the calendar fields \<^verbatim>\<open>localtime\<close> yields before the year 10000, the
  stamp has exactly 23 characters, so that neither call truncates it in the buffer of 100.
\<close>

lemma timestamp_width:
  assumes "t = localtime (now div 1000000000)" "tm_year t \<le> 8099" "tm_mon t < 12" "tm_mday t \<le> 31"
    and "tm_hour t < 24" "tm_min t < 60" "tm_sec t \<le> 60"
  shows "length (get_formatted_time localtime now) = 23 \<and>
    get_formatted_time localtime now = strftime t @ ''.'' @ padded 3 (now div 1000000 mod 1000)"
proof -
  have two: "length (padded 2 n) = 2" if "n < 100" for n using length_padded [of 2 n] that by simp
  have "length (strftime t) = 19"
    using assms length_year [of "1900 + tm_year t"] by (simp add: strftime_def two)
  moreover have "length (padded 3 (now div 1000000 mod 1000)) = 3" by (rule length_padded) simp_all
  ultimately show ?thesis using assms(1) by (simp add: get_formatted_time_def Let_def)
qed

text \<open>
  One record, one line. A record at or above the configured level adds exactly one
  line to standard error and, if a log file is open, exactly one to that file, even if the
  message contains line feeds; a record below the level leaves no trace.
\<close>

theorem log_record_is_one_line:
  assumes "length (location (basename_of file) line) < 2 ^ 63"
    and "2 \<le> s_file_column_width s" "newline \<notin> set file" "time_str = get_formatted_time localtime now"
  shows "if level < s_level s then log time_str tty level file line formatted s = (Ret (), s)
    else \<exists>t u. newline \<notin> set t \<and> newline \<notin> set u \<and>
      log time_str tty level file line formatted s =
        (Ret (), (if fs_path s = None then to_stderr (t @ [newline]) s
                  else to_file (u @ [newline]) (to_stderr (t @ [newline]) s)))"
proof (cases "level < s_level s")
  case True
  then show ?thesis by (simp add: log_def)
next
  case False
  let ?name = "G_LEVEL_STRINGS ! level_idx level" and ?color = "G_LEVEL_COLORS ! level_idx level"
    and ?msg = "sanitized (message_buffer formatted)"
  have "newline \<notin> set (basename_of file)" using assms(3) basename_subset by blast
  then obtain col where col: "format_file_column (s_file_column_width s) (basename_of file) line = Inr col"
      "newline \<notin> set col"
    using format_file_column_ok [OF assms(2,1)] by metis
  define t where "t = (if tty then COLOR_META @ time_str @ '' '' @ COLOR_RESET @ ?color @ ''['' @ ?name @ '']'' @
      COLOR_RESET @ COLOR_META @ '' '' else time_str @ '' ['' @ ?name @ ''] '' @ '' '') @
      col @ '': '' @ (if tty then COLOR_RESET else []) @ ?msg"
  define u where "u = time_str @ '' ['' @ ?name @ ''] '' @ '' '' @ col @ '': '' @ ?msg"
  have esc: "newline \<notin> set COLOR_META" "newline \<notin> set COLOR_RESET"
      "newline \<noteq> CHR ''['' \<and> newline \<noteq> CHR '']'' \<and> newline \<noteq> CHR '' '' \<and> newline \<noteq> CHR '':''"
    by (simp_all add: COLOR_META_def COLOR_RESET_def ESC_def newline_def)
  have "newline \<notin> set t" "newline \<notin> set u"
    using time_no_newline [of localtime now] assms(4) col(2) level_strings [of level] esc by (simp_all add: t_def u_def)
  moreover have "log time_str tty level file line formatted s =
      (Ret (), (if fs_path s = None then to_stderr (t @ [newline]) s
                else to_file (u @ [newline]) (to_stderr (t @ [newline]) s)))"
    using False col(1) by (simp add: log_def Let_def to_stderr_def t_def u_def)
  ultimately show ?thesis using False by (simp only: if_False) blast
qed

text \<open>
  Choosing a second log file silences the file log. The stream still has the first
  file, so opening the second one fails and sets the stream's fail bit: no later record
  reaches either file.
\<close>

theorem second_log_file_silences:
  assumes "fs_path s = Some p" "mkdirs (parent_path (expand_home home file_path)) = None"
    and "t = setLogFile home mkdirs openable file_path s"
  shows "disk (snd (log time_str tty level file line formatted t)) = disk s"
proof -
  have t: "t = s\<lparr>s_log_file := file_path, fs_fail := True\<rparr>"
    using assms by (simp add: setLogFile_def Let_def stream_open_def)
  show ?thesis
    using assms(1) by (simp add: t log_def Let_def to_stderr_def to_file_def split: sum.split)
qed

end
