(* ===== verification/Config_File.thy ===== *)
theory Config_File
  imports Server_State Logging
begin

text \<open>
  \<^verbatim>\<open>ServerConfigFile.cpp\<close>: the configuration file. Loading acts on the server and on the
  logger; a conversion that throws leaves the settings of the lines before it in place.
\<close>

section \<open>Parsing\<close>

definition parse_log_level :: "string \<Rightarrow> LogLevel" where
  "parse_log_level s =
     (if s = ''DEBUG'' then DEBUG else if s = ''INFO'' then INFO
      else if s = ''WARN'' then WARN else if s = ''ERROR'' then ERROR else INFO)"

definition trim :: "string \<Rightarrow> string" where
  "trim s = rev (dropWhile isspace (rev (dropWhile isspace s)))"

text \<open>The file system the logger needs when a log file is set.\<close>

record fs_env =
  env_home :: "string option"
  env_mkdirs :: "string \<Rightarrow> string option"
  env_openable :: "string \<Rightarrow> bool"

type_synonym ('st, 'z) configured = "('st, 'z) Server_scheme \<times> Logger"

definition apply_setting :: "fs_env \<Rightarrow> string \<Rightarrow> string \<Rightarrow> (('st, 'z) configured, unit) co" where
  "apply_setting E key value =
     (\<lambda>(s, l).
       if key = ''tcp'' then
         (case stoi value of Inl e \<Rightarrow> (Throw e, (s, l)) | Inr v \<Rightarrow> (Ret (), (enable_tcp (word_of_int v) BINARY s, l)))
       else if key = ''udp'' then
         (case stoi value of Inl e \<Rightarrow> (Throw e, (s, l)) | Inr v \<Rightarrow> (Ret (), (enable_udp (word_of_int v) s, l)))
       else if key = ''unix'' then (Ret (), (enable_unix_socket value BINARY s, l))
       else if key = ''max_clients'' then
         (case stoul value of Inl e \<Rightarrow> (Throw e, (s, l)) | Inr v \<Rightarrow> (Ret (), (set_max_clients v s, l)))
       else if key = ''log_level'' then (Ret (), (s, setLevel (parse_log_level value) l))
       else if key = ''log_file'' then
         (Ret (), (s, setLogFile (env_home E) (env_mkdirs E) (env_openable E) value l))
       else (Ret (), (s, l)))"

text \<open>One line: blank lines, comments and lines without \<^verbatim>\<open>=\<close> are skipped.\<close>

definition config_line :: "fs_env \<Rightarrow> string \<Rightarrow> (('st, 'z) configured, unit) co" where
  "config_line E raw =
     (let line = trim raw in
      if line = [] \<or> hd line = CHR ''#'' then co_ret ()
      else if CHR ''='' \<notin> set line then co_ret ()
      else apply_setting E (trim (takeWhile (\<lambda>c. c \<noteq> CHR ''='') line))
             (trim (tl (dropWhile (\<lambda>c. c \<noteq> CHR ''='') line))))"

text \<open>\<^verbatim>\<open>std::getline\<close>: the last line need not end in a line feed.\<close>

fun getlines :: "string \<Rightarrow> string \<Rightarrow> string list" where
  "getlines acc [] = (if acc = [] then [] else [acc])"
| "getlines acc (c # cs) = (if c = newline then acc # getlines [] cs else getlines (acc @ [c]) cs)"

fun config_lines :: "fs_env \<Rightarrow> string list \<Rightarrow> (('st, 'z) configured, unit) co" where
  "config_lines E [] = co_ret ()"
| "config_lines E (l # ls) = co_seq (config_line E l) (config_lines E ls)"

definition load_config :: "fs_env \<Rightarrow> (string \<rightharpoonup> string) \<Rightarrow> string \<Rightarrow> (('st, 'z) configured, unit) co" where
  "load_config E files path =
     (case files path of
        None \<Rightarrow> co_throw (RuntimeError (''Unable to open config file: '' @ path))
      | Some content \<Rightarrow> config_lines E (getlines [] content))"

section \<open>Writing a configuration\<close>

datatype setting = Tcp u16 | Udp u16 | Unix string | MaxClients u64 | Level LogLevel | LogFile string

fun setting_key :: "setting \<Rightarrow> string" where
  "setting_key (Tcp _) = ''tcp''"
| "setting_key (Udp _) = ''udp''"
| "setting_key (Unix _) = ''unix''"
| "setting_key (MaxClients _) = ''max_clients''"
| "setting_key (Level _) = ''log_level''"
| "setting_key (LogFile _) = ''log_file''"

fun level_name :: "LogLevel \<Rightarrow> string" where
  "level_name DEBUG = ''DEBUG''"
| "level_name INFO = ''INFO''"
| "level_name WARN = ''WARN''"
| "level_name ERROR = ''ERROR''"

fun setting_value :: "setting \<Rightarrow> string" where
  "setting_value (Tcp p) = show_nat (unat p)"
| "setting_value (Udp p) = show_nat (unat p)"
| "setting_value (Unix p) = p"
| "setting_value (MaxClients m) = show_nat (unat m)"
| "setting_value (Level l) = level_name l"
| "setting_value (LogFile p) = p"

fun apply_meaning :: "fs_env \<Rightarrow> setting \<Rightarrow> ('st, 'z) configured \<Rightarrow> ('st, 'z) configured" where
  "apply_meaning E (Tcp p) (s, l) = (enable_tcp p BINARY s, l)"
| "apply_meaning E (Udp p) (s, l) = (enable_udp p s, l)"
| "apply_meaning E (Unix p) (s, l) = (enable_unix_socket p BINARY s, l)"
| "apply_meaning E (MaxClients m) (s, l) = (set_max_clients m s, l)"
| "apply_meaning E (Level v) (s, l) = (s, setLevel v l)"
| "apply_meaning E (LogFile p) (s, l) = (s, setLogFile (env_home E) (env_mkdirs E) (env_openable E) p l)"

text \<open>A line: padding around key and value, and anything after \<^verbatim>\<open>#\<close> at the start is a comment.\<close>

datatype entry = Setting string string string string setting | Comment string string

definition blank :: "string \<Rightarrow> bool" where
  "blank p \<longleftrightarrow> (\<forall>c \<in> set p. isspace c \<and> c \<noteq> newline)"

fun entry_line :: "entry \<Rightarrow> string" where
  "entry_line (Setting a b c d st) = a @ setting_key st @ b @ ''='' @ c @ setting_value st @ d"
| "entry_line (Comment a t) = a @ (if t = [] then [] else CHR ''#'' # t)"

text \<open>A value that is not changed by trimming and fits on a line.\<close>

definition clean :: "string \<Rightarrow> bool" where
  "clean v \<longleftrightarrow> v \<noteq> [] \<and> \<not> isspace (hd v) \<and> \<not> isspace (last v) \<and> newline \<notin> set v"

fun wf_entry :: "entry \<Rightarrow> bool" where
  "wf_entry (Setting a b c d st) \<longleftrightarrow> blank a \<and> blank b \<and> blank c \<and> blank d \<and>
     (case st of Unix p \<Rightarrow> clean p | LogFile p \<Rightarrow> clean p | _ \<Rightarrow> True)"
| "wf_entry (Comment a t) \<longleftrightarrow> blank a \<and> newline \<notin> set t"

fun entry_meaning :: "fs_env \<Rightarrow> entry \<Rightarrow> ('st, 'z) configured \<Rightarrow> ('st, 'z) configured" where
  "entry_meaning E (Setting _ _ _ _ st) x = apply_meaning E st x"
| "entry_meaning E (Comment _ _) x = x"

section \<open>Facts\<close>

lemma getlines_line:
  "newline \<notin> set l \<Longrightarrow> getlines acc (l @ newline # rest) = (acc @ l) # getlines [] rest"
  by (induction l arbitrary: acc) auto

lemma dropWhile_blank: "blank p \<Longrightarrow> dropWhile isspace (p @ s) = dropWhile isspace s"
  by (induction p) (auto simp: blank_def)

lemma trim_pad:
  assumes "blank a" "blank b" "v \<noteq> []" "\<not> isspace (hd v)" "\<not> isspace (last v)"
  shows "trim (a @ v @ b) = v"
proof -
  have "dropWhile isspace (v @ b) = v @ b" using assms(3,4) by (cases v) auto
  moreover have "blank (rev b)" using assms(2) by (simp add: blank_def)
  moreover have "dropWhile isspace (rev v) = rev v" using assms(3,5) by (cases v rule: rev_cases) auto
  ultimately show ?thesis using assms(1) by (simp add: trim_def dropWhile_blank)
qed

lemma trim_blank: "blank a \<Longrightarrow> trim a = []"
proof -
  assume "blank a"
  then have "dropWhile isspace a = []" by (simp add: blank_def)
  then show ?thesis unfolding trim_def by (simp only: rev.simps dropWhile.simps)
qed

lemma key_facts:
  "setting_key st \<noteq> []" "\<not> isspace (hd (setting_key st))" "\<not> isspace (last (setting_key st))"
  "hd (setting_key st) \<noteq> CHR ''#''" "CHR ''='' \<notin> set (setting_key st)" "newline \<notin> set (setting_key st)"
  by (cases st; simp add: isspace_def newline_def)+

lemma show_nat_clean: "clean (show_nat n)"
  using show_nat_digits [of "hd (show_nat n)" n] show_nat_digits [of "last (show_nat n)" n]
    show_nat_digits [of newline n]
  by (auto simp: clean_def newline_def is_digit_def)

lemma value_clean:
  assumes "case st of Unix p \<Rightarrow> clean p | LogFile p \<Rightarrow> clean p | _ \<Rightarrow> True"
  shows "clean (setting_value st)"
proof (cases st)
  case (Level l)
  then show ?thesis by (cases l) (simp_all add: clean_def isspace_def newline_def)
qed (use assms in \<open>simp_all add: show_nat_clean\<close>)

lemma u16_int: "word_of_int (int (unat (p :: u16))) = p"
  by simp

lemma apply_setting_meaning: "apply_setting E (setting_key st) (setting_value st) x = (Ret (), apply_meaning E st x)"
proof (cases st)
  case (Tcp p)
  have "unat p < 2 ^ 31" using unsigned_less [of p, where ?'a = nat] by simp
  with Tcp show ?thesis by (cases x) (simp add: apply_setting_def stoi_show_nat)
next
  case (Udp p)
  have "unat p < 2 ^ 31" using unsigned_less [of p, where ?'a = nat] by simp
  with Udp show ?thesis by (cases x) (simp add: apply_setting_def stoi_show_nat)
next
  case (Level l)
  then show ?thesis by (cases x; cases l) (simp_all add: apply_setting_def parse_log_level_def)
qed (cases x; simp add: apply_setting_def stoul_show_nat)+

lemma takeWhile_key:
  assumes "CHR ''='' \<notin> set k"
  shows "takeWhile (\<lambda>c. c \<noteq> CHR ''='') (k @ CHR ''='' # v) = k"
    "tl (dropWhile (\<lambda>c. c \<noteq> CHR ''='') (k @ CHR ''='' # v)) = v"
  using assms by (induction k) auto

lemma blank_no_eq: "blank b \<Longrightarrow> CHR ''='' \<notin> set b"
proof -
  have "\<not> isspace (CHR ''='')" by (simp add: isspace_def)
  then show "blank b \<Longrightarrow> CHR ''='' \<notin> set b" by (auto simp only: blank_def)
qed

lemma blank_no_newline: "blank b \<Longrightarrow> newline \<notin> set b"
  by (auto simp only: blank_def)

lemma newline_punctuation: "newline \<noteq> CHR ''=''" "newline \<noteq> CHR ''#''"
  by (simp_all add: newline_def)

lemma config_line_setting:
  assumes "blank a" "blank b" "blank c" "blank d" "clean v"
    and "k \<noteq> []" "\<not> isspace (hd k)" "\<not> isspace (last k)" "hd k \<noteq> CHR ''#''" "CHR ''='' \<notin> set k"
  shows "config_line E (a @ k @ b @ ''='' @ c @ v @ d) x = apply_setting E k v x"
proof -
  let ?m = "k @ b @ CHR ''='' # c @ v"
  have v: "v \<noteq> []" "\<not> isspace (hd v)" "\<not> isspace (last v)" using assms(5) by (simp_all add: clean_def)
  have "trim (a @ ?m @ d) = ?m" by (rule trim_pad) (use assms v in auto)
  then have "trim (a @ k @ b @ ''='' @ c @ v @ d) = ?m" by simp
  moreover have "trim (takeWhile (\<lambda>c. c \<noteq> CHR ''='') ?m) = k"
    using takeWhile_key(1) [of "k @ b" "c @ v"] trim_pad [of "[]" b k] assms blank_no_eq [OF assms(2)]
    by (simp add: blank_def)
  moreover have "trim (tl (dropWhile (\<lambda>c. c \<noteq> CHR ''='') ?m)) = v"
    using takeWhile_key(2) [of "k @ b" "c @ v"] trim_pad [of c "[]" v] assms v blank_no_eq [OF assms(2)]
    by (simp add: blank_def)
  ultimately show ?thesis using assms(6,9) by (simp add: config_line_def Let_def)
qed

lemma config_line_comment:
  assumes "blank a"
  shows "config_line E (entry_line (Comment a t)) x = (Ret (), x)"
proof (cases "t = []")
  case True
  with assms show ?thesis by (simp add: config_line_def trim_blank)
next
  case False
  have "hd (rev (dropWhile isspace (rev t @ [CHR ''#'']))) = CHR ''#''"
  proof (cases "\<forall>c \<in> set (rev t). isspace c")
    case True
    then have "dropWhile isspace (rev t @ [CHR ''#'']) = dropWhile isspace [CHR ''#'']"
      by (intro dropWhile_append2) auto
    then show ?thesis by (simp add: isspace_def)
  next
    case False
    then obtain c where "c \<in> set (rev t)" "\<not> isspace c" by blast
    then show ?thesis by (simp add: dropWhile_append1)
  qed
  then have "hd (trim (a @ CHR ''#'' # t)) = CHR ''#''"
    using assms by (simp add: trim_def dropWhile_blank isspace_def)
  with False show ?thesis by (simp add: config_line_def Let_def)
qed

lemma config_line_entry:
  assumes "wf_entry e"
  shows "config_line E (entry_line e) x = (Ret (), entry_meaning E e x)"
proof (cases e)
  case (Setting a b c d st)
  have "config_line E (entry_line e) x = apply_setting E (setting_key st) (setting_value st) x"
    unfolding Setting entry_line.simps
    using assms Setting key_facts [of st] by (intro config_line_setting) (auto intro: value_clean)
  with Setting show ?thesis by (simp add: apply_setting_meaning)
next
  case (Comment a t)
  with assms config_line_comment [of a E t x] show ?thesis by simp
qed

lemma newline_notin_entry: "wf_entry e \<Longrightarrow> newline \<notin> set (entry_line e)"
proof (cases e)
  case (Setting a b c d st)
  assume "wf_entry e"
  with Setting value_clean [of st] key_facts(6) [of st] newline_punctuation show ?thesis
    by (simp add: blank_no_newline clean_def)
next
  case (Comment a t)
  assume "wf_entry e"
  with Comment newline_punctuation show ?thesis by (simp add: blank_no_newline)
qed

definition config_text :: "entry list \<Rightarrow> string" where
  "config_text es = concat (map (\<lambda>e. entry_line e @ [newline]) es)"

lemma getlines_config_text:
  "\<forall>e \<in> set es. wf_entry e \<Longrightarrow> getlines [] (config_text es @ rest) = map entry_line es @ getlines [] rest"
proof (induction es)
  case (Cons e es)
  then show ?case
    using getlines_line [OF newline_notin_entry [of e], of "[]" "config_text es @ rest"]
    by (simp add: config_text_def)
qed (simp add: config_text_def)

lemma config_lines_append:
  "\<forall>e \<in> set es. wf_entry e \<Longrightarrow>
     config_lines E (map entry_line es @ ls) x = config_lines E ls (fold (entry_meaning E) es x)"
  by (induction es arbitrary: x) (simp_all add: co_seq_simps config_line_entry)

section \<open>Properties\<close>

text \<open>
  C32. A configuration file means what it says: a file of settings (any of the six keys,
  including the log file), with any white space around keys and values and with comments
  and blank lines in between, is loaded as exactly those settings, applied in the order of
  the lines.
\<close>

theorem config_roundtrip:
  assumes "\<forall>e \<in> set es. wf_entry e" "files path = Some (config_text es)"
  shows "load_config E files path x = (Ret (), fold (entry_meaning E) es x)"
  using assms getlines_config_text [OF assms(1), of "[]"] config_lines_append [OF assms(1), of E "[]" x]
  by (simp add: load_config_def)

text \<open>
  Ports are not range-checked: any value that fits an \<^verbatim>\<open>int\<close> is cut to sixteen bits, so
  that \<^verbatim>\<open>tcp = 65537\<close> listens on port 1.
\<close>

theorem config_port_truncated:
  assumes "v < 2 ^ 31"
  shows "config_line E (''tcp = '' @ show_nat v) (s, l) = (Ret (), (enable_tcp (of_nat v) BINARY s, l))"
proof -
  have "config_line E ([] @ ''tcp'' @ '' '' @ ''='' @ '' '' @ show_nat v @ []) (s, l) =
      apply_setting E ''tcp'' (show_nat v) (s, l)"
    by (rule config_line_setting) (simp_all add: blank_def show_nat_clean isspace_def newline_def)
  with assms show ?thesis by (simp add: apply_setting_def stoi_show_nat)
qed

text \<open>
  A value that is not a number stops the loading with an exception, and the settings of
  the lines before it have already been applied.
\<close>

theorem config_bad_number_stops:
  assumes "\<forall>e \<in> set es. wf_entry e" "clean v" "v \<noteq> [] \<and> \<not> is_digit (hd v) \<and> hd v \<noteq> CHR ''-'' \<and> hd v \<noteq> CHR ''+''"
    and "files path = Some (config_text es @ ''udp='' @ v @ newline # rest)"
  shows "load_config E files path (x :: ('a, 'b) configured) = (Throw InvalidArgument, fold (entry_meaning E) es x)"
proof -
  have v: "newline \<notin> set (''udp='' @ v)" using assms(2) by (simp add: clean_def newline_def)
  have "stoi v = Inl InvalidArgument"
    using assms(2,3)
    by (cases v) (simp_all add: stoi_def clean_def skip_ws_def split_sign_def digits_of_def)
  moreover have "config_line E ([] @ ''udp'' @ [] @ ''='' @ [] @ v @ []) y = apply_setting E ''udp'' v y"
    for y :: "('a, 'b) configured"
    by (rule config_line_setting) (simp_all add: blank_def assms(2) isspace_def)
  ultimately have bad: "config_line E (''udp='' @ v) y = (Throw InvalidArgument, y)" for y :: "('a, 'b) configured"
    by (cases y) (simp add: apply_setting_def)
  have "getlines [] (config_text es @ (''udp='' @ v) @ newline # rest) =
      map entry_line es @ (''udp='' @ v) # getlines [] rest"
    using getlines_config_text [OF assms(1)] getlines_line [OF v, of "[]"] by simp
  with assms(4) bad config_lines_append [OF assms(1), of E "(''udp='' @ v) # getlines [] rest" x]
  show ?thesis by (simp add: load_config_def co_seq_simps)
qed

end
