(* ===== verification/Concrete_Runs.thy ===== *)
theory Concrete_Runs
  imports Delivery_Properties Encrypted_Equivalence Event_Loop Thread_Pool Task_Join Config_File
begin

text \<open>
  Runs of the example application on concrete inputs: each applies one property to an
  input at which all its hypotheses hold.
\<close>

section \<open>Inputs\<close>

definition ping_frame :: ClientFrame where
  "ping_frame = \<lparr>cf_header = mk_header 1 0 0 5, cf_payload = []\<rparr>"

definition login_frame :: ClientFrame where
  "login_frame = \<lparr>cf_header = mk_header 2 0 3 5, cf_payload = [10, 11, 12]\<rparr>"

text \<open>A world in which sends succeed and random bytes and private keys are available.\<close>

definition quiet :: world where
  "quiet = \<lparr>rx = (\<lambda>_. []), dgrams = (\<lambda>_. []), tx_res = [1000, 1000], tx_log = [],
     getrandom_src = [RandomBytes (replicate 12 7)], privkey_src = [replicate 32 5]\<rparr>"

lemma quiet_simps [simp]:
  "rx quiet f = []" "dgrams quiet f = []" "tx_res quiet = [1000, 1000]" "tx_log quiet = []"
  "getrandom_src quiet = [RandomBytes (replicate 12 7)]" "privkey_src quiet = [replicate 32 5]"
  by (simp_all add: quiet_def)

text \<open>The two frames as they may arrive: in three segments cut at odd places, and a stray byte.\<close>

definition segmented :: world where
  "segmented = set_rx 7 [RxData [1, 0, 0], RxData [0, 0, 0, 0, 0, 5, 0, 0, 0, 0, 0, 0, 0, 2],
     RxData [0, 0, 0, 3, 0, 0, 0, 5, 0, 0, 0, 0, 0, 0, 0, 10, 11, 12, 77], RxData []] quiet"

lemma rx_segmented: "rx segmented 7 = [RxData [1, 0, 0], RxData [0, 0, 0, 0, 0, 5, 0, 0, 0, 0, 0, 0, 0, 2],
     RxData [0, 0, 0, 3, 0, 0, 0, 5, 0, 0, 0, 0, 0, 0, 0, 10, 11, 12, 77], RxData []]"
  by (simp add: segmented_def)

section \<open>Streams\<close>

theorem frames_read_in_order_witness:
  "\<exists>q. read_n (read_frame 7) 2 segmented = (Ret [ping_frame, login_frame], set_rx 7 q segmented) \<and> avail q = [77]"
proof -
  have wf: "\<forall>fr \<in> set [ping_frame, login_frame]. wf_frame fr"
    by (simp add: wf_frame_def ping_frame_def login_frame_def)
  have "concat (map frame_bytes [ping_frame, login_frame]) @ [77] =
      [1, 0, 0, 0, 0, 0, 0, 0, 5, 0, 0, 0, 0, 0, 0, 0, 2, 0, 0, 0, 3, 0, 0, 0, 5, 0, 0, 0, 0, 0, 0, 0, 10, 11, 12, 77]"
    by code_simp
  then have "avail (rx segmented 7) = concat (map frame_bytes [ping_frame, login_frame]) @ [77]"
    by (simp add: rx_segmented)
  from frames_read_in_order [OF wf this] show ?thesis by (auto simp: numeral_2_eq_2)
qed

text \<open>The connection closes after ten bytes of the login frame's header.\<close>

theorem truncated_frame_not_delivered_witness:
  "fst (read_frame 7 (set_rx 7 [RxData [2, 0, 0, 0, 3, 0, 0, 0, 5, 0], RxData []] quiet)) =
     Throw (RuntimeError ''Connection closed by client'')"
proof -
  let ?w = "set_rx 7 [RxData [2, 0, 0, 0, 3, 0, 0, 0, 5, 0], RxData []] quiet"
  have fb: "frame_bytes login_frame = [2, 0, 0, 0, 3, 0, 0, 0, 5, 0, 0, 0, 0, 0, 0, 0, 10, 11, 12]"
    by code_simp
  have "wf_frame login_frame" by (simp add: wf_frame_def login_frame_def)
  moreover have "avail (rx ?w 7) = take 10 (frame_bytes login_frame)" by (simp add: fb)
  moreover have "10 < length (frame_bytes login_frame)" by (simp add: fb)
  moreover have "no_timeout (ending (rx ?w 7))" by (simp add: no_timeout_def)
  ultimately have "fst (read_frame 7 ?w) = early_end (ending (rx ?w 7)) \<and> (\<forall>got. fst (read_frame 7 ?w) \<noteq> Ret got)"
    by (rule truncated_frame_not_delivered)
  then show ?thesis by simp
qed

text \<open>A text client that knows \<^verbatim>\<open>PING\<close> by name and \<^verbatim>\<open>2\<close> by number.\<close>

definition text_rqs :: "(string \<times> u16 \<times> u64 \<times> string) list" where
  "text_rqs = [(''PING'', 1, 5, []), (''2'', 2, 5, ''user'')]"

definition text_names :: "string \<rightharpoonup> u16" where
  "text_names = [''PING'' \<mapsto> 1]"

definition text_world :: world where
  "text_world = set_rx 7 [RxData (bytes_of_string (''PIN'')),
     RxData (bytes_of_string (''G 5'' @ [newline, newline] @ ''2 5'' @ newline # ''user'' @ [newline]))] quiet"

lemma show_nat_5 [simp]: "show_nat 5 = ''5''"
  by code_simp

lemma text_rqs_ok:
  "\<forall>(token, cmd, sid, payload) \<in> set text_rqs.
     (\<forall>c \<in> set token. \<not> isspace c) \<and> token \<noteq> [] \<and>
     (from_chars_u16 token = Some cmd \<or> from_chars_u16 token = None \<and> text_names token = Some cmd) \<and>
     newline \<notin> set payload \<and> length payload < 2 ^ 32"
proof -
  have "from_chars_u16 ''PING'' = None" "from_chars_u16 ''2'' = Some 2"
    by (simp_all add: from_chars_u16_def digits_of_def is_digit_def dec_val_def digit_val_def)
  then show ?thesis by (simp add: text_rqs_def text_names_def isspace_def newline_def)
qed

theorem text_requests_read_in_order_witness:
  "\<exists>q. read_n (read_text_frame text_names 7) 2 text_world =
     (Ret [\<lparr>cf_header = mk_header 1 0 0 5, cf_payload = []\<rparr>,
           \<lparr>cf_header = mk_header 2 0 4 5, cf_payload = bytes_of_string ''user''\<rparr>], set_rx 7 q text_world)"
proof -
  have "avail (rx text_world 7) =
      concat (map (\<lambda>(token, cmd, sid, payload). text_request token sid payload) text_rqs) @ []"
    by (simp add: text_world_def text_rqs_def text_request_def)
  from text_requests_read_in_order [OF text_rqs_ok this] show ?thesis
    by (auto simp: text_rqs_def numeral_2_eq_2)
qed

theorem text_invalid_header_witness:
  "\<exists>q. read_text_frame Map.empty 7 text_world = (Ret empty_frame, set_rx 7 q text_world) \<and>
     avail q = bytes_of_string ([newline] @ ''2 5'' @ newline # ''user'' @ [newline])"
proof -
  have "fst (extract_word ''PING 5'') = ''PING''" by code_simp
  then have "from_chars_u16 (fst (extract_word ''PING 5'')) = None"
    by (simp add: from_chars_u16_def digits_of_def is_digit_def)
  moreover have "avail (rx text_world 7) = bytes_of_string ''PING 5'' @ byte_of_char newline #
      bytes_of_string ([newline] @ ''2 5'' @ newline # ''user'' @ [newline])"
    by (simp add: text_world_def)
  moreover have "newline \<notin> set ''PING 5''" by (simp add: newline_def)
  ultimately show ?thesis
    using text_invalid_header [of text_world 7 "''PING 5''"
        "bytes_of_string ([newline] @ ''2 5'' @ newline # ''user'' @ [newline])" Map.empty]
    by simp
qed

theorem binary_reply_read_back_witness:
  "\<exists>q. read_frame 8 (set_rx 8 [RxData (wire_buffer (mk_header 1 0 2 5) [4, 6])] quiet) =
     (Ret \<lparr>cf_header = mk_header 1 0 2 5, cf_payload = [4, 6]\<rparr>,
      set_rx 8 q (set_rx 8 [RxData (wire_buffer (mk_header 1 0 2 5) [4, 6])] quiet)) \<and> avail q = []"
proof -
  let ?h = "mk_header 1 0 2 5" and ?w = "quiet\<lparr>tx_res := [18]\<rparr>"
    and ?peer = "set_rx 8 [RxData (wire_buffer (mk_header 1 0 2 5) [4, 6])] quiet"
  have "unat (payload_length ?h) = length [4, 6 :: byte]" by simp
  moreover have "tx_res ?w = int (16 + length [4, 6 :: byte]) # []" by simp
  moreover have "tx_log (snd (send_frame (UringTcpConnection 7) ?h [4, 6] ?w)) =
      tx_log ?w @ [Sent 7 (wire_buffer ?h [4, 6])]"
    by (simp add: send_frame_ok wire_buffer_def sizeof_FrameHeader_def)
  moreover have "avail (rx ?peer 8) = wire_buffer ?h [4, 6] @ []" by (simp add: wire_buffer_def)
  ultimately show ?thesis by (rule binary_reply_read_back)
qed

theorem text_reply_read_back_witness:
  "\<exists>q. read_n (read_text_line 8) 2
       (set_rx 8 [RxData (text_buffer (mk_header 5 0 4 5) (bytes_of_string ''PONG''))] quiet) =
     (Ret [''5 0 5'', ''PONG''],
      set_rx 8 q (set_rx 8 [RxData (text_buffer (mk_header 5 0 4 5) (bytes_of_string ''PONG''))] quiet)) \<and>
     avail q = []"
proof -
  let ?peer = "set_rx 8 [RxData (text_buffer (mk_header 5 0 4 5) (bytes_of_string ''PONG''))] quiet"
  have "show_nat 0 = ''0''" by code_simp
  then have "text_header_line (mk_header 5 0 4 5) = ''5 0 5''" by (simp add: text_header_line_def)
  moreover have "avail (rx ?peer 8) = text_buffer (mk_header 5 0 4 5) (bytes_of_string ''PONG'') @ []"
    by (simp add: text_buffer_def)
  moreover have "newline \<notin> set ''PONG''" by (simp add: newline_def)
  ultimately show ?thesis using text_reply_read_back [of ?peer 8 "mk_header 5 0 4 5" "''PONG''" "[]"] by simp
qed

section \<open>Commands\<close>

definition demo :: "session_map system" where
  "demo = app_running null_botan"

lemma demo_fields [simp]:
  "sessions demo = []" "running demo" "session_store demo = Some InMemorySessionStore"
  "store_state demo = Map.empty" "conns demo = Map.empty" "open_fds demo = {}" "active_connections demo = 0"
  "disconnect_handler demo = None" "thread_pool demo = None" "max_clients demo = 0" "disconnects demo = []"
  "discovery_config demo = default_discovery" "\<not> discovery_enabled demo"
  by (simp_all add: demo_def app_running_def app_configured_def fresh_server_def init_defaults_def
      Let_def enable_unix_socket_def enable_udp_def enable_tcp_def add_command_def)

lemma demo_pipeline [simp]:
  "pl_router (pipeline_of demo) = router demo" "pl_authenticator (pipeline_of demo) = DefaultAuthenticator"
  "pl_botan (pipeline_of demo) = null_botan"
  by (simp_all add: demo_def app_pipeline)

lemma demo_router [simp]:
  "router_get 1 (router demo) = Some \<lparr>handler = Some ping_handler, requires_auth = False, allowed_transport = ANY\<rparr>"
  "router_get 2 (router demo) = Some \<lparr>handler = Some login_handler, requires_auth = False, allowed_transport = TCP\<rparr>"
  using app_router [of null_botan] by (simp_all add: demo_def CMD_PING_def CMD_LOGIN_def)

lemma not_reserved [simp]: "\<not> reserved 1" "\<not> reserved 2" "\<not> reserved 3"
  by (simp_all add: reserved_def CMD_KEY_EXCHANGE_def CMD_ENCRYPTED_MESSAGE_def)

text \<open>The same server with a ping that demands authentication.\<close>

definition guarded :: pipeline where
  "guarded = (pipeline_of demo)\<lparr>pl_router := at_endpoint 1 require_auth (router demo)\<rparr>"

lemma guarded_router:
  "router_get 1 (pl_router guarded) =
     Some \<lparr>handler = Some ping_handler, requires_auth = True, allowed_transport = ANY\<rparr>"
  by (simp add: guarded_def router_get_builder) (simp add: require_auth_def)

theorem default_gate_closed_witness:
  "process_command (pipeline_of demo) login_frame (UringUdpConnection 7 [0]) (new_session 5, quiet) =
     (Ret (), (new_session 5, quiet))"
  using default_gate_closed [of "pipeline_of demo" login_frame _ "new_session 5" "UringUdpConnection 7 [0]" quiet]
  by (simp add: login_frame_def transport_ok_def)

definition pong :: bytes where
  "pong = bytes_of_string ''PONG! From transport ID 1''"

lemma ping_over_tcp:
  "ping_handler (mk_context h p s (UringTcpConnection f) w) =
     (Ret \<lparr>rf_flags = 0, rf_payload = pong\<rparr>, mk_context h p s (UringTcpConnection f) w)"
proof -
  have "show_nat 1 = ''1''" by code_simp
  then show ?thesis by (simp add: ping_handler_def current_transport_def pong_def)
qed

lemma ping_answered:
  "process_command (pipeline_of demo) ping_frame (UringTcpConnection 7) (new_session 5, quiet) =
     (Ret (), (new_session 5, quiet\<lparr>tx_res := [1000],
        tx_log := [Sent 7 (take 1000 (wire_buffer (mk_header 1 0 25 5) pong))]\<rparr>))"
proof -
  let ?ctx = "mk_context (cf_header ping_frame) (cf_payload ping_frame) (new_session 5) (UringTcpConnection 7) quiet"
  let ?ep = "\<lparr>handler = Some ping_handler, requires_auth = False, allowed_transport = ANY\<rparr>"
  have "gate (pl_authenticator (pipeline_of demo)) ?ep (UringTcpConnection 7) ?ctx = (Ret True, ?ctx)"
    by (simp add: gate_default transport_ok_def)
  moreover have "length pong = 25" by (simp add: pong_def)
  ultimately show ?thesis
    using admitted_command_reply [of ping_frame "pipeline_of demo" ?ep ping_handler "UringTcpConnection 7"
        "new_session 5" quiet ?ctx "\<lparr>rf_flags = 0, rf_payload = pong\<rparr>" ?ctx 1000 "[1000]"]
    by (simp add: ping_over_tcp) (simp add: ping_frame_def)
qed

definition keyed :: Session where
  "keyed = set_aes_key (replicate 32 3) (new_session 5)"

lemma keyed_simps [simp]: "has_aes_key keyed" "aes_key keyed = replicate 32 3" "sess_id keyed = 5"
  by (simp_all add: keyed_def)

definition sealed_ping :: ClientFrame where
  "sealed_ping = \<lparr>cf_header = mk_header CMD_ENCRYPTED_MESSAGE 0 30 5,
     cf_payload = sealed null_botan (replicate 32 3) (replicate 12 9) 1 []\<rparr>"

lemma sealed_ping_answered:
  "\<exists>out w'. process_command (pipeline_of demo) sealed_ping (UringTcpConnection 7) (keyed, quiet) = (Ret (), (keyed, w'))
    \<and> tx_log w' = [Sent 7 (take 1000 (wire_buffer (mk_header CMD_ENCRYPTED_MESSAGE 0 (of_nat (length out)) 5) out))]
    \<and> do_decrypt null_botan out keyed = Inr (Some (\<lparr>cipher_key = replicate 32 3\<rparr>, 1, pong))"
proof -
  let ?ctx = "mk_context (mk_header 1 0 0 5) [] keyed (UringTcpConnection 7) quiet"
  let ?ep = "\<lparr>handler = Some ping_handler, requires_auth = False, allowed_transport = ANY\<rparr>"
  have "gate (pl_authenticator (pipeline_of demo)) ?ep (UringTcpConnection 7) ?ctx = (Ret True, ?ctx)"
    by (simp add: gate_default transport_ok_def)
  then show ?thesis
    using encrypted_roundtrip [of "pipeline_of demo" keyed "replicate 12 9" sealed_ping 1 "[]" ?ep ping_handler
        "UringTcpConnection 7" quiet ?ctx "\<lparr>rf_flags = 0, rf_payload = pong\<rparr>" ?ctx "replicate 12 7" "[]" 1000 "[1000]"]
    by (simp add: ping_over_tcp null_botan_ok sealed_ping_def NONCE_SIZE_def)
qed

text \<open>A guarded ping in the clear, with flags, length and session id chosen by the client, and a sealed one.\<close>

theorem unauthenticated_command_rejected_witness:
  "process_command guarded \<lparr>cf_header = mk_header 1 7 9 8, cf_payload = [4]\<rparr> (UringTcpConnection 7) (new_session 5, quiet)
     = (Ret (), (new_session 5, quiet))
   \<and> process_command guarded sealed_ping (UringTcpConnection 7) (keyed, quiet) = (Ret (), (keyed, quiet))"
proof
  let ?ep = "\<lparr>handler = Some ping_handler, requires_auth = True, allowed_transport = ANY\<rparr>"
  let ?frame = "\<lparr>cf_header = mk_header 1 7 9 8, cf_payload = [4]\<rparr>"
  show "process_command guarded ?frame (UringTcpConnection 7) (new_session 5, quiet) = (Ret (), (new_session 5, quiet))"
    using unauthenticated_command_rejected [of ?ep 1 guarded ?frame "mk_header 1 7 9 8" "[4]" "new_session 5" _
        "UringTcpConnection 7" quiet "mk_context (mk_header 1 7 9 8) [4] (new_session 5) (UringTcpConnection 7) quiet"]
    by (simp add: guarded_router) (simp add: guarded_def DefaultAuthenticator_def is_authenticated_def)
  have "do_decrypt (pl_botan guarded) (cf_payload sealed_ping) keyed = Inr (Some (\<lparr>cipher_key = replicate 32 3\<rparr>, 1, []))"
    using do_decrypt_sealed [of null_botan keyed "replicate 12 9" 1 "[]"]
    by (simp add: null_botan_ok sealed_ping_def NONCE_SIZE_def guarded_def)
  then show "process_command guarded sealed_ping (UringTcpConnection 7) (keyed, quiet) = (Ret (), (keyed, quiet))"
    using unauthenticated_command_rejected [of ?ep 1 guarded sealed_ping "mk_header 1 0 0 5" "[]" keyed
        "\<lparr>cipher_key = replicate 32 3\<rparr>" "UringTcpConnection 7" quiet
        "mk_context (mk_header 1 0 0 5) [] keyed (UringTcpConnection 7) quiet"]
    by (simp add: guarded_router sealed_ping_def)
      (simp add: guarded_def DefaultAuthenticator_def is_authenticated_def keyed_def set_aes_key_def new_session_def)
qed

theorem encryption_is_transparent_witness:
  "process_command (pipeline_of demo) sealed_ping (UringTcpConnection 7) (keyed, quiet) =
     co_bind (run_command (pipeline_of demo) (opened_frame 1 [] 5) (UringTcpConnection 7))
       (answering (sealed_reply null_botan \<lparr>cipher_key = replicate 32 3\<rparr> (UringTcpConnection 7) 1)) (keyed, quiet)"
proof -
  have "do_decrypt (pl_botan (pipeline_of demo)) (cf_payload sealed_ping) keyed =
      Inr (Some (\<lparr>cipher_key = replicate 32 3\<rparr>, 1, []))"
    using do_decrypt_sealed [of null_botan keyed "replicate 12 9" 1 "[]"]
    by (simp add: null_botan_ok sealed_ping_def NONCE_SIZE_def)
  from encryption_is_transparent [OF _ this, of "UringTcpConnection 7" quiet] show ?thesis
    by (simp add: sealed_ping_def)
qed

text \<open>A message that is too short, and one sent before any key was agreed.\<close>

theorem undecryptable_message_ignored_witness:
  "process_command (pipeline_of demo)
     \<lparr>cf_header = mk_header CMD_ENCRYPTED_MESSAGE 0 3 5, cf_payload = [1, 2, 3]\<rparr>
     (UringTcpConnection 7) (keyed, quiet) = (Ret (), (keyed, quiet))"
  using undecryptable_message_ignored [of "\<lparr>cf_header = mk_header CMD_ENCRYPTED_MESSAGE 0 3 5, cf_payload = [1, 2, 3]\<rparr>"
      "pipeline_of demo" keyed "UringTcpConnection 7" quiet]
  by (simp add: aes_sizes null_botan_def)

theorem malformed_or_unknown_ignored_witness:
  "process_command (pipeline_of demo)
     \<lparr>cf_header = mk_header CMD_KEY_EXCHANGE 0 2 5, cf_payload = [1, 2]\<rparr>
     (UringTcpConnection 7) (new_session 5, quiet) = (Ret (), (new_session 5, quiet))"
  using malformed_or_unknown_ignored [of "\<lparr>cf_header = mk_header CMD_KEY_EXCHANGE 0 2 5, cf_payload = [1, 2]\<rparr>"
      "pipeline_of demo" "UringTcpConnection 7" "new_session 5" quiet]
  by simp

section \<open>Connections\<close>

text \<open>One client on descriptor 7, with a limit of one.\<close>

definition limited :: "session_map system" where
  "limited = set_max_clients 1 demo"

lemma limited_fields [simp]:
  "sessions limited = []" "running limited" "session_store limited = Some InMemorySessionStore"
  "conns limited = Map.empty" "open_fds limited = {}" "active_connections limited = 0"
  "disconnect_handler limited = None" "max_clients limited = 1" "disconnects limited = []"
  by (simp_all add: limited_def set_max_clients_def)

lemma reachable_accepted: "reachable (accept_turn BINARY 7 limited)"
  by (rule reachable.step [OF reachable.start engine_step.accept]) (simp_all add: initial_def)

theorem connection_limit_witness:
  "card (open_fds (accept_turn BINARY 7 limited)) \<le> 1 \<and>
   unat (active_connections (accept_turn BINARY 7 limited)) = card (open_fds (accept_turn BINARY 7 limited))"
  using connection_limit [OF reachable_accepted]
  by (simp add: accept_turn_def Let_def client_start_def)

text \<open>A client that has spoken for session 5.\<close>

definition client5 :: client where
  "client5 = \<lparr>c_mode = BINARY, current_sid = 5, c_flight = None, c_leaving = False\<rparr>"

definition served :: "session_map system" where
  "served = demo\<lparr>kernel := segmented, conns := [7 \<mapsto> client5], open_fds := {7}, active_connections := 1,
     sessions := [(5, 7)]\<rparr>"

lemma segmented_simps [simp]:
  "tx_res segmented = [1000, 1000]" "tx_log segmented = []" "dgrams segmented f = []"
  by (simp_all add: segmented_def set_rx_def)

lemma read_ping_segmented:
  "\<exists>q. read_frame 7 segmented = (Ret ping_frame, set_rx 7 q segmented)"
proof -
  have wf: "wf_frame ping_frame" by (simp add: wf_frame_def ping_frame_def)
  have "frame_bytes ping_frame = [1, 0, 0, 0, 0, 0, 0, 0, 5, 0, 0, 0, 0, 0, 0, 0]" by code_simp
  then have "avail (rx segmented 7) = frame_bytes ping_frame @
      [2, 0, 0, 0, 3, 0, 0, 0, 5, 0, 0, 0, 0, 0, 0, 0, 10, 11, 12, 77]"
    by (simp add: rx_segmented)
  from read_frame_stream [OF this wf] show ?thesis by blast
qed

text \<open>The accepted client sends a ping for session 5 and is registered.\<close>

definition accepted :: "session_map system" where
  "accepted = (accept_turn BINARY 7 limited)\<lparr>kernel := segmented\<rparr>"

definition fresh_client :: client where
  "fresh_client = \<lparr>c_mode = BINARY, current_sid = NO_SID, c_flight = None, c_leaving = False\<rparr>"

lemma accepted_fields [simp]:
  "conns accepted = [7 \<mapsto> fresh_client]" "open_fds accepted = {7}" "sessions accepted = []" "running accepted"
  "kernel accepted = segmented" "session_store accepted = Some InMemorySessionStore"
  by (simp_all add: accepted_def accept_turn_def Let_def client_start_def fresh_client_def)

lemma reachable_registered: "reachable (client_receive 7 fresh_client accepted)"
proof -
  have "reachable accepted"
    using reachable.step [OF reachable_accepted engine_step.background
        [where st = "store_state (accept_turn BINARY 7 limited)" and w = segmented]]
    by (simp add: accepted_def)
  then show ?thesis
    by (rule reachable.step [OF _ engine_step.receive]) (simp_all add: fresh_client_def)
qed

lemma registered_5: "map_of (sessions (client_receive 7 fresh_client accepted)) 5 = Some 7"
proof -
  obtain q where "read_request accepted 7 fresh_client (kernel accepted) = (Ret ping_frame, set_rx 7 q segmented)"
    using read_ping_segmented by (auto simp: read_request_def fresh_client_def)
  from client_receive_ok [OF this, where store = InMemorySessionStore] show ?thesis
    by (simp add: im_store_calls switch_session_def register_session_def AList.update_conv'
        fresh_client_def NO_SID_def ping_frame_def)
qed

theorem registrations_not_stale_witness:
  "7 \<in> open_fds (client_receive 7 fresh_client accepted)"
  using registrations_not_stale [OF reachable_registered] registered_5
  by (auto simp: special_sid_def NO_SID_def)

text \<open>Disconnects, with and without a thread pool.\<close>

definition served_cb :: "session_map system" where
  "served_cb = on_disconnect (\<lambda>_. Inr ()) served"

lemma served_fields [simp]:
  "conns served = [7 \<mapsto> client5]" "open_fds served = {7}" "active_connections served = 1"
  "sessions served = [(5, 7)]" "kernel served = segmented" "running served"
  "session_store served = Some InMemorySessionStore" "store_state served = Map.empty"
  "disconnect_handler served = None" "max_clients served = 0" "disconnects served = []" "thread_pool served = None"
  "pipeline_of served = pipeline_of demo" "discovery_config served = default_discovery"
  "\<not> discovery_enabled served"
  by (simp_all add: served_def pipeline_of_def)

lemma served_cb_fields [simp]:
  "conns served_cb = [7 \<mapsto> client5]" "open_fds served_cb = {7}" "active_connections served_cb = 1"
  "disconnect_handler served_cb = Some (\<lambda>_. Inr ())" "disconnects served_cb = []" "thread_pool served_cb = None"
  by (simp_all add: served_cb_def on_disconnect_def)

lemma client5_simps [simp]: "c_mode client5 = BINARY" "current_sid client5 = 5" "5 \<noteq> NO_SID"
  by (simp_all add: client5_def NO_SID_def)

definition leaving5 :: client where
  "leaving5 = client5\<lparr>c_flight := None, c_leaving := True\<rparr>"

definition pooled :: "session_map system" where
  "pooled = enable_thread_pool 4 served_cb"

theorem clean_disconnect_witness:
  "open_fds (client_catch (SystemError 104) 7 client5 pooled) = {7} \<and>
   disconnects (client_leave 7 leaving5 (client_catch (SystemError 104) 7 client5 pooled)) = [5] \<and>
   open_fds (client_leave 7 leaving5 (client_catch (SystemError 104) 7 client5 pooled)) = {}"
  using clean_disconnect [of pooled 7 client5 "\<lambda>_. Inr ()" 4 "SystemError 104"]
  by (simp add: Let_def pooled_def enable_thread_pool_def leaving5_def)

theorem disconnect_without_pool_leaks_witness:
  "7 \<in> open_fds (client_catch (SystemError 104) 7 client5 served_cb) \<and>
   active_connections (client_catch (SystemError 104) 7 client5 served_cb) = 1"
  using disconnect_without_pool_leaks [of served_cb 7 client5 "\<lambda>_. Inr ()" "SystemError 104"]
  by (simp add: Let_def)

theorem accept_at_limit_witness:
  "open_fds (accept_turn TEXT 8 (set_max_clients 1 served)) = {7} \<and>
   \<not> respond_to_clients (discovery_config (accept_turn TEXT 8 (set_max_clients 1 served))) \<and>
   respond_to_clients (discovery_config (client_close 7 (accept_turn TEXT 8 (set_max_clients 1 served))))"
  using accept_at_limit [of "set_max_clients 1 served" 8 TEXT 7]
  by (simp add: Let_def set_max_clients_def)

theorem disconnect_overrides_discovery_configuration_witness:
  "respond_to_clients (discovery_config (client_close 7
     (served\<lparr>max_clients := 10, discovery_config := default_discovery\<lparr>respond_to_clients := False\<rparr>\<rparr>)))"
  using disconnect_overrides_discovery_configuration
    [of "served\<lparr>max_clients := 10, discovery_config := default_discovery\<lparr>respond_to_clients := False\<rparr>\<rparr>" 7]
  by simp

section \<open>Requests\<close>

lemma read_ping:
  assumes "rx w 7 = rx segmented 7"
  shows "\<exists>q. read_frame 7 w = (Ret ping_frame, set_rx 7 q w)"
proof -
  have wf: "wf_frame ping_frame" by (simp add: wf_frame_def ping_frame_def)
  have "frame_bytes ping_frame = [1, 0, 0, 0, 0, 0, 0, 0, 5, 0, 0, 0, 0, 0, 0, 0]" by code_simp
  then have "avail (rx w 7) = frame_bytes ping_frame @
      [2, 0, 0, 0, 3, 0, 0, 0, 5, 0, 0, 0, 0, 0, 0, 0, 10, 11, 12, 77]"
    by (simp add: assms rx_segmented)
  from read_frame_stream [OF this wf] show ?thesis by blast
qed

lemma login_runs:
  assumes "tx_res w = r # rs" "0 \<le> r"
  shows "process_command (pipeline_of demo) login_frame (UringTcpConnection f) (s, w) =
    (Ret (), (set_authenticated True ''SuperAdmin'' s, w\<lparr>tx_res := rs, tx_log := tx_log w @
       [conn_tx (UringTcpConnection f) (mk_header 2 0 0 (sess_id s)) [] r]\<rparr>))"
proof -
  let ?ctx = "mk_context (cf_header login_frame) (cf_payload login_frame) s (UringTcpConnection f) w"
  let ?ep = "\<lparr>handler = Some login_handler, requires_auth = False, allowed_transport = TCP\<rparr>"
  have "gate (pl_authenticator (pipeline_of demo)) ?ep (UringTcpConnection f) ?ctx = (Ret True, ?ctx)"
    by (simp add: gate_default transport_ok_def)
  moreover have "invoke ?ep ?ctx = (Ret \<lparr>rf_flags = 0, rf_payload = []\<rparr>,
      ?ctx\<lparr>ctx_session := set_authenticated True ''SuperAdmin'' s\<rparr>)"
    by (simp add: invoke_def login_handler_def)
  ultimately show ?thesis
    using assms normal_accepted [of login_frame "pipeline_of demo" ?ep "UringTcpConnection f" s w ?ctx]
    by (simp add: process_command_normal login_frame_def)
qed

lemma ping_runs:
  assumes "tx_res w = r # rs"
  shows "0 \<le> r \<Longrightarrow> process_command (pipeline_of demo) ping_frame (UringTcpConnection f) (s, w) =
      (Ret (), (s, w\<lparr>tx_res := rs, tx_log := tx_log w @
         [conn_tx (UringTcpConnection f) (mk_header 1 0 25 (sess_id s)) pong r]\<rparr>))"
    and "r < 0 \<Longrightarrow> r \<noteq> - ETIME \<Longrightarrow>
      process_command (pipeline_of demo) ping_frame (UringTcpConnection f) (s, w) =
      (Throw (SystemError (- r)), (s, w\<lparr>tx_res := rs\<rparr>))"
  using assms
  by (simp_all add: process_command_normal ping_frame_def handle_normal_command_def with_context_def
      gate_default transport_ok_def co_bind_def invoke_def ping_over_tcp in_world_def send_frame_ok
      send_frame_error pong_def)

lemma client5_connection [simp]: "client_connection f client5 = UringTcpConnection f"
  by (simp add: client_connection_def client5_def)

lemma client5_flight [simp]: "client5\<lparr>c_flight := None\<rparr> = client5"
  by (simp add: client5_def)

text \<open>A login, then a ping on the same connection, which finds the session logged in.\<close>

theorem next_request_sees_session_witness:
  "conns (client_receive 7 client5 (client_finish 7 client5 login_frame (new_session 5) served)) 7 =
     Some (client5\<lparr>c_flight := Some (ping_frame, set_authenticated True ''SuperAdmin'' (new_session 5))\<rparr>)"
proof -
  let ?t = "client_finish 7 client5 login_frame (new_session 5) served"
  let ?s' = "set_authenticated True ''SuperAdmin'' (new_session 5)"
  obtain w where w: "process_command (pipeline_of served) login_frame (client_connection 7 client5)
      (new_session 5, kernel served) = (Ret (), (?s', w))" "rx w = rx segmented"
    by (simp add: login_runs)
  then have "kernel ?t = w" by (simp add: client_finish_ok im_store_calls)
  with w obtain w' where "read_request ?t 7 (client5\<lparr>c_flight := None\<rparr>) (kernel ?t) = (Ret ping_frame, w')"
    using read_ping [of w] by (auto simp: read_request_def)
  from next_request_sees_session [OF w(1) _ _ _ refl this] show ?thesis
    by (simp add: ping_frame_def)
qed

text \<open>
  A login on descriptor 7 and a ping on descriptor 8, both for session 5 and both begun
  before either ended: the session ends up not logged in.
\<close>

theorem concurrent_session_update_lost_witness:
  "store_state (client_finish 8 client5 ping_frame (new_session 5)
     (client_finish 7 client5 login_frame (new_session 5) served)) 5 = Some (new_session 5)"
proof -
  let ?s' = "set_authenticated True ''SuperAdmin'' (new_session 5)"
  obtain w where w: "process_command (pipeline_of served) login_frame (client_connection 7 client5)
      (new_session 5, kernel served) = (Ret (), (?s', w))" "tx_res w = [1000]"
    by (simp add: login_runs)
  obtain w' where "process_command (pipeline_of served) ping_frame (client_connection 8 client5)
      (new_session 5, w) = (Ret (), (new_session 5, w'))"
    using ping_runs(1) [OF w(2)] by simp
  from concurrent_session_update_lost [OF w(1) this] show ?thesis by simp
qed

text \<open>
  The peer is gone when the reply is written: the connection is closed at once, or with a
  disconnect callback and a pool the coroutine waits for the callback first.
\<close>

theorem failing_command_ends_connection_witness:
  "7 \<notin> open_fds (client_finish 7 client5 ping_frame (new_session 5)
     (served\<lparr>kernel := segmented\<lparr>tx_res := [- 32]\<rparr>\<rparr>)) \<and>
   conns (client_finish 7 client5 ping_frame (new_session 5)
     (pooled\<lparr>kernel := segmented\<lparr>tx_res := [- 32]\<rparr>\<rparr>)) 7 = Some leaving5"
proof -
  let ?w = "segmented\<lparr>tx_res := [- 32]\<rparr>"
  have ping: "process_command (pipeline_of demo) ping_frame (client_connection 7 client5) (new_session 5, ?w) =
      (Throw (SystemError 32), (new_session 5, segmented\<lparr>tx_res := []\<rparr>))"
    using ping_runs(2) [of ?w "- 32" "[]"] by (simp add: ETIME_def)
  have "pipeline_of (served\<lparr>kernel := ?w\<rparr>) = pipeline_of demo" by (simp add: served_def pipeline_of_def)
  with ping have "7 \<notin> open_fds (client_finish 7 client5 ping_frame (new_session 5) (served\<lparr>kernel := ?w\<rparr>))"
    using failing_command_ends_connection [of "served\<lparr>kernel := ?w\<rparr>" 7 client5 "SystemError 32" ping_frame "new_session 5"]
    by (simp add: Let_def)
  moreover have "pipeline_of (pooled\<lparr>kernel := ?w\<rparr>) = pipeline_of demo"
    by (simp add: pooled_def enable_thread_pool_def served_cb_def on_disconnect_def served_def pipeline_of_def)
  with ping have "conns (client_finish 7 client5 ping_frame (new_session 5) (pooled\<lparr>kernel := ?w\<rparr>)) 7 = Some leaving5"
    using failing_command_ends_connection [of "pooled\<lparr>kernel := ?w\<rparr>" 7 client5 "SystemError 32" ping_frame "new_session 5"]
    by (simp add: Let_def leaving5_def pooled_def enable_thread_pool_def)
  ultimately show ?thesis ..
qed

text \<open>Thirty bytes of garbage for a session with a key.\<close>

theorem refused_tag_keeps_connection_witness:
  "client_finish 7 client5 \<lparr>cf_header = mk_header CMD_ENCRYPTED_MESSAGE 0 30 5, cf_payload = replicate 30 1\<rparr> keyed
     (served\<lparr>store_state := [5 \<mapsto> keyed]\<rparr>) = served\<lparr>store_state := [5 \<mapsto> keyed]\<rparr>"
proof -
  let ?s = "served\<lparr>store_state := [5 \<mapsto> keyed]\<rparr>"
  let ?frame = "\<lparr>cf_header = mk_header CMD_ENCRYPTED_MESSAGE 0 30 5, cf_payload = replicate 30 1\<rparr>"
  have "pipeline_of ?s = pipeline_of demo" by (simp add: served_def pipeline_of_def)
  moreover have "client5\<lparr>c_flight := None\<rparr> = client5" by (simp add: client5_def)
  moreover have "?s\<lparr>conns := [7 \<mapsto> client5]\<rparr> = ?s" by (simp add: served_def)
  moreover have "subspan 12 16 (replicate 30 1) \<noteq> replicate 16 (0 :: u8)" by (simp add: subspan_def)
  ultimately show ?thesis
    using refused_tag_keeps_connection [of ?frame ?s keyed 7 client5]
    by (simp add: null_botan_def aes_sizes)
qed

definition client0 :: client where
  "client0 = \<lparr>c_mode = BINARY, current_sid = 0, c_flight = None, c_leaving = False\<rparr>"

definition served0 :: "session_map system" where
  "served0 = served\<lparr>conns := [7 \<mapsto> client0], sessions := [(0, 7)]\<rparr>"

text \<open>An alert for session 0 goes to whoever gets descriptor 7 next.\<close>

theorem session_zero_misdelivered_witness:
  "\<exists>v :: session_map system. conns v 7 = Some fresh_client \<and>
     tx_log (kernel (snd (send_to 0 9 [1] v))) = tx_log (kernel v) @ [Sent 7 (take 1000 (push_buffer 0 9 [1]))]"
proof -
  obtain q where r: "read_request served0 7 client0 (kernel served0) = (Ret ping_frame, set_rx 7 q segmented)"
    using read_ping [of segmented] by (auto simp: read_request_def client0_def served0_def)
  let ?t = "client_receive 7 client0 served0"
    and ?c = "client0\<lparr>current_sid := 5, c_flight := Some (ping_frame, new_session 5)\<rparr>"
  let ?v = "accept_turn BINARY 7 (client_catch (RuntimeError []) 7 ?c ?t)"
  have g: "session_store served0 = Some InMemorySessionStore"
    "get_or_create InMemorySessionStore (session_id (cf_header ping_frame)) (store_state served0) =
      (Ret (new_session 5), [5 \<mapsto> new_session 5])"
    "disconnect_handler served0 = None" "max_clients served0 = 0"
    by (simp_all add: served0_def im_store_calls ping_frame_def)
  have t: "?t = served0\<lparr>kernel := set_rx 7 q segmented, store_state := [5 \<mapsto> new_session 5],
      sessions := [(0, 7), (5, 7)], conns := [7 \<mapsto> ?c]\<rparr>"
    using client_receive_ok [OF r g(1,2)]
    by (simp add: switch_session_def register_session_def served0_def client0_def ping_frame_def)
  have k: "tx_res (kernel ?v) = [1000, 1000]"
    using g(3,4) t
    by (simp add: client_catch_def client_exit_no_handler client0_def accept_turn_def Let_def
        client_close_def client_start_def unregister_session_def set_rx_def segmented_def)
  have "map_of (sessions served0) 0 = Some 7" "current_sid client0 = 0" by (simp_all add: served0_def client0_def)
  then show ?thesis
    using session_zero_misdelivered [OF r g(1,2), where sid = 5 and t = ?t and c' = ?c and msg = "[]" and
        mode = BINARY and v = ?v and r = 1000 and rs = "[1000]" and cmd = 9 and payload = "[1]" and
        u = "client_catch (RuntimeError []) 7 ?c ?t"] g(3,4) k t
    by (intro exI [of _ ?v]) (simp add: ping_frame_def fresh_client_def)
qed

section \<open>Deliveries\<close>

text \<open>Two registered sessions, the first of them logged in.\<close>

definition two_sessions :: "session_map system" where
  "two_sessions = demo\<lparr>kernel := quiet, sessions := [(5, 7), (6, 8)],
     store_state := [5 \<mapsto> set_authenticated True ''SuperAdmin'' (new_session 5)]\<rparr>"

lemma two_sessions_fields [simp]:
  "kernel two_sessions = quiet" "sessions two_sessions = [(5, 7), (6, 8)]"
  "store_state two_sessions = [5 \<mapsto> set_authenticated True ''SuperAdmin'' (new_session 5)]"
  "session_store two_sessions = Some InMemorySessionStore" "active_connections two_sessions = 0"
  by (simp_all add: two_sessions_def)

theorem broadcast_reaches_every_session_witness:
  "tx_log (kernel (snd (broadcast 9 [1] two_sessions))) =
     [Sent 7 (take 1000 (push_buffer 5 9 [1])), Sent 8 (take 1000 (push_buffer 6 9 [1]))]"
  using broadcast_reaches_every_session [of two_sessions "[1000, 1000]" "[]" 9 "[1]"]
  by (simp add: deliveries_def)

theorem broadcast_stops_at_failed_send_witness:
  "tx_log (kernel (snd (broadcast 9 [1] (two_sessions\<lparr>kernel := quiet\<lparr>tx_res := [- 32, 1000]\<rparr>\<rparr>)))) = []"
  using broadcast_stops_at_failed_send
    [of "two_sessions\<lparr>kernel := quiet\<lparr>tx_res := [- 32, 1000]\<rparr>\<rparr>" "[]" "- 32" "[1000]" 9 "[1]"]
  by (simp add: deliveries_def ETIME_def)

theorem send_to_registered_witness:
  "send_to 4 9 [1] two_sessions = (Ret (), two_sessions) \<and>
   tx_log (kernel (snd (send_to 6 9 [1] two_sessions))) = [Sent 8 (take 1000 (push_buffer 6 9 [1]))]"
  using send_to_registered [of two_sessions 1000 "[1000]" 4 9 "[1]"]
    send_to_registered [of two_sessions 1000 "[1000]" 6 9 "[1]"]
  by simp

theorem broadcast_if_selects_witness:
  "tx_log (kernel (snd (broadcast_if 9 [1] (\<lambda>x. Inr (is_authenticated x)) two_sessions))) =
     [Sent 7 (take 1000 (push_buffer 5 9 [1]))]"
proof -
  have "filter (\<lambda>(sid, f). is_authenticated (im_mem (store_state two_sessions) sid)) (sessions two_sessions) = [(5, 7)]"
    by (simp add: is_authenticated_def im_mem_def)
  moreover have "im_invar (store_state two_sessions)" by (simp add: im_invar_def)
  ultimately show ?thesis
    using broadcast_if_selects [of two_sessions "[1000]" "[1000]" is_authenticated 9 "[1]"]
    by (auto simp: deliveries_def)
qed

definition udp_inbox :: "session_map system" where
  "udp_inbox = demo\<lparr>kernel := quiet\<lparr>dgrams := (\<lambda>_. [])(3 := [Dgram (frame_bytes ping_frame) [0, 1]])\<rparr>\<rparr>"

lemma udp_inbox_fields [simp]:
  "dgrams (kernel udp_inbox) = (\<lambda>_. [])(3 := [Dgram (frame_bytes ping_frame) [0, 1]])"
  "tx_res (kernel udp_inbox) = [1000, 1000]" "tx_log (kernel udp_inbox) = []"
  "session_store udp_inbox = Some InMemorySessionStore" "store_state udp_inbox = Map.empty"
  "pipeline_of udp_inbox = pipeline_of demo"
  by (simp_all add: udp_inbox_def pipeline_of_def)

lemma ping_frame_size [simp]: "length (frame_bytes ping_frame) = 16" "wf_frame ping_frame"
  by (simp_all add: frame_bytes_def ping_frame_def sizeof_FrameHeader_def wf_frame_def)

theorem udp_turn_ignores_stale_buffer_witness:
  "snd (snd (udp_turn 3 (replicate UDP_BUFFER 0) udp_inbox)) =
   snd (snd (udp_turn 3 (replicate UDP_BUFFER 255) udp_inbox))"
  using udp_turn_ignores_stale_buffer [of udp_inbox 3 "frame_bytes ping_frame" "[0, 1]" "[]"
      "replicate UDP_BUFFER 0" "replicate UDP_BUFFER 255"]
  by (simp add: UDP_BUFFER_def)




theorem udp_short_datagram_ignored_witness:
  "\<exists>buf. udp_turn 3 (replicate UDP_BUFFER 0)
       (demo\<lparr>kernel := quiet\<lparr>dgrams := (\<lambda>_. [])(3 := [Dgram [1, 2] [0, 1]])\<rparr>\<rparr>) = (True, buf, demo\<lparr>kernel := quiet\<rparr>)"
proof -
  let ?s = "demo\<lparr>kernel := quiet\<lparr>dgrams := (\<lambda>_. [])(3 := [Dgram [1, 2] [0, 1]])\<rparr>\<rparr>"
  have "(kernel ?s)\<lparr>dgrams := (dgrams (kernel ?s))(3 := [])\<rparr> = quiet" by (simp add: quiet_def fun_eq_iff)
  then show ?thesis
    using udp_short_datagram_ignored [of ?s 3 "[1, 2]" "[0, 1]" "[]" "replicate UDP_BUFFER 0"] by auto
qed



theorem announces_only_when_idle_witness:
  "announce_if_idle (served\<lparr>discovery_enabled := True, discovery_fd := 4\<rparr>) =
     (Ret (), served\<lparr>discovery_enabled := True, discovery_fd := 4\<rparr>)"
  using announces_only_when_idle [of "served\<lparr>discovery_enabled := True, discovery_fd := 4\<rparr>" 1000 "[1000]"]
  by simp

section \<open>Services\<close>

lemma app_main_fields [simp]:
  "tcp_ports (app_main B) = [(8080, BINARY)]" "udp_ports (app_main B) = [8081]"
  "unix_paths (app_main B) = [(''/tmp/servd_test.sock'', BINARY)]" "\<not> discovery_enabled (app_main B)"
  "bound (app_main B) = []" "loops (app_main B) = []" "listen_fds (app_main B) = []" "sockopts (app_main B) = []"
  "periodic_tasks (app_main B) = [(10000, system_alert)]" "\<not> session_bus (app_main B)" "\<not> system_bus (app_main B)"
  by (simp_all add: app_main_def add_periodic_task_def deploy_def app_configured_def fresh_server_def Let_def
      enable_unix_socket_def enable_udp_def enable_tcp_def add_command_def
      system.extend_def deployment.fields_def)

definition boot :: "session_map deployment" where
  "boot = (app_main null_botan)\<lparr>socket_res := [3, 4, 5], bind_res := [0, 0, 0], listen_res := [0, 0]\<rparr>"

theorem init_starts_everything_witness:
  "\<exists>t. init boot = (Ret (), t) \<and>
     loops t = [AcceptLoop 3 BINARY, AcceptLoop 4 BINARY, TimerLoop 10000, UdpLoop 5]"
proof -
  have "\<not> discovers boot" by (simp add: boot_def discovers_def)
  then show ?thesis
    using init_starts_everything [of boot "[3]" "[4]" "[5]" "[]"]
    by (auto simp: boot_def announce_loops_def discovers_def)
qed

theorem init_bind_failure_witness:
  "\<exists>t. init (boot\<lparr>bind_res := [- 1]\<rparr>) =
     (Throw (RuntimeError (''bind() failed on TCP port '' @ show_nat 8080)), t) \<and> listen_fds t = [3]"
  using init_bind_failure [of "boot\<lparr>bind_res := [- 1]\<rparr>" "[]" 8080 BINARY "[]" "[]" 3 "[4, 5]" "- 1" "[]" "[0, 0]"]
  by (auto simp: boot_def)

theorem reuseaddr_never_set_witness:
  "SO_REUSEADDR \<notin> snd ` set (sockopts (snd (init boot)))"
  using reuseaddr_never_set [of boot] by (auto simp: boot_def)

theorem timer_interval_and_survival_witness:
  "timer_turn (\<lambda>s :: nat. (Throw BadAlloc, s + 1)) (- ETIME) 4 = (True, 5) \<and>
   fst (timespec_of 1500) * 1000000000 + snd (timespec_of 1500) = 1500000000"
  using timer_interval_and_survival [of 1500 "\<lambda>s :: nat. (Throw BadAlloc, s + 1)" 4 "Throw BadAlloc" 5 BadAlloc]
  by simp

text \<open>A post that finds the submission queue full, and is drained by the next turn.\<close>

definition posted_waiting :: "string ring" where
  "posted_waiting = run_enter ((post_coroutine ''job'' empty_ring)\<lparr>sq_room := [True]\<rparr>)"

definition posted_late :: "string ring" where
  "posted_late = loop_turn (Cqe 0 0) posted_waiting"

lemmas posting_defs = posted_waiting_def run_enter_def post_coroutine_def empty_ring_def new_op_def
  io_uring_get_sqe_def submit_def drain_pending_posts.simps

lemma drained_waiting: "in_flight (drain_pending_posts posted_waiting) = [0]"
  by (simp add: posting_defs)

lemma reachable_posted_late: "ring_reachable posted_late"
proof -
  have "ring_reachable (post_coroutine ''job'' empty_ring)"
    by (rule ring_reachable.step [OF ring_reachable.start ring_step.post])
  then have "ring_reachable ((post_coroutine ''job'' empty_ring)\<lparr>sq_room := [True]\<rparr>)"
    using ring_reachable.step [OF _ ring_step.room [of "post_coroutine ''job'' empty_ring" "[True]"]]
    by (simp add: post_coroutine_def empty_ring_def new_op_def io_uring_get_sqe_def)
  then have "ring_reachable posted_waiting"
    unfolding posted_waiting_def by (rule ring_reachable.step [OF _ ring_step.enter])
      (simp add: post_coroutine_def empty_ring_def new_op_def io_uring_get_sqe_def)
  then show ?thesis
    unfolding posted_late_def by (rule ring_reachable.step [OF _ ring_step.completion])
      (simp add: drained_waiting)
qed

lemma resumed_posted_late: "resumed_posts posted_late = [''job'']" "posted posted_late = [''job'']"
  by (simp_all add: posted_late_def loop_turn_def dispatch_def resumed_posts_def posting_defs)

theorem posts_exactly_once_witness:
  "mset [''job''] = mset [''job''] +
     mset (posts_at (heap posted_late) (in_flight posted_late)) +
     mset (posts_at (heap posted_late) (pending_posts posted_late)) \<and> distinct (freed posted_late)"
  using posts_exactly_once [OF reachable_posted_late] by (simp add: resumed_posted_late)

theorem drain_submits_in_order_witness:
  "in_flight (drain_pending_posts ((post_coroutine ''b'' (post_coroutine ''a'' empty_ring))\<lparr>sq_room := [True, True]\<rparr>)) = [0, 1]"
  using drain_submits_in_order [of "(post_coroutine ''b'' (post_coroutine ''a'' empty_ring))\<lparr>sq_room := [True, True]\<rparr>" "[]"]
  by (simp add: post_coroutine_def empty_ring_def new_op_def io_uring_get_sqe_def)

text \<open>A task taken by a worker while its caller is about to suspend.\<close>

definition race :: "nat pool" where
  "race = worker_take (tp_await_ready 0 (enqueue 0 (new_pool True 1)))"

lemma race_simps:
  "phases race 0 = Some NotReady" "0 \<in> running_tasks race" "post_cb race"
  by (simp_all add: race_def worker_take_def tp_await_ready_def enqueue_def new_pool_def new_shared_def)

lemma reachable_race: "pool_reachable (\<lambda>n. Inr (n + 7)) race"
proof -
  have "pool_reachable (\<lambda>n. Inr (n + 7)) (enqueue 0 (new_pool True 1))"
    by (rule pool_reachable.step [OF pool_reachable.start pool_step.submit]) (simp_all add: new_pool_def)
  then have "pool_reachable (\<lambda>n. Inr (n + 7)) (tp_await_ready 0 (enqueue 0 (new_pool True 1)))"
    by (rule pool_reachable.step [OF _ pool_step.ready]) (simp add: new_pool_def enqueue_def)
  then show ?thesis
    unfolding race_def
    by (rule pool_reachable.step [OF _ pool_step.work [OF worker_step.take]])
      (simp_all add: new_pool_def enqueue_def tp_await_ready_def new_shared_def idle_worker_def)
qed

theorem pool_race_resolved_witness:
  "phases (tp_await_suspend 0 (worker_finish (\<lambda>n. Inr (n + 7)) 0 race)) 0 = Some (Resumed (Inr 7)) \<and>
   phases (resume_posted 0 (worker_finish (\<lambda>n. Inr (n + 7)) 0 (tp_await_suspend 0 race))) 0 = Some (Resumed (Inr 7))"
  using pool_race_resolved [OF reachable_race race_simps] by simp

lemma race_resumed_once:
  "distinct (post_queue (worker_finish (\<lambda>n. Inr (n + 7)) 0 (tp_await_suspend 0 race)))"
proof -
  have "pool_reachable (\<lambda>n. Inr (n + 7)) (tp_await_suspend 0 race)"
    by (rule pool_reachable.step [OF reachable_race pool_step.suspend]) (simp add: race_simps)
  then have "pool_reachable (\<lambda>n. Inr (n + 7)) (worker_finish (\<lambda>n. Inr (n + 7)) 0 (tp_await_suspend 0 race))"
    by (rule pool_reachable.step [OF _ pool_step.work [OF worker_step.finish]])
      (simp add: race_def worker_take_def tp_await_suspend_def tp_await_ready_def tp_await_resume_def enqueue_def
        new_pool_def new_shared_def)
  from pool_resumes_exactly_once [OF this] show ?thesis by blast
qed

text \<open>Three tasks; the second is done at once, the third completes before the first.\<close>

definition first_runs :: "nat outcome list" where
  "first_runs = [Pending, Ret 20, Pending]"

definition outcomes :: "(exn + nat) list" where
  "outcomes = [Inr 10, Inr 20, Inr 30]"

theorem when_all_joins_witness:
  "wa_await_resume (wrapper_complete 0 (Inr 10) (wrapper_complete 2 (Inr 30)
     (snd (wa_await_suspend first_runs (wa_new 3))))) = Ret [10, 20, 30]"
proof -
  let ?r = "wa_await_suspend first_runs (wa_new (length outcomes))"
  have "\<forall>i < length outcomes. first_runs ! i \<noteq> Pending \<longrightarrow>
      first_runs ! i = (case outcomes ! i of Inl e \<Rightarrow> Throw e | Inr v \<Rightarrow> Ret v)"
    by (auto simp: outcomes_def first_runs_def less_Suc_eq)
  moreover have "set [2, 0] = {i \<in> {..<length outcomes}. first_runs ! i = Pending}"
    by (auto simp: outcomes_def first_runs_def less_Suc_eq numeral_2_eq_2)
  ultimately have "\<not> (\<exists>e. Inl e \<in> set outcomes) \<longrightarrow>
      wa_await_resume (fold (\<lambda>i. wrapper_complete i (outcomes ! i)) [2, 0] (snd ?r)) = Ret (map projr outcomes)"
    using when_all_joins [of first_runs outcomes "[2, 0]" "fst ?r" "snd ?r"] by (simp add: first_runs_def outcomes_def)
  then show ?thesis by (simp add: outcomes_def numeral_3_eq_3)
qed

text \<open>Configuration and logging.\<close>

definition conf :: "entry list" where
  "conf = [Comment [] '' servd'', Setting [] '' '' '' '' [] (Tcp 8080), Comment [] [],
           Setting [] '' '' '' '' [] (Unix ''/tmp/s''), Setting [] [] [] [] (MaxClients 100),
           Setting [] '' '' '' '' [] (LogFile ''servd.log'')]"

lemma conf_ok: "\<forall>e \<in> set conf. wf_entry e"
  by (simp add: conf_def blank_def clean_def isspace_def newline_def)

definition no_fs :: fs_env where
  "no_fs = \<lparr>env_home = None, env_mkdirs = (\<lambda>_. None), env_openable = (\<lambda>_. True)\<rparr>"

theorem config_roundtrip_witness:
  "load_config no_fs [''servd.conf'' \<mapsto> config_text conf] ''servd.conf'' (demo, initial_logger) =
     (Ret (), (set_max_clients 100 (enable_unix_socket ''/tmp/s'' BINARY (enable_tcp 8080 BINARY demo)),
        setLogFile None (\<lambda>_. None) (\<lambda>_. True) ''servd.log'' initial_logger))"
  using config_roundtrip [OF conf_ok, of "[''servd.conf'' \<mapsto> config_text conf]" "''servd.conf''" no_fs "(demo, initial_logger)"]
  by (simp add: conf_def no_fs_def)

theorem config_port_truncated_witness:
  "config_line no_fs (''tcp = '' @ show_nat 65537) (demo, initial_logger) =
     (Ret (), (enable_tcp 1 BINARY demo, initial_logger))"
proof -
  have "(of_nat 65537 :: u16) = 1" by simp
  then show ?thesis using config_port_truncated [of 65537 no_fs demo initial_logger] by (simp only:) simp
qed

theorem config_bad_number_stops_witness:
  "load_config no_fs [''c'' \<mapsto> config_text conf @ ''udp='' @ ''many'' @ newline # []] ''c'' (demo, initial_logger) =
     (Throw InvalidArgument,
      (set_max_clients 100 (enable_unix_socket ''/tmp/s'' BINARY (enable_tcp 8080 BINARY demo)),
        setLogFile None (\<lambda>_. None) (\<lambda>_. True) ''servd.log'' initial_logger))"
proof -
  have "clean ''many''" by (simp add: clean_def isspace_def newline_def)
  moreover have "\<not> is_digit (hd ''many'')" by (simp add: is_digit_def)
  ultimately show ?thesis
    using config_bad_number_stops [OF conf_ok, of "''many''"
        "[''c'' \<mapsto> config_text conf @ ''udp='' @ ''many'' @ newline # []]" "''c''" "[]" no_fs "(demo, initial_logger)"]
    by (simp add: conf_def no_fs_def)
qed

theorem log_column_width_witness:
  "format_file_column 0 ''Logger.cpp'' 5 = Inl OutOfRange \<and>
   (\<exists>col. format_file_column 32 ''Logger.cpp'' 5 = Inr col \<and> length col = 32)"
proof -
  have "length (location ''Logger.cpp'' 5) < 2 ^ 63" by (simp add: location_def show_int_def)
  from log_column_width [OF this, of 0] log_column_width [OF this, of 32] show ?thesis by simp
qed

definition new_year :: "nat \<Rightarrow> tm" where
  "new_year t = \<lparr>tm_year = 126, tm_mon = 0, tm_mday = 1, tm_hour = 0, tm_min = 0, tm_sec = t mod 60\<rparr>"

theorem log_record_is_one_line_witness:
  "\<exists>t. newline \<notin> set t \<and>
     stderr_text (snd (log (get_formatted_time new_year 7000000) False WARN ''src/Logger.cpp'' 5
       (''two'' @ newline # ''lines'') initial_logger)) = t @ [newline]"
proof -
  have b: "basename_of ''src/Logger.cpp'' = ''Logger.cpp''" by code_simp
  have "length (location (basename_of ''src/Logger.cpp'') 5) < 2 ^ 63" by (simp add: b location_def show_int_def)
  moreover have "2 \<le> s_file_column_width initial_logger" "newline \<notin> set ''src/Logger.cpp''"
    by (simp_all add: initial_logger_def newline_def)
  moreover have "\<not> WARN < s_level initial_logger" "fs_path initial_logger = None" "stderr_text initial_logger = []"
    by (simp_all add: initial_logger_def less_LogLevel_def)
  ultimately show ?thesis
    using log_record_is_one_line [of "''src/Logger.cpp''" 5 initial_logger _ new_year 7000000 WARN False "''two'' @ newline # ''lines''", OF _ _ _ refl]
    by (auto simp: to_stderr_def)
qed

theorem second_log_file_silences_witness:
  "disk (snd (log ''12:00'' False ERROR ''a.cpp'' 1 ''lost''
     (setLogFile None (\<lambda>_. None) (\<lambda>_. True) ''b.log''
       (setLogFile None (\<lambda>_. None) (\<lambda>_. True) ''a.log'' initial_logger)))) = [''a.log'' \<mapsto> []]"
proof -
  let ?s = "setLogFile None (\<lambda>_. None) (\<lambda>_. True) ''a.log'' initial_logger"
  have "fs_path ?s = Some ''a.log''" "disk ?s = [''a.log'' \<mapsto> []]"
    by (simp_all add: setLogFile_def expand_home_def parent_path_def stream_open_def initial_logger_def Let_def)
  then show ?thesis
    using second_log_file_silences [of ?s "''a.log''" "\<lambda>_. None" None "''b.log''" _ "\<lambda>_. True"
        "''12:00''" False ERROR "''a.cpp''" 1 "''lost''"]
    by simp
qed

end
