(* ===== verification/Pool_On_Loop.thy ===== *)
theory Pool_On_Loop
  imports Thread_Pool Event_Loop
begin

text \<open>
  The thread pool on the event loop: \<^verbatim>\<open>Server::enable_thread_pool\<close> gives the pool a callback
  that hands finished coroutines to \<^verbatim>\<open>UringEngine::post_coroutine\<close>. The pool's and the loop's
  interleavings run side by side; they meet when a worker posts, and when the loop resumes a
  posted coroutine. A coroutine is named by the number of the function it submitted. The
  destruction of the server is part of the picture: its members go in the reverse of their
  order of declaration, the engine before the pool.
\<close>

section \<open>State and operations\<close>

text \<open>
  \<open>posts_after_free\<close> records the calls of \<^verbatim>\<open>engine_->post_coroutine\<close> made when the engine is
  already destroyed, which is undefined behaviour.
\<close>

record 'r pooled_loop =
  pl_pool :: "'r pool"
  pl_ring :: "nat ring"
  engine_alive :: bool
  posts_after_free :: "nat list"

definition new_pooled_loop :: "nat \<Rightarrow> 'r pooled_loop" where
  "new_pooled_loop thread_count =
     \<lparr>pl_pool = new_pool True thread_count, pl_ring = empty_ring, engine_alive = True, posts_after_free = []\<rparr>"

text \<open>The callback of \<^verbatim>\<open>enable_thread_pool\<close>.\<close>

definition engine_post :: "nat \<Rightarrow> 'r pooled_loop \<Rightarrow> 'r pooled_loop" where
  "engine_post n s =
     (if engine_alive s then s\<lparr>pl_ring := post_coroutine n (pl_ring s)\<rparr>
      else s\<lparr>posts_after_free := posts_after_free s @ [n]\<rparr>)"

definition finish_and_post :: "(nat \<Rightarrow> exn + 'r) \<Rightarrow> nat \<Rightarrow> 'r pooled_loop \<Rightarrow> 'r pooled_loop" where
  "finish_and_post func n s =
     (let s1 = s\<lparr>pl_pool := worker_finish func n (pl_pool s)\<rparr> in
      if sh_waiter (shared (pl_pool s) n) \<and> post_cb (pl_pool s) then engine_post n s1 else s1)"

text \<open>
  A turn of the loop. If the completion is that of a posted coroutine, the coroutine continues
  behind its \<^verbatim>\<open>co_await\<close>.
\<close>

definition loop_and_resume :: "wait_result \<Rightarrow> 'r pooled_loop \<Rightarrow> 'r pooled_loop" where
  "loop_and_resume w s =
     (let r = pl_ring s; s1 = s\<lparr>pl_ring := loop_turn w r\<rparr> in
      case w of
        WaitError \<Rightarrow> s1
      | Cqe a res \<Rightarrow>
          (case heap (drain_pending_posts r) a of
             Some opn \<Rightarrow>
               if lp_running r \<and> \<not> g_signal_received r \<and> op_owned opn
               then s1\<lparr>pl_pool := resume_posted (op_coroutine opn) (pl_pool s)\<rparr> else s1
           | None \<Rightarrow> s1))"

text \<open>\<^verbatim>\<open>~Server\<close>: first the engine, then the destructor of the pool begins.\<close>

definition server_destroy :: "'r pooled_loop \<Rightarrow> 'r pooled_loop" where
  "server_destroy s = s\<lparr>engine_alive := False, pl_pool := pool_stop (pl_pool s)\<rparr>"

section \<open>Interleavings\<close>

inductive composed_step :: "(nat \<Rightarrow> exn + 'r) \<Rightarrow> 'r pooled_loop \<Rightarrow> 'r pooled_loop \<Rightarrow> bool" for func where
  submit: "phases (pl_pool s) n = None \<Longrightarrow> \<not> stopping (pl_pool s) \<Longrightarrow>
    composed_step func s (s\<lparr>pl_pool := enqueue n (pl_pool s)\<rparr>)"
| ready: "phases (pl_pool s) n = Some Enqueued \<Longrightarrow>
    composed_step func s (s\<lparr>pl_pool := tp_await_ready n (pl_pool s)\<rparr>)"
| suspend: "phases (pl_pool s) n = Some NotReady \<Longrightarrow>
    composed_step func s (s\<lparr>pl_pool := tp_await_suspend n (pl_pool s)\<rparr>)"
| take: "\<lbrakk>idle_worker (pl_pool s); tasks (pl_pool s) \<noteq> []\<rbrakk> \<Longrightarrow>
    composed_step func s (s\<lparr>pl_pool := worker_take (pl_pool s)\<rparr>)"
| finish: "n \<in> running_tasks (pl_pool s) \<Longrightarrow> composed_step func s (finish_and_post func n s)"
| exit: "\<lbrakk>idle_worker (pl_pool s); stopping (pl_pool s); tasks (pl_pool s) = []\<rbrakk> \<Longrightarrow>
    composed_step func s (s\<lparr>pl_pool := worker_exit (pl_pool s)\<rparr>)"
| room: "composed_step func s (s\<lparr>pl_ring := (pl_ring s)\<lparr>sq_room := sq_room (pl_ring s) @ bs\<rparr>\<rparr>)"
| enter: "\<lbrakk>engine_alive s; \<not> lp_running (pl_ring s)\<rbrakk> \<Longrightarrow>
    composed_step func s (s\<lparr>pl_ring := run_enter (pl_ring s)\<rparr>)"
| await: "\<lbrakk>engine_alive s; fst (io_uring_get_sqe (pl_ring s))\<rbrakk> \<Longrightarrow>
    composed_step func s (s\<lparr>pl_ring := async_submit c (pl_ring s)\<rparr>)"
| interrupted: "engine_alive s \<Longrightarrow> composed_step func s (loop_and_resume WaitError s)"
| completion: "\<lbrakk>engine_alive s; a \<in> set (in_flight (drain_pending_posts (pl_ring s)))\<rbrakk> \<Longrightarrow>
    composed_step func s (loop_and_resume (Cqe a res) s)"
| signal: "composed_step func s (s\<lparr>pl_ring := signal_handler (pl_ring s)\<rparr>)"
| halt: "composed_step func s (s\<lparr>pl_ring := stop_loop (pl_ring s)\<rparr>)"
| destroy: "\<lbrakk>engine_alive s; \<not> lp_running (pl_ring s)\<rbrakk> \<Longrightarrow> composed_step func s (server_destroy s)"

inductive composed_reachable :: "(nat \<Rightarrow> exn + 'r) \<Rightarrow> 'r pooled_loop \<Rightarrow> bool" for func where
  start: "composed_reachable func (new_pooled_loop thread_count)"
| step: "composed_reachable func s \<Longrightarrow> composed_step func s t \<Longrightarrow> composed_reachable func t"

section \<open>The coupling invariant\<close>

lemma post_coroutine_frame [simp]:
  "posted (post_coroutine h r) = posted r @ [h]" "resumed (post_coroutine h r) = resumed r"
  by (simp_all add: post_coroutine_def new_op_def io_uring_get_sqe_def submit_def split: list.split)

lemma async_submit_frame [simp]:
  "posted (async_submit c r) = posted r" "resumed (async_submit c r) = resumed r"
  by (simp_all add: async_submit_def new_op_def io_uring_get_sqe_def submit_def split: list.split)

lemma drain_frame [simp]:
  "posted (drain_pending_posts r) = posted r" "resumed (drain_pending_posts r) = resumed r"
  using drain_shuffle [of r] by simp_all

lemma posted_loop_turn [simp]: "posted (loop_turn w r) = posted r"
  by (simp add: loop_turn_def dispatch_def split: wait_result.split option.split)

lemma resumed_posts_loop_turn:
  "resumed_posts (loop_turn w r) = resumed_posts r @
     (case w of
        WaitError \<Rightarrow> []
      | Cqe a res \<Rightarrow>
          (case heap (drain_pending_posts r) a of
             Some opn \<Rightarrow> if lp_running r \<and> \<not> g_signal_received r \<and> op_owned opn then [op_coroutine opn] else []
           | None \<Rightarrow> []))"
  by (simp add: loop_turn_def dispatch_def resumed_posts_def split: wait_result.split option.split)

lemma resumed_posts_cong: "resumed t = resumed r \<Longrightarrow> resumed_posts t = resumed_posts r"
  by (simp add: resumed_posts_def)

definition coupled :: "(nat \<Rightarrow> exn + 'r) \<Rightarrow> 'r pooled_loop \<Rightarrow> bool" where
  "coupled func s \<longleftrightarrow> pool_reachable func (pl_pool s) \<and> ring_reachable (pl_ring s) \<and> post_cb (pl_pool s) \<and>
     mset (post_queue (pl_pool s)) + mset (resumed_posts (pl_ring s)) =
       mset (posted (pl_ring s)) + mset (posts_after_free s) \<and>
     distinct (posted (pl_ring s) @ posts_after_free s) \<and>
     (\<forall>n \<in> set (posted (pl_ring s) @ posts_after_free s). sh_done (shared (pl_pool s) n)) \<and>
     (\<forall>n \<in> set (resumed_posts (pl_ring s)). phases (pl_pool s) n = Some (Resumed (func n)))"

lemma coupledD:
  assumes "coupled func s"
  shows "pool_reachable func (pl_pool s)" "ring_reachable (pl_ring s)" "post_cb (pl_pool s)"
    "mset (post_queue (pl_pool s)) + mset (resumed_posts (pl_ring s)) =
       mset (posted (pl_ring s)) + mset (posts_after_free s)"
    "distinct (posted (pl_ring s) @ posts_after_free s)"
    "\<And>n. n \<in> set (posted (pl_ring s) @ posts_after_free s) \<Longrightarrow> sh_done (shared (pl_pool s) n)"
    "\<And>n. n \<in> set (resumed_posts (pl_ring s)) \<Longrightarrow> phases (pl_pool s) n = Some (Resumed (func n))"
  using assms unfolding coupled_def by blast+

text \<open>A step of the pool that posts and resumes nothing, and does not touch finished tasks.\<close>

lemma coupled_pool_move:
  assumes "coupled func s" "pool_step func (pl_pool s) p" "post_queue p = post_queue (pl_pool s)"
    and "post_cb p = post_cb (pl_pool s)"
    and "\<And>n. sh_done (shared (pl_pool s) n) \<Longrightarrow> sh_done (shared p n)"
    and "\<And>n x. phases (pl_pool s) n = Some (Resumed x) \<Longrightarrow> phases p n = Some (Resumed x)"
  shows "coupled func (s\<lparr>pl_pool := p\<rparr>)"
  using coupledD [OF assms(1)] assms(2-6) pool_reachable.step unfolding coupled_def by fastforce

lemma coupled_ring_move:
  assumes "coupled func s" "ring_step (pl_ring s) r" "posted r = posted (pl_ring s)"
    and "resumed_posts r = resumed_posts (pl_ring s)"
  shows "coupled func (s\<lparr>pl_ring := r\<rparr>)"
  using coupledD [OF assms(1)] assms(2-4) ring_reachable.step unfolding coupled_def by fastforce

lemma coupled_finish:
  assumes c: "coupled func s" and n: "n \<in> running_tasks (pl_pool s)"
  shows "coupled func (finish_and_post func n s)"
proof -
  let ?p = "pl_pool s" and ?q = "worker_finish func n (pl_pool s)"
  note D = coupledD [OF c]
  have step: "pool_reachable func ?q"
    using D(1) n by (intro pool_reachable.step [OF _ pool_step.work [OF worker_step.finish]])
  have cb: "post_cb ?q" and sh: "\<And>m. sh_done (shared ?p m) \<or> m = n \<Longrightarrow> sh_done (shared ?q m)"
    and ph: "phases ?q = phases ?p"
    and pq: "post_queue ?q = post_queue ?p @ (if sh_waiter (shared ?p n) then [n] else [])"
    using D(3) by (auto simp: worker_finish_def Let_def)
  have "task_ok func ?p n" using pool_reachable_ok [OF D(1)] by (simp add: pool_ok_def)
  then have "\<not> sh_done (shared ?p n)" using n by (auto simp: task_ok_def)
  then have new: "n \<notin> set (posted (pl_ring s) @ posts_after_free s)" using D(6) by blast
  show ?thesis
  proof (cases "sh_waiter (shared ?p n)")
    case False
    then have "finish_and_post func n s = s\<lparr>pl_pool := ?q\<rparr>" by (simp add: finish_and_post_def)
    then show ?thesis using D(2,4,5,7) step cb ph pq False sh D(6) by (auto simp: coupled_def)
  next
    case w: True
    show ?thesis
    proof (cases "engine_alive s")
      case True
      then have e: "finish_and_post func n s = s\<lparr>pl_pool := ?q, pl_ring := post_coroutine n (pl_ring s)\<rparr>"
        using w D(3) by (simp add: finish_and_post_def engine_post_def)
      have "ring_reachable (post_coroutine n (pl_ring s))"
        using D(2) by (rule ring_reachable.step) (rule ring_step.post)
      moreover have "resumed_posts (post_coroutine n (pl_ring s)) = resumed_posts (pl_ring s)"
        by (rule resumed_posts_cong) simp
      ultimately show ?thesis
        unfolding e coupled_def using D(4,5,7) step cb ph pq w sh D(6) new by auto
    next
      case False
      then have e: "finish_and_post func n s =
          s\<lparr>pl_pool := ?q, posts_after_free := posts_after_free s @ [n]\<rparr>"
        using w D(3) by (simp add: finish_and_post_def engine_post_def)
      show ?thesis
        unfolding e coupled_def using D(2,4,5,7) step cb ph pq w sh D(6) new by auto
    qed
  qed
qed

text \<open>What a posted operation of the ring stands for: a suspended coroutine whose function is done.\<close>

lemma owned_op_posted:
  assumes c: "coupled func s" and a: "a \<in> set (in_flight (drain_pending_posts (pl_ring s)))"
    and h: "heap (drain_pending_posts (pl_ring s)) a = Some opn" "op_owned opn"
  shows "op_coroutine opn \<in> set (post_queue (pl_pool s))"
proof -
  let ?r = "pl_ring s" and ?d = "drain_pending_posts (pl_ring s)" and ?n = "op_coroutine opn"
  note D = coupledD [OF c]
  have "ring_ok ?d" using ring_ok_drain [OF ring_reachable_ok [OF D(2)]] .
  then have m: "mset (posted ?r) = mset (resumed_posts ?d) + mset (posts_at (heap ?d) (known_ops ?d))"
    by (simp add: ring_ok_def)
  have "?n \<in> set (posts_at (heap ?d) (known_ops ?d))"
    using a h by (force simp: posts_at_def owned_at_def known_ops_def)
  then have in_op: "?n \<in># mset (posts_at (heap ?d) (known_ops ?d))" by simp
  have "resumed_posts ?d = resumed_posts ?r" by (rule resumed_posts_cong) simp
  then have "mset (post_queue (pl_pool s)) + mset (resumed_posts ?r) =
      (mset (posts_at (heap ?d) (known_ops ?d)) + mset (posts_after_free s)) + mset (resumed_posts ?r)"
    using D(4) m by (simp only: ac_simps)
  then have "mset (post_queue (pl_pool s)) = mset (posts_at (heap ?d) (known_ops ?d)) + mset (posts_after_free s)"
    by (simp only: add_right_cancel)
  with in_op show ?thesis by (metis set_mset_mset union_iff)
qed

lemma coupled_turn:
  assumes c: "coupled func s"
    and w: "\<And>a res. w = Cqe a res \<Longrightarrow> a \<in> set (in_flight (drain_pending_posts (pl_ring s)))"
  shows "coupled func (loop_and_resume w s)"
proof -
  let ?r = "pl_ring s" and ?p = "pl_pool s"
  note D = coupledD [OF c]
  have step: "ring_step ?r (loop_turn w ?r)"
    using w by (cases w) (auto intro: ring_step.interrupted ring_step.completion)
  show ?thesis
  proof (cases "resumed_posts (loop_turn w ?r) = resumed_posts ?r")
    case True
    then have "loop_and_resume w s = s\<lparr>pl_ring := loop_turn w ?r\<rparr>"
      by (auto simp: loop_and_resume_def resumed_posts_loop_turn Let_def split: wait_result.splits option.splits if_splits)
    then show ?thesis using coupled_ring_move [OF c step] True by simp
  next
    case False
    then obtain a res opn where a: "w = Cqe a res" "heap (drain_pending_posts ?r) a = Some opn"
        "lp_running ?r" "\<not> g_signal_received ?r" "op_owned opn"
      by (auto simp: resumed_posts_loop_turn split: wait_result.splits option.splits if_splits)
    let ?n = "op_coroutine opn" and ?q = "resume_posted (op_coroutine opn) ?p"
    have e: "loop_and_resume w s = s\<lparr>pl_ring := loop_turn w ?r, pl_pool := ?q\<rparr>"
      using a by (simp add: loop_and_resume_def Let_def)
    have q: "?n \<in> set (post_queue ?p)" by (rule owned_op_posted [OF c w [OF a(1)] a(2,5)])
    have "task_ok func ?p ?n" using pool_reachable_ok [OF D(1)] by (simp add: pool_ok_def)
    then have res: "sh_result (shared ?p ?n) = Some (func ?n)" using q by (auto simp: task_ok_def)
    then have p: "post_queue ?q = remove1 ?n (post_queue ?p)" "post_cb ?q = post_cb ?p" "shared ?q = shared ?p"
        "phases ?q = (phases ?p)(?n \<mapsto> Resumed (func ?n))"
      by (simp_all add: resume_posted_def tp_await_resume_def)
    have r: "resumed_posts (loop_turn w ?r) = resumed_posts ?r @ [?n]"
      using a by (simp add: resumed_posts_loop_turn)
    have "pool_reachable func ?q" using D(1) q by (intro pool_reachable.step [OF _ pool_step.resume])
    moreover have "ring_reachable (loop_turn w ?r)" using D(2) step by (rule ring_reachable.step)
    moreover have "mset (remove1 ?n (post_queue ?p)) + mset (resumed_posts ?r @ [?n]) =
        mset (posted ?r) + mset (posts_after_free s)"
    proof -
      define M where "M = mset (post_queue ?p) - {#?n#}"
      have M: "mset (post_queue ?p) = add_mset ?n M" "mset (remove1 ?n (post_queue ?p)) = M"
        using q by (simp_all add: M_def)
      show ?thesis using D(4) unfolding M by simp
    qed
    ultimately show ?thesis
      unfolding e coupled_def using D(3,5,6,7) p r by auto
  qed
qed

lemma coupled_destroy:
  assumes "coupled func s" shows "coupled func (server_destroy s)"
proof -
  have "coupled func (s\<lparr>pl_pool := pool_stop (pl_pool s)\<rparr>)"
    using assms by (rule coupled_pool_move) (auto simp: pool_stop_def intro: pool_step.stop [unfolded pool_stop_def])
  then show ?thesis by (simp add: coupled_def server_destroy_def)
qed

lemma pool_moves_frame:
  "post_queue (enqueue n p) = post_queue p" "post_cb (enqueue n p) = post_cb p"
  "post_queue (tp_await_ready n p) = post_queue p" "post_cb (tp_await_ready n p) = post_cb p"
  "post_queue (tp_await_suspend n p) = post_queue p" "post_cb (tp_await_suspend n p) = post_cb p"
  "post_queue (worker_take p) = post_queue p" "post_cb (worker_take p) = post_cb p"
  "shared (tp_await_ready n p) = shared p" "shared (worker_take p) = shared p" "phases (worker_take p) = phases p"
  "post_queue (worker_exit p) = post_queue p" "post_cb (worker_exit p) = post_cb p"
  "shared (worker_exit p) = shared p" "phases (worker_exit p) = phases p"
  "sh_done (shared (tp_await_suspend n p) m) = sh_done (shared p m)"
  "m \<noteq> n \<Longrightarrow> phases (tp_await_ready n p) m = phases p m"
  "m \<noteq> n \<Longrightarrow> phases (tp_await_suspend n p) m = phases p m"
  by (simp_all add: enqueue_def tp_await_ready_def tp_await_suspend_def tp_await_resume_def worker_take_def
      worker_exit_def Let_def split: option.split list.split)

lemma coupled_step: "composed_step func s t \<Longrightarrow> coupled func s \<Longrightarrow> coupled func t"
proof (induction rule: composed_step.induct)
  case (submit s n)
  have "task_ok func (pl_pool s) n"
    using pool_reachable_ok [OF coupledD(1) [OF submit(3)]] by (simp add: pool_ok_def)
  then have "\<not> sh_done (shared (pl_pool s) n)" using submit(1)
    by (auto simp: task_ok_def)
  then show ?case using submit
    by (intro coupled_pool_move) (auto simp: pool_moves_frame enqueue_def intro: pool_step.submit [unfolded enqueue_def])
next
  case (ready s n)
  then show ?case
    by (intro coupled_pool_move) (auto simp: pool_moves_frame intro: pool_step.ready, metis pool_moves_frame(17) option.inject phase.distinct(5))
next
  case (suspend s n)
  then show ?case
    by (intro coupled_pool_move) (auto simp: pool_moves_frame intro: pool_step.suspend, metis pool_moves_frame(18) option.inject phase.distinct(9))
next
  case (take s)
  then show ?case
    by (intro coupled_pool_move) (auto simp: pool_moves_frame intro: pool_step.work worker_step.take)
next
  case (exit s)
  then show ?case
    by (intro coupled_pool_move) (auto simp: pool_moves_frame intro: pool_step.work worker_step.exit)
next
  case (finish n s)
  then show ?case by (simp add: coupled_finish)
next
  case (room s bs)
  then show ?case by (rule coupled_ring_move) (auto simp: resumed_posts_def intro: ring_step.room)
next
  case (enter s)
  then show ?case by (intro coupled_ring_move) (auto simp: resumed_posts_def run_enter_def [abs_def] intro: ring_step.enter [unfolded run_enter_def])
next
  case (await s c)
  then show ?case by (intro coupled_ring_move) (auto intro: resumed_posts_cong ring_step.await)
next
  case (interrupted s)
  then show ?case by (intro coupled_turn) simp_all
next
  case (completion s a res)
  then show ?case by (intro coupled_turn) simp_all
next
  case (signal s)
  then show ?case by (rule coupled_ring_move) (auto simp: resumed_posts_def signal_handler_def intro: ring_step.signal [unfolded signal_handler_def])
next
  case (halt s)
  then show ?case by (rule coupled_ring_move) (auto simp: resumed_posts_def stop_loop_def intro: ring_step.stop [unfolded stop_loop_def])
next
  case (destroy s)
  then show ?case by (simp add: coupled_destroy)
qed

lemma composed_reachable_coupled: "composed_reachable func s \<Longrightarrow> coupled func s"
proof (induction rule: composed_reachable.induct)
  case (start thread_count)
  have "pool_reachable func (new_pool True thread_count)" by (rule pool_reachable.start)
  then show ?case
    by (auto simp: coupled_def new_pooled_loop_def new_pool_def empty_ring_def resumed_posts_def
        intro: ring_reachable.start [unfolded empty_ring_def])
next
  case (step s t)
  then show ?case by (simp add: coupled_step)
qed

lemma alive_frame:
  "engine_alive (finish_and_post func n s) = engine_alive s"
  "posts_after_free (finish_and_post func n s) =
     posts_after_free s @ (if \<not> engine_alive s \<and> sh_waiter (shared (pl_pool s) n) \<and> post_cb (pl_pool s) then [n] else [])"
  "pl_pool (finish_and_post func n s) = worker_finish func n (pl_pool s)"
  "engine_alive (loop_and_resume w s) = engine_alive s"
  "posts_after_free (loop_and_resume w s) = posts_after_free s"
  by (simp_all add: finish_and_post_def engine_post_def loop_and_resume_def Let_def
      split: wait_result.split option.split)

lemma alive_no_late_posts: "composed_reachable func s \<Longrightarrow> engine_alive s \<Longrightarrow> posts_after_free s = []"
proof (induction rule: composed_reachable.induct)
  case (start thread_count)
  show ?case by (simp add: new_pooled_loop_def)
next
  case (step s t)
  from step.hyps(2) step.IH step.prems show ?case
    by (induction rule: composed_step.induct) (simp_all add: alive_frame server_destroy_def)
qed

lemma post_queue_in_ring:
  assumes "composed_reachable func s" "engine_alive s"
  shows "mset (post_queue (pl_pool s)) = mset (posts_at (heap (pl_ring s)) (known_ops (pl_ring s)))"
proof -
  note D = coupledD [OF composed_reachable_coupled [OF assms(1)]]
  have "mset (posted (pl_ring s)) =
      mset (resumed_posts (pl_ring s)) + mset (posts_at (heap (pl_ring s)) (known_ops (pl_ring s)))"
    by (rule ring_okD(8) [OF ring_reachable_ok [OF D(2)]])
  with D(4) alive_no_late_posts [OF assms] show ?thesis by (simp add: ac_simps)
qed

section \<open>Properties\<close>

text \<open>
  C11. The pool and the loop together resume exactly once. While the server lives, in every
  interleaving of callers, workers and the loop: no coroutine is posted to the loop twice; one
  that the loop has resumed has the outcome of its own function; and one that is suspended
  either has its function still queued or running, or is carried by exactly one operation that
  the loop owns, submitted or waiting for room.
\<close>

theorem pool_on_loop_exactly_once:
  assumes "composed_reachable func s" "engine_alive s"
  shows "distinct (posted (pl_ring s)) \<and>
    (\<forall>n \<in> set (resumed_posts (pl_ring s)). phases (pl_pool s) n = Some (Resumed (func n))) \<and>
    (\<forall>n. phases (pl_pool s) n = Some Suspended \<longrightarrow>
       n \<in> set (tasks (pl_pool s)) \<or> n \<in> running_tasks (pl_pool s) \<or>
       count (mset (posts_at (heap (pl_ring s)) (in_flight (pl_ring s) @ pending_posts (pl_ring s)))) n = 1)"
proof -
  let ?p = "pl_pool s"
  note D = coupledD [OF composed_reachable_coupled [OF assms(1)]]
  have ok: "pool_ok func ?p" by (rule pool_reachable_ok [OF D(1)])
  have "count (mset (post_queue ?p)) n = 1"
    if "phases ?p n = Some Suspended" "n \<notin> set (tasks ?p)" "n \<notin> running_tasks ?p" for n
  proof -
    have "n \<in> set (post_queue ?p)" using ok that unfolding pool_ok_def task_ok_def by auto
    moreover have "distinct (post_queue ?p)" using ok by (simp add: pool_ok_def)
    ultimately show ?thesis by (simp add: distinct_count_atmost_1)
  qed
  then show ?thesis
    using D(5,7) post_queue_in_ring [OF assms] by (auto simp: known_ops_def)
qed

text \<open>
  C22. What is posted comes back. A coroutine that waits for a function that is done is resumed
  with its outcome by the loop: as soon as there is room for the waiting posts, the next turn
  submits its operation if it was not submitted before, and the completion of that operation
  continues the coroutine.
\<close>

theorem posted_coroutine_resumes:
  assumes "composed_reachable func s" "engine_alive s" "lp_running (pl_ring s)" "\<not> g_signal_received (pl_ring s)"
    and "phases (pl_pool s) n = Some Suspended" "sh_done (shared (pl_pool s) n)"
    and "sq_room (pl_ring s) = replicate (length (pending_posts (pl_ring s))) True @ later_room"
  shows "\<exists>a \<in> set (in_flight (drain_pending_posts (pl_ring s))).
    \<forall>res. phases (pl_pool (loop_and_resume (Cqe a res) s)) n = Some (Resumed (func n))"
proof -
  let ?p = "pl_pool s" and ?r = "pl_ring s" and ?d = "drain_pending_posts (pl_ring s)"
  have t: "task_ok func ?p n"
    using pool_reachable_ok [OF coupledD(1) [OF composed_reachable_coupled [OF assms(1)]]] by (simp add: pool_ok_def)
  then have "n \<in> set (post_queue ?p)" using assms(5,6) by (simp add: task_ok_def)
  then have "n \<in># mset (posts_at (heap ?r) (known_ops ?r))"
    using post_queue_in_ring [OF assms(1,2)] by (metis set_mset_mset)
  then obtain a where a: "a \<in> set (known_ops ?r)" "owned_at (heap ?r) a" "op_coroutine (the (heap ?r a)) = n"
    by (auto simp: posts_at_def)
  then obtain opn where opn: "heap ?r a = Some opn" "op_owned opn" "op_coroutine opn = n"
    by (auto simp: owned_at_def split: option.splits)
  have h: "heap ?d = heap ?r" using drain_shuffle [of ?r] by simp
  have "in_flight ?d = known_ops ?r"
    using drain_submits_in_order [OF assms(7)] by (simp add: known_ops_def)
  moreover have "phases (pl_pool (loop_and_resume (Cqe a res) s)) n = Some (Resumed (func n))" for res
    using opn h assms(3,4,6) t
    by (simp add: loop_and_resume_def Let_def resume_posted_def tp_await_resume_def task_ok_def)
  ultimately show ?thesis using a(1) by auto
qed

section \<open>Destruction\<close>

text \<open>What still happens after \<^verbatim>\<open>~Server\<close> has begun: the threads of the pool.\<close>

inductive teardown_step :: "(nat \<Rightarrow> exn + 'r) \<Rightarrow> 'r pooled_loop \<Rightarrow> 'r pooled_loop \<Rightarrow> bool" for func where
  take: "\<lbrakk>idle_worker (pl_pool s); tasks (pl_pool s) \<noteq> []\<rbrakk> \<Longrightarrow>
    teardown_step func s (s\<lparr>pl_pool := worker_take (pl_pool s)\<rparr>)"
| finish: "n \<in> running_tasks (pl_pool s) \<Longrightarrow> teardown_step func s (finish_and_post func n s)"
| exit: "\<lbrakk>idle_worker (pl_pool s); stopping (pl_pool s); tasks (pl_pool s) = []\<rbrakk> \<Longrightarrow>
    teardown_step func s (s\<lparr>pl_pool := worker_exit (pl_pool s)\<rparr>)"

lemma teardown_worker: "teardown_step func s t \<Longrightarrow> worker_step func (pl_pool s) (pl_pool t)"
  by (induction rule: teardown_step.induct) (auto simp: alive_frame intro: worker_step.intros)

lemma worker_teardown: "worker_step func (pl_pool s) p \<Longrightarrow> \<exists>t. teardown_step func s t"
  by (induction "pl_pool s" p rule: worker_step.induct) (auto intro: teardown_step.intros)

text \<open>A coroutine caught by the destruction: still suspended, and posted late once its function is done.\<close>

definition caught :: "nat \<Rightarrow> 'r pooled_loop \<Rightarrow> bool" where
  "caught n s \<longleftrightarrow> \<not> engine_alive s \<and> post_cb (pl_pool s) \<and> sh_waiter (shared (pl_pool s) n) \<and>
     phases (pl_pool s) n = Some Suspended \<and>
     (sh_done (shared (pl_pool s) n) \<longrightarrow> n \<in> set (posts_after_free s))"

lemma caught_step: "teardown_step func s t \<Longrightarrow> caught n s \<Longrightarrow> caught n t"
proof (induction rule: teardown_step.induct)
  case (finish m s)
  then show ?case
    by (auto simp: caught_def alive_frame worker_finish_def Let_def)
qed (simp_all add: caught_def pool_moves_frame)

lemma teardown_steps:
  "(teardown_step func)\<^sup>*\<^sup>* s t \<Longrightarrow> pool_reachable func (pl_pool s) \<Longrightarrow> stopping (pl_pool s) \<Longrightarrow> caught n s \<Longrightarrow>
     pool_reachable func (pl_pool t) \<and> stopping (pl_pool t) \<and> workers (pl_pool t) = workers (pl_pool s) \<and> caught n t"
proof (induction rule: rtranclp_induct)
  case (step t u)
  then have "pool_reachable func (pl_pool t)" "stopping (pl_pool t)" "workers (pl_pool t) = workers (pl_pool s)" "caught n t"
    by auto
  moreover note w = teardown_worker [OF step.hyps(2)]
  ultimately show ?case
    using worker_step_progress [OF w pool_reachable_threads] caught_step [OF step.hyps(2)]
    by (auto intro: pool_reachable.step pool_step.work)
qed simp

text \<open>
  C27. The order of destruction is wrong for a server with busy workers. \<^verbatim>\<open>~Server\<close> destroys the
  engine before the pool (members go in the reverse order of their declaration), and the pool's
  destructor still runs every function. So for every coroutine that is suspended in
  \<^verbatim>\<open>enqueue\<close> with its function not done when the destruction begins, the run of the workers to
  their end calls \<^verbatim>\<open>post_coroutine\<close> of the engine that is no longer there.
\<close>

theorem destruction_posts_to_dead_engine:
  assumes "composed_reachable func s" "phases (pl_pool s) n = Some Suspended"
    and "\<not> sh_done (shared (pl_pool s) n)" "0 < workers (pl_pool s)"
    and "(teardown_step func)\<^sup>*\<^sup>* (server_destroy s) t" "\<nexists>u. teardown_step func t u"
  shows "pool_joined (pl_pool t) \<and> n \<in> set (posts_after_free t)"
proof -
  let ?d = "server_destroy s"
  note D = coupledD [OF composed_reachable_coupled [OF assms(1)]]
  have "task_ok func (pl_pool s) n" using pool_reachable_ok [OF D(1)] by (simp add: pool_ok_def)
  then have c: "caught n ?d"
    using assms(2,3) D(3) by (simp add: caught_def server_destroy_def pool_stop_def task_ok_def)
  have "pool_reachable func (pl_pool ?d)"
    using D(1) pool_step.stop by (auto simp: server_destroy_def intro: pool_reachable.step)
  then have T: "pool_reachable func (pl_pool t)" "stopping (pl_pool t)" "workers (pl_pool t) = workers (pl_pool s)" "caught n t"
    using teardown_steps [OF assms(5) _ _ c] by (simp_all add: server_destroy_def pool_stop_def)
  have "\<nexists>p. worker_step func (pl_pool t) p" using worker_teardown assms(6) by blast
  then have j: "pool_joined (pl_pool t)" "tasks (pl_pool t) = []" "running_tasks (pl_pool t) = {}"
    using worker_stuck_joined [OF pool_reachable_threads [OF T(1)] T(2)] T(3) assms(4) by auto
  moreover have "task_ok func (pl_pool t) n" using pool_reachable_ok [OF T(1)] by (simp add: pool_ok_def)
  ultimately show ?thesis using T(4) by (auto simp: caught_def task_ok_def)
qed

end
