(* ===== verification/Pool_Runs.thy ===== *)
theory Pool_Runs
  imports Pool_On_Loop
begin

text \<open>
  Concrete runs of the thread pool on the event loop: one thread, one submitted function that
  returns 7, and a coroutine that waits for it. They show that the hypotheses of the properties
  of the pool, and of the pool on the loop, are met.
\<close>

definition seven :: "nat \<Rightarrow> exn + nat" where
  "seven n = Inr (n + 7)"

lemmas pool_eval = new_pool_def enqueue_def tp_await_ready_def tp_await_suspend_def tp_await_resume_def
  worker_take_def worker_finish_def worker_exit_def pool_stop_def resume_posted_def new_shared_def idle_worker_def seven_def

lemmas loop_eval = pool_eval new_pooled_loop_def finish_and_post_def engine_post_def server_destroy_def
  empty_ring_def post_coroutine_def new_op_def io_uring_get_sqe_def submit_def run_enter_def

section \<open>The pool alone\<close>

text \<open>A pool whose destructor begins while its only function is queued.\<close>

definition closing :: "nat pool" where
  "closing = pool_stop (enqueue 0 (new_pool True 1))"

lemma closing_reachable: "pool_reachable seven closing"
proof -
  have "pool_reachable seven (enqueue 0 (new_pool True 1))"
    by (rule pool_reachable.step [OF pool_reachable.start pool_step.submit]) (simp_all add: new_pool_def)
  then show ?thesis unfolding closing_def by (rule pool_reachable.step [OF _ pool_step.stop])
qed

definition pool_end :: "nat pool" where
  "pool_end = worker_exit (worker_finish seven 0 (worker_take closing))"

lemma closing_run: "(worker_step seven ^^ 3) closing pool_end"
proof -
  have "worker_step seven closing (worker_take closing)"
    by (rule worker_step.take) (simp_all add: closing_def pool_eval)
  moreover have "worker_step seven (worker_take closing) (worker_finish seven 0 (worker_take closing))"
    by (rule worker_step.finish) (simp add: closing_def pool_eval)
  moreover have "worker_step seven (worker_finish seven 0 (worker_take closing)) pool_end"
    unfolding pool_end_def by (rule worker_step.exit) (simp_all add: closing_def pool_eval Let_def)
  ultimately show ?thesis by (auto simp: numeral_3_eq_3 relcompp_apply)
qed

lemma pool_end_stuck: "\<nexists>u. worker_step seven pool_end u"
  by (auto simp: pool_end_def closing_def pool_eval Let_def elim: worker_step.cases)

theorem pool_shutdown_completes_witness:
  "pool_joined pool_end \<and> sh_result (shared pool_end 0) = Some (Inr 7)"
proof -
  have "stopping closing" "0 < workers closing" by (simp_all add: closing_def pool_eval)
  from pool_shutdown_completes [OF closing_reachable this closing_run]
  have "pool_joined pool_end" "phases pool_end 0 \<noteq> None \<longrightarrow> sh_result (shared pool_end 0) = Some (seven 0)"
    using pool_end_stuck by blast+
  moreover have "phases pool_end 0 \<noteq> None" by (simp add: pool_end_def closing_def pool_eval Let_def)
  ultimately show ?thesis by (simp add: seven_def)
qed

section \<open>The pool on the loop\<close>

text \<open>A coroutine that waits for its function, and the same when the function is done.\<close>

definition waiting :: "nat pooled_loop" where
  "waiting =
     (let s1 = (new_pooled_loop 1)\<lparr>pl_pool := enqueue 0 (new_pool True 1)\<rparr>;
          s2 = s1\<lparr>pl_pool := tp_await_ready 0 (pl_pool s1)\<rparr> in
      s2\<lparr>pl_pool := tp_await_suspend 0 (pl_pool s2)\<rparr>)"

lemma waiting_reachable: "composed_reachable seven waiting"
proof -
  let ?s1 = "(new_pooled_loop 1)\<lparr>pl_pool := enqueue 0 (pl_pool (new_pooled_loop 1))\<rparr> :: nat pooled_loop"
  let ?s2 = "?s1\<lparr>pl_pool := tp_await_ready 0 (pl_pool ?s1)\<rparr>"
  have "composed_reachable seven ?s1"
    by (rule composed_reachable.step [OF composed_reachable.start composed_step.submit]) (simp_all add: loop_eval)
  then have "composed_reachable seven ?s2"
    by (rule composed_reachable.step [OF _ composed_step.ready]) (simp add: loop_eval)
  then have "composed_reachable seven (?s2\<lparr>pl_pool := tp_await_suspend 0 (pl_pool ?s2)\<rparr>)"
    by (rule composed_reachable.step [OF _ composed_step.suspend]) (simp add: loop_eval)
  then show ?thesis by (simp add: waiting_def new_pooled_loop_def)
qed

definition answered :: "nat pooled_loop" where
  "answered =
     (let s1 = waiting\<lparr>pl_ring := run_enter (pl_ring waiting)\<rparr>;
          s2 = s1\<lparr>pl_pool := worker_take (pl_pool s1)\<rparr>;
          s3 = finish_and_post seven 0 s2 in
      s3\<lparr>pl_ring := (pl_ring s3)\<lparr>sq_room := sq_room (pl_ring s3) @ [True]\<rparr>\<rparr>)"

lemma answered_reachable: "composed_reachable seven answered"
proof -
  let ?s1 = "waiting\<lparr>pl_ring := run_enter (pl_ring waiting)\<rparr>"
  let ?s2 = "?s1\<lparr>pl_pool := worker_take (pl_pool ?s1)\<rparr>"
  have "composed_reachable seven ?s1"
    by (rule composed_reachable.step [OF waiting_reachable composed_step.enter])
      (simp_all add: waiting_def loop_eval)
  then have "composed_reachable seven ?s2"
    by (rule composed_reachable.step [OF _ composed_step.take]) (simp_all add: waiting_def loop_eval Let_def)
  then have "composed_reachable seven (finish_and_post seven 0 ?s2)"
    by (rule composed_reachable.step [OF _ composed_step.finish]) (simp add: waiting_def loop_eval Let_def)
  then show ?thesis
    unfolding answered_def Let_def by (rule composed_reachable.step [OF _ composed_step.room])
qed

lemma answered_fields:
  "engine_alive answered" "lp_running (pl_ring answered)" "\<not> g_signal_received (pl_ring answered)"
  "phases (pl_pool answered) 0 = Some Suspended" "sh_done (shared (pl_pool answered) 0)"
  "tasks (pl_pool answered) = []" "running_tasks (pl_pool answered) = {}"
  "sq_room (pl_ring answered) = [True]" "pending_posts (pl_ring answered) = [0]" "in_flight (pl_ring answered) = []"
  by (simp_all add: answered_def waiting_def loop_eval Let_def)

theorem pool_on_loop_exactly_once_witness:
  "distinct (posted (pl_ring answered)) \<and>
   count (mset (posts_at (heap (pl_ring answered)) [0])) 0 = 1"
  using pool_on_loop_exactly_once [OF answered_reachable answered_fields(1)] answered_fields
  by (metis append_Nil emptyE empty_iff list.set(1))

theorem posted_coroutine_resumes_witness:
  "\<exists>a. phases (pl_pool (loop_and_resume (Cqe a 0) answered)) 0 = Some (Resumed (Inr 7))"
proof -
  have "sq_room (pl_ring answered) = replicate (length (pending_posts (pl_ring answered))) True @ []"
    by (simp add: answered_fields)
  from posted_coroutine_resumes [OF answered_reachable answered_fields(1-5) this] show ?thesis
    by (auto simp: seven_def)
qed

section \<open>Destruction with a waiting coroutine\<close>

definition torn_down :: "nat pooled_loop" where
  "torn_down =
     (let s1 = server_destroy waiting;
          s2 = s1\<lparr>pl_pool := worker_take (pl_pool s1)\<rparr>;
          s3 = finish_and_post seven 0 s2 in
      s3\<lparr>pl_pool := worker_exit (pl_pool s3)\<rparr>)"

lemma teardown_run: "(teardown_step seven)\<^sup>*\<^sup>* (server_destroy waiting) torn_down"
proof -
  let ?s1 = "server_destroy waiting"
  let ?s2 = "?s1\<lparr>pl_pool := worker_take (pl_pool ?s1)\<rparr>"
  let ?s3 = "finish_and_post seven 0 ?s2"
  have "teardown_step seven ?s1 ?s2"
    by (rule teardown_step.take) (simp_all add: waiting_def loop_eval Let_def)
  moreover have "teardown_step seven ?s2 ?s3"
    by (rule teardown_step.finish) (simp add: waiting_def loop_eval Let_def)
  moreover have "teardown_step seven ?s3 torn_down"
    unfolding torn_down_def Let_def by (rule teardown_step.exit) (simp_all add: waiting_def loop_eval Let_def)
  ultimately show ?thesis by (meson converse_rtranclp_into_rtranclp r_into_rtranclp)
qed

lemma torn_down_stuck: "\<nexists>u. teardown_step seven torn_down u"
  by (auto simp: torn_down_def waiting_def loop_eval Let_def elim: teardown_step.cases)

theorem destruction_posts_to_dead_engine_witness:
  "pool_joined (pl_pool torn_down) \<and> 0 \<in> set (posts_after_free torn_down)"
proof -
  have "phases (pl_pool waiting) 0 = Some Suspended" "\<not> sh_done (shared (pl_pool waiting) 0)"
      "0 < workers (pl_pool waiting)"
    by (simp_all add: waiting_def loop_eval Let_def)
  from destruction_posts_to_dead_engine [OF waiting_reachable this teardown_run torn_down_stuck]
  show ?thesis .
qed

end
