(* ===== verification/Connection_Service.thy ===== *)
theory Connection_Service
  imports Engine_Properties
begin

text \<open>
  A whole connection, from the bytes a client sends to the bytes it gets back. The abstract
  service is a table of actions on a memory of sessions; the router built by the registration
  methods represents such a table, and the client coroutine over the in-memory store implements
  it.
\<close>

section \<open>The abstract service\<close>

text \<open>An action computes a response and the new session; the table adds the constraints.\<close>

type_synonym action_fn = "Session \<Rightarrow> bytes \<Rightarrow> ResponseFrame \<times> Session"
type_synonym service = "u16 \<rightharpoonup> bool \<times> TransportType \<times> action_fn"

definition reply_frame :: "ClientFrame \<Rightarrow> ResponseFrame \<Rightarrow> u64 \<Rightarrow> ClientFrame" where
  "reply_frame fr resp sid =
     \<lparr>cf_header = mk_header (command_id (cf_header fr)) (rf_flags resp) (of_nat (length (rf_payload resp))) sid,
      cf_payload = rf_payload resp\<rparr>"

definition spec_step :: "service \<Rightarrow> (u64 \<Rightarrow> Session) \<Rightarrow> ClientFrame \<Rightarrow> ClientFrame list \<times> (u64 \<Rightarrow> Session)" where
  "spec_step svc m fr =
     (let sid = session_id (cf_header fr) in
      case svc (command_id (cf_header fr)) of
        None \<Rightarrow> ([], m)
      | Some (auth, tr, g) \<Rightarrow>
          if auth \<and> \<not> authenticated (m sid) \<or> tr \<notin> {ANY, TCP} then ([], m)
          else let (resp, s') = g (m sid) (cf_payload fr) in ([reply_frame fr resp sid], m(sid := s')))"

fun spec_run :: "service \<Rightarrow> (u64 \<Rightarrow> Session) \<Rightarrow> ClientFrame list \<Rightarrow> ClientFrame list \<times> (u64 \<Rightarrow> Session)" where
  "spec_run svc m [] = ([], m)"
| "spec_run svc m (fr # frs) =
     (let (rs, m1) = spec_step svc m fr; (rs', m2) = spec_run svc m1 frs in (rs @ rs', m2))"

definition keeps_ids :: "service \<Rightarrow> bool" where
  "keeps_ids svc \<longleftrightarrow>
     (\<forall>c auth tr g s p. svc c = Some (auth, tr, g) \<longrightarrow> sess_id (snd (g s p)) = sess_id s)"

section \<open>Its representation by a router\<close>

definition handler_of :: "action_fn \<Rightarrow> (Context, ResponseFrame) co" where
  "handler_of g ctx =
     (let (resp, s') = g (ctx_session ctx) (ctx_payload ctx) in (Ret resp, ctx\<lparr>ctx_session := s'\<rparr>))"

fun endpoint_of :: "bool \<times> TransportType \<times> action_fn \<Rightarrow> Endpoint" where
  "endpoint_of (auth, tr, g) = \<lparr>handler = Some (handler_of g), requires_auth = auth, allowed_transport = tr\<rparr>"

definition service_router :: "service \<Rightarrow> Router" where
  "service_router svc c = (case svc c of None \<Rightarrow> default_endpoint | Some e \<Rightarrow> endpoint_of e)"

lemma router_get_service: "router_get c (service_router svc) = map_option endpoint_of (svc c)"
  by (auto simp: router_get_def service_router_def is_valid_def default_endpoint_def split: option.split)

text \<open>Registration updates the table, and the builder methods its constraints.\<close>

lemma service_router_empty: "service_router Map.empty = empty_router"
  by (simp add: service_router_def empty_router_def fun_eq_iff)

lemma service_router_add:
  "router_add c (Some (handler_of g)) (service_router svc) = service_router (svc(c \<mapsto> (False, ANY, g)))"
  by (simp add: router_add_def service_router_def fun_eq_iff split: option.split)

lemma service_router_constrain:
  assumes "svc c = Some (auth, tr, g)"
  shows "at_endpoint c require_auth (service_router svc) = service_router (svc(c \<mapsto> (True, tr, g)))"
    "at_endpoint c tcp_only (service_router svc) = service_router (svc(c \<mapsto> (auth, TCP, g)))"
    "at_endpoint c udp_only (service_router svc) = service_router (svc(c \<mapsto> (auth, UDP, g)))"
  using assms
  by (simp_all add: at_endpoint_def service_router_def require_auth_def tcp_only_def udp_only_def fun_eq_iff)

section \<open>One request\<close>

fun reply_bytes :: "ProtocolMode \<Rightarrow> ClientFrame \<Rightarrow> bytes" where
  "reply_bytes BINARY fr = wire_buffer (cf_header fr) (cf_payload fr)"
| "reply_bytes TEXT fr = text_buffer (cf_header fr) (cf_payload fr)"

lemma conn_tx_client:
  "conn_tx (client_connection f c) h p (int (length (reply_bytes (c_mode c) \<lparr>cf_header = h, cf_payload = p\<rparr>))) =
     Sent f (reply_bytes (c_mode c) \<lparr>cf_header = h, cf_payload = p\<rparr>)"
  by (cases "c_mode c") (simp_all add: client_connection_def)

lemma transport_client [simp]: "transport_type (client_connection f c) = TCP"
  by (cases "c_mode c") (simp_all add: client_connection_def)

text \<open>Whether an action is closed to a session on a stream connection, and what the step then is.\<close>

definition closed_for :: "bool \<times> TransportType \<times> action_fn \<Rightarrow> Session \<Rightarrow> bool" where
  "closed_for entry s \<longleftrightarrow> (case entry of (auth, tr, g) \<Rightarrow> auth \<and> \<not> authenticated s \<or> tr \<notin> {ANY, TCP})"

lemma spec_step_cases:
  assumes "s = m (session_id (cf_header fr))"
  shows "svc (command_id (cf_header fr)) = None \<Longrightarrow> spec_step svc m fr = ([], m)"
    "svc (command_id (cf_header fr)) = Some e \<Longrightarrow> closed_for e s \<Longrightarrow> spec_step svc m fr = ([], m)"
    "svc (command_id (cf_header fr)) = Some (auth, tr, g) \<Longrightarrow> \<not> closed_for (auth, tr, g) s \<Longrightarrow>
       g s (cf_payload fr) = (resp, s') \<Longrightarrow>
       spec_step svc m fr = ([reply_frame fr resp (session_id (cf_header fr))], m(session_id (cf_header fr) := s'))"
  using assms by (auto simp: spec_step_def closed_for_def Let_def split: prod.splits)

lemma service_gate:
  "gate DefaultAuthenticator (endpoint_of e) (client_connection f c)
     (mk_context h p s (client_connection f c) w) =
   (Ret (\<not> closed_for e s), mk_context h p s (client_connection f c) w)"
  by (cases e) (auto simp: gate_default transport_ok_def mk_context_def closed_for_def)

lemma service_ignored:
  assumes "pl_router pl = service_router svc" "pl_authenticator pl = DefaultAuthenticator"
    and "\<not> reserved (command_id (cf_header fr))"
    and "\<And>e. svc (command_id (cf_header fr)) = Some e \<Longrightarrow> closed_for e s"
  shows "process_command pl fr (client_connection f c) (s, w) = (Ret (), (s, w))"
proof (cases "svc (command_id (cf_header fr))")
  case None
  with assms show ?thesis
    by (simp add: process_command_normal handle_normal_command_def router_get_service)
next
  case (Some e)
  then have "router_get (command_id (cf_header fr)) (pl_router pl) = Some (endpoint_of e)"
    using assms(1) by (simp add: router_get_service)
  from normal_rejected [OF this] show ?thesis
    using assms(2,3) assms(4) [OF Some] service_gate [of e f c]
    by (simp add: process_command_normal mk_context_def)
qed

lemma service_answered:
  assumes "pl_router pl = service_router svc" "pl_authenticator pl = DefaultAuthenticator"
    and "\<not> reserved (command_id (cf_header fr))"
    and e: "svc (command_id (cf_header fr)) = Some (auth, tr, g)" "\<not> closed_for (auth, tr, g) s"
    and g: "g s (cf_payload fr) = (resp, s')" "sess_id s' = sid"
    and tx: "tx_res w = int (length (reply_bytes (c_mode c) (reply_frame fr resp sid))) # room"
  shows "process_command pl fr (client_connection f c) (s, w) =
    (Ret (), (s', w\<lparr>tx_res := room, tx_log := tx_log w @ [Sent f (reply_bytes (c_mode c) (reply_frame fr resp sid))]\<rparr>))"
proof -
  let ?ctx = "mk_context (cf_header fr) (cf_payload fr) s (client_connection f c) w"
  have get: "router_get (command_id (cf_header fr)) (pl_router pl) = Some (endpoint_of (auth, tr, g))"
    using e(1) assms(1) by (simp add: router_get_service)
  have "gate (pl_authenticator pl) (endpoint_of (auth, tr, g)) (client_connection f c) ?ctx = (Ret True, ?ctx)"
    using service_gate e(2) assms(2) by (simp del: endpoint_of.simps)
  moreover have "invoke (endpoint_of (auth, tr, g)) ?ctx = (Ret resp, ?ctx\<lparr>ctx_session := s'\<rparr>)"
    using g(1) by (simp add: invoke_def handler_of_def mk_context_def)
  ultimately show ?thesis
    using normal_accepted [OF get, of "client_connection f c" s w ?ctx resp "?ctx\<lparr>ctx_session := s'\<rparr>"
        "int (length (reply_bytes (c_mode c) (reply_frame fr resp sid)))" room]
      assms(3) g(2) tx conn_tx_client [of f c]
    by (simp add: process_command_normal mk_context_def reply_frame_def)
qed

lemma process_service:
  assumes pl: "pl_router pl = service_router svc" "pl_authenticator pl = DefaultAuthenticator"
      "\<not> reserved (command_id (cf_header fr))"
    and s: "s = m (session_id (cf_header fr))" "sess_id s = session_id (cf_header fr)" "keeps_ids svc"
    and step: "spec_step svc m fr = (rs, m')"
    and tx: "tx_res w = map (\<lambda>r. int (length (reply_bytes (c_mode c) r))) rs @ room"
  shows "process_command pl fr (client_connection f c) (s, w) =
      (Ret (), (m' (session_id (cf_header fr)),
         w\<lparr>tx_res := room, tx_log := tx_log w @ map (\<lambda>r. Sent f (reply_bytes (c_mode c) r)) rs\<rparr>)) \<and>
    m' = m(session_id (cf_header fr) := m' (session_id (cf_header fr))) \<and>
    sess_id (m' (session_id (cf_header fr))) = session_id (cf_header fr)"
proof (cases "\<exists>auth tr g. svc (command_id (cf_header fr)) = Some (auth, tr, g) \<and> \<not> closed_for (auth, tr, g) s")
  case True
  then obtain auth tr g where e: "svc (command_id (cf_header fr)) = Some (auth, tr, g)" "\<not> closed_for (auth, tr, g) s"
    by blast
  obtain resp s' where g: "g s (cf_payload fr) = (resp, s')" by fastforce
  have r: "rs = [reply_frame fr resp (session_id (cf_header fr))]" "m' = m(session_id (cf_header fr) := s')"
    using spec_step_cases(3) [where m = m and fr = fr and svc = svc, OF s(1) e g] step by simp_all
  have "sess_id (snd (g s (cf_payload fr))) = sess_id s"
    using s(3) e(1) unfolding keeps_ids_def by blast
  with g s(2) have "sess_id s' = session_id (cf_header fr)" by simp
  with service_answered [OF pl e g this] tx r show ?thesis by simp
next
  case False
  then have closed: "\<And>e. svc (command_id (cf_header fr)) = Some e \<Longrightarrow> closed_for e s" by auto
  then have "rs = []" "m' = m"
    using spec_step_cases(1,2) [where m = m and fr = fr and svc = svc, OF s(1)] step by (cases "svc (command_id (cf_header fr))", auto)+
  with service_ignored [OF pl closed] s(1,2) tx show ?thesis by simp
qed

section \<open>A connection\<close>

text \<open>
  The next \<open>n\<close> rounds of the client coroutine on \<open>f\<close>: receive a request, process it, save the
  session; it stops early if the coroutine suspends or ends.
\<close>

fun serve :: "fd \<Rightarrow> nat \<Rightarrow> 'st system \<Rightarrow> 'st system" where
  "serve f 0 s = s"
| "serve f (Suc n) s =
     (case conns s f of
        None \<Rightarrow> s
      | Some c \<Rightarrow>
          (let s1 = client_receive f c s in
           case conns s1 f of
             None \<Rightarrow> s1
           | Some c1 \<Rightarrow>
               (case c_flight c1 of
                  None \<Rightarrow> s1
                | Some (frame, session) \<Rightarrow> serve f n (client_finish f c1 frame session s1))))"

text \<open>A connection at the top of its loop, on a server that offers the service.\<close>

definition serving :: "service \<Rightarrow> fd \<Rightarrow> client \<Rightarrow> session_map system \<Rightarrow> bool" where
  "serving svc f c s \<longleftrightarrow> conns s f = Some c \<and> c_flight c = None \<and> \<not> c_leaving c \<and> running s \<and>
     session_store s = Some InMemorySessionStore \<and> im_invar (store_state s) \<and>
     authenticator s = Some DefaultAuthenticator \<and> router s = service_router svc"

lemma switch_session_more_frame [simp]:
  "running (switch_session f c sid s) = running s" "session_store (switch_session f c sid s) = session_store s"
  "store_state (switch_session f c sid s) = store_state s" "kernel (switch_session f c sid s) = kernel s"
  "authenticator (switch_session f c sid s) = authenticator s" "router (switch_session f c sid s) = router s"
  "text_command_names (switch_session f c sid s) = text_command_names s"
  "botan_lib (switch_session f c sid s) = botan_lib s"
  by (simp_all add: switch_session_def register_session_def unregister_session_def)

lemma im_mem_sess_id: "im_invar st \<Longrightarrow> sess_id (im_mem st sid) = sid"
  by (rule im_store.mem_id)

lemma im_invar_upd: "im_invar st \<Longrightarrow> sess_id x = sid \<Longrightarrow> im_invar (st(sid \<mapsto> x))"
  by (simp add: im_invar_def)

lemma im_mem_self_upd: "im_mem (st(sid \<mapsto> im_mem st sid)) = im_mem st"
  by (simp add: fun_eq_iff)

text \<open>One round, whatever the command does as long as it returns and keeps the session's id.\<close>

lemma serve_step:
  assumes sv: "serving svc f c s"
    and rd: "read_request s f c (kernel s) = (Ret fr, set_rx f q (kernel s))"
    and pc: "process_command (pipeline_of s) fr (client_connection f c)
        (im_mem (store_state s) (session_id (cf_header fr)), set_rx f q (kernel s)) = (Ret (), (x', w'))"
    and id: "sess_id x' = session_id (cf_header fr)"
  obtains c' t where "serve f (Suc n) s = serve f n t" "serving svc f c' t" "c_mode c' = c_mode c"
    "im_mem (store_state t) = (im_mem (store_state s))(session_id (cf_header fr) := x')"
    "text_command_names t = text_command_names s" "botan_lib t = botan_lib s" "kernel t = w'"
proof -
  let ?sid = "session_id (cf_header fr)" and ?st = "store_state s"
  let ?c1 = "c\<lparr>current_sid := session_id (cf_header fr), c_flight := Some (fr, im_mem (store_state s) (session_id (cf_header fr)))\<rparr>"
  define s1 where "s1 = (switch_session f c ?sid (s\<lparr>kernel := set_rx f q (kernel s), store_state := ?st(?sid \<mapsto> im_mem ?st ?sid)\<rparr>))
      \<lparr>conns := (conns s)(f \<mapsto> ?c1)\<rparr>"
  note S = sv [unfolded serving_def]
  have rcv: "client_receive f c s = s1"
    using client_receive_ok [OF rd, where store = InMemorySessionStore] S by (simp add: im_store_calls s1_def)
  have s1: "conns s1 f = Some ?c1" "running s1" "session_store s1 = Some InMemorySessionStore"
      "authenticator s1 = Some DefaultAuthenticator" "router s1 = service_router svc" "botan_lib s1 = botan_lib s"
      "kernel s1 = set_rx f q (kernel s)" "store_state s1 = ?st(?sid \<mapsto> im_mem ?st ?sid)"
      "text_command_names s1 = text_command_names s"
    using S by (simp_all add: s1_def)
  have pl: "pipeline_of s1 = pipeline_of s" using s1 S by (simp add: pipeline_of_def)
  have conn: "client_connection f ?c1 = client_connection f c" by (simp add: client_connection_def)
  define t where "t = s1\<lparr>kernel := w', store_state := (store_state s1)(?sid \<mapsto> x'),
      conns := (conns s1)(f \<mapsto> ?c1\<lparr>c_flight := None\<rparr>)\<rparr>"
  have fin: "client_finish f ?c1 fr (im_mem ?st ?sid) s1 = t"
    using client_finish_ok [of s1 fr f ?c1 "im_mem ?st ?sid"] pc id s1(2,3,7)
    by (simp add: im_store_calls t_def pl conn)
  show ?thesis
  proof (rule that)
    show "serve f (Suc n) s = serve f n t" using S rcv s1(1) fin by simp
    show "serving svc f (?c1\<lparr>c_flight := None\<rparr>) t"
      using S s1 id by (simp add: serving_def t_def im_invar_upd im_mem_sess_id)
    show "im_mem (store_state t) = (im_mem ?st)(?sid := x')" using s1(8) by (simp add: t_def)
  qed (simp_all add: t_def s1)
qed

lemma serve_one:
  assumes sv: "serving svc f c s" "keeps_ids svc" "\<not> reserved (command_id (cf_header fr))"
    and rd: "read_request s f c (kernel s) = (Ret fr, set_rx f q (kernel s))"
    and step: "spec_step svc (im_mem (store_state s)) fr = (rs, m')"
    and tx: "tx_res (kernel s) = map (\<lambda>r. int (length (reply_bytes (c_mode c) r))) rs @ room"
  obtains c' t where "serve f (Suc n) s = serve f n t" "serving svc f c' t" "c_mode c' = c_mode c"
    "im_mem (store_state t) = m'" "text_command_names t = text_command_names s"
    "kernel t = (set_rx f q (kernel s))\<lparr>tx_res := room,
       tx_log := tx_log (kernel s) @ map (\<lambda>r. Sent f (reply_bytes (c_mode c) r)) rs\<rparr>"
proof -
  let ?sid = "session_id (cf_header fr)" and ?w = "set_rx f q (kernel s)"
  note S = sv(1) [unfolded serving_def]
  have P: "process_command (pipeline_of s) fr (client_connection f c) (im_mem (store_state s) ?sid, ?w) =
      (Ret (), (m' ?sid, ?w\<lparr>tx_res := room,
         tx_log := tx_log ?w @ map (\<lambda>r. Sent f (reply_bytes (c_mode c) r)) rs\<rparr>)) \<and>
      m' = (im_mem (store_state s))(?sid := m' ?sid) \<and> sess_id (m' ?sid) = ?sid"
    using S sv(2,3) step tx
    by (intro process_service [where m = "im_mem (store_state s)" and svc = svc])
      (simp_all add: pipeline_of_def set_rx_def im_mem_sess_id)
  show ?thesis
    by (rule serve_step [OF sv(1) rd conjunct1 [OF P], of n]) (use P that in \<open>auto simp: set_rx_def\<close>)
qed

lemma serve_refines:
  assumes rd: "\<And>x (t :: session_map system) c' rest. \<lbrakk>x \<in> set xs; c_mode c' = c_mode c; text_command_names t = text_command_names s;
        avail (rx (kernel t) f) = enc x @ rest\<rbrakk> \<Longrightarrow>
      \<exists>q. read_request t f c' (kernel t) = (Ret (val x), set_rx f q (kernel t)) \<and> avail q = rest"
    and "serving svc f c s" "keeps_ids svc" "\<forall>x \<in> set xs. \<not> reserved (command_id (cf_header (val x)))"
    and "avail (rx (kernel s) f) = concat (map enc xs) @ rest"
    and "spec_run svc (im_mem (store_state s)) (map val xs) = (rs, m')"
    and "tx_res (kernel s) = map (\<lambda>r. int (length (reply_bytes (c_mode c) r))) rs @ room"
  shows "let t = serve f (length xs) s in
    (\<exists>c'. serving svc f c' t) \<and> im_mem (store_state t) = m' \<and>
    tx_log (kernel t) = tx_log (kernel s) @ map (\<lambda>r. Sent f (reply_bytes (c_mode c) r)) rs \<and>
    avail (rx (kernel t) f) = rest"
  using assms
proof (induction xs arbitrary: s c rs)
  case Nil
  then show ?case by auto
next
  case (Cons x xs)
  obtain rs1 m1 where one: "spec_step svc (im_mem (store_state s)) (val x) = (rs1, m1)" by fastforce
  obtain rs2 where more: "spec_run svc m1 (map val xs) = (rs2, m')" and rs: "rs = rs1 @ rs2"
    using Cons.prems(6) one by (auto split: prod.splits)
  obtain q where q: "read_request s f c (kernel s) = (Ret (val x), set_rx f q (kernel s))"
      "avail q = concat (map enc xs) @ rest"
    using Cons.prems(1) [of x c s "concat (map enc xs) @ rest"] Cons.prems(5) by auto
  have nr: "\<not> reserved (command_id (cf_header (val x)))" using Cons.prems(4) by simp
  have tx1: "tx_res (kernel s) = map (\<lambda>r. int (length (reply_bytes (c_mode c) r))) rs1 @
      (map (\<lambda>r. int (length (reply_bytes (c_mode c) r))) rs2 @ room)"
    using Cons.prems(7) rs by simp
  obtain c' t where t: "serve f (Suc (length xs)) s = serve f (length xs) t" "serving svc f c' t" "c_mode c' = c_mode c"
      "im_mem (store_state t) = m1" "text_command_names t = text_command_names s"
      "kernel t = (set_rx f q (kernel s))\<lparr>tx_res := map (\<lambda>r. int (length (reply_bytes (c_mode c) r))) rs2 @ room,
         tx_log := tx_log (kernel s) @ map (\<lambda>r. Sent f (reply_bytes (c_mode c) r)) rs1\<rparr>"
    by (rule serve_one [OF Cons.prems(2,3) nr q(1) one tx1, where n = "length xs"])
  have "let u = serve f (length xs) t in
    (\<exists>c'. serving svc f c' u) \<and> im_mem (store_state u) = m' \<and>
    tx_log (kernel u) = tx_log (kernel t) @ map (\<lambda>r. Sent f (reply_bytes (c_mode c') r)) rs2 \<and>
    avail (rx (kernel u) f) = rest"
    using t q(2) more Cons.prems(1,3,4) by (intro Cons.IH) (auto simp: set_rx_def)
  then show ?case using t rs by (simp add: Let_def)
qed

section \<open>Properties\<close>

lemma wf_reply:
  "spec_run svc m frs = (rs, m') \<Longrightarrow> r \<in> set rs \<Longrightarrow> length (cf_payload r) < 2 ^ 32 \<Longrightarrow> wf_frame r"
proof (induction frs arbitrary: m rs)
  case (Cons fr frs)
  obtain rs1 m1 where one: "spec_step svc m fr = (rs1, m1)" by fastforce
  obtain rs2 where rest: "spec_run svc m1 frs = (rs2, m')" "rs = rs1 @ rs2"
    using Cons.prems(1) one by (auto split: prod.splits)
  have "wf_frame r" if "r \<in> set rs1"
    using that one Cons.prems(3)
    by (auto simp: spec_step_def Let_def reply_frame_def wf_frame_def mk_header_def unat_of_nat
        split: option.splits prod.splits if_splits)
  with Cons.IH [OF rest(1)] rest(2) Cons.prems(2,3) show ?case by auto
qed simp

lemma frames_read_back:
  assumes "\<forall>fr \<in> set frs. wf_frame fr" "avail (rx w g) = concat (map frame_bytes frs) @ behind"
  shows "\<exists>q. read_n (read_frame g) (length frs) w = (Ret frs, set_rx g q w) \<and> avail q = behind"
proof -
  have "\<exists>q. read_frame g v = (Ret fr, set_rx g q v) \<and> avail q = r \<and> ending q = ending (rx v g)"
    if "fr \<in> set frs" "avail (rx v g) = frame_bytes fr @ r" for fr v r
    using read_frame_stream [OF that(2)] assms(1) that(1) by metis
  from read_n_stream [where val = "\<lambda>x. x", OF this assms(2)] show ?thesis by auto
qed

text \<open>
  C1. A binary connection implements the abstract service. A client may send any sequence of
  frames for registered, unregistered or protected commands of any sessions, cut into segments
  in any way: when the kernel takes the replies whole, the frames the server sends are exactly
  the replies of the service, in order; the session store ends up as the service's memory; the
  bytes behind the requests are left; and a client that reads frames from what was sent gets
  exactly the replies.
\<close>

theorem connection_implements_service:
  assumes "serving svc f c s" "c_mode c = BINARY" "keeps_ids svc"
    and "\<forall>fr \<in> set frs. wf_frame fr \<and> \<not> reserved (command_id (cf_header fr))"
    and "avail (rx (kernel s) f) = concat (map frame_bytes frs) @ rest"
    and "spec_run svc (im_mem (store_state s)) frs = (replies, m')"
    and "tx_res (kernel s) = map (\<lambda>r. int (length (frame_bytes r))) replies @ room"
    and "\<forall>r \<in> set replies. length (cf_payload r) < 2 ^ 32"
    and "avail (rx peer g) = concat (map frame_bytes replies) @ behind"
  shows "let t = serve f (length frs) s in
    (\<exists>c'. serving svc f c' t) \<and> im_mem (store_state t) = m' \<and>
    tx_log (kernel t) = tx_log (kernel s) @ map (\<lambda>r. Sent f (frame_bytes r)) replies \<and>
    avail (rx (kernel t) f) = rest \<and>
    (\<exists>q. read_n (read_frame g) (length replies) peer = (Ret replies, set_rx g q peer) \<and> avail q = behind)"
proof -
  have rb: "reply_bytes (c_mode c) = frame_bytes"
    using assms(2) by (simp add: fun_eq_iff wire_buffer_def frame_bytes_def)
  have rd: "\<exists>q. read_request t f c' (kernel t) = (Ret fr, set_rx f q (kernel t)) \<and> avail q = r"
    if "fr \<in> set frs" "c_mode c' = c_mode c" "avail (rx (kernel t) f) = frame_bytes fr @ r"
    for fr c' r and t :: "session_map system"
    using read_frame_stream [OF that(3)] that(1,2) assms(2,4) by (metis ProtocolMode.simps(3) read_request_def)
  have "let t = serve f (length frs) s in
    (\<exists>c'. serving svc f c' t) \<and> im_mem (store_state t) = m' \<and>
    tx_log (kernel t) = tx_log (kernel s) @ map (\<lambda>r. Sent f (reply_bytes (c_mode c) r)) replies \<and>
    avail (rx (kernel t) f) = rest"
    using assms rd
    by (intro serve_refines [where enc = frame_bytes and val = "\<lambda>x. x"]) (auto simp: wire_buffer_def frame_bytes_def)
  moreover have "\<forall>r \<in> set replies. wf_frame r" using wf_reply [OF assms(6)] assms(8) by blast
  ultimately show ?thesis
    using frames_read_back [OF _ assms(9)] rb by (simp add: Let_def)
qed

text \<open>
  A request as a text client writes it, and as the frame it stands for.
\<close>

fun text_enc :: "string \<times> u16 \<times> u64 \<times> string \<Rightarrow> bytes" where
  "text_enc (token, cmd, sid, payload) = text_request token sid payload"

fun text_val :: "string \<times> u16 \<times> u64 \<times> string \<Rightarrow> ClientFrame" where
  "text_val (token, cmd, sid, payload) =
     \<lparr>cf_header = mk_header cmd 0 (of_nat (length payload)) sid, cf_payload = bytes_of_string payload\<rparr>"

fun text_ok :: "(string \<rightharpoonup> u16) \<Rightarrow> string \<times> u16 \<times> u64 \<times> string \<Rightarrow> bool" where
  "text_ok names (token, cmd, sid, payload) \<longleftrightarrow>
     (\<forall>c \<in> set token. \<not> isspace c) \<and> token \<noteq> [] \<and>
     (from_chars_u16 token = Some cmd \<or> from_chars_u16 token = None \<and> names token = Some cmd) \<and>
     newline \<notin> set payload \<and> length payload < 2 ^ 32 \<and> \<not> reserved cmd"

lemma read_text_val:
  assumes "text_ok names rq" "avail (rx w f) = text_enc rq @ rest"
  shows "\<exists>q. read_text_frame names f w = (Ret (text_val rq), set_rx f q w) \<and> avail q = rest"
proof -
  obtain token cmd sid payload where rq: "rq = (token, cmd, sid, payload)" by (cases rq)
  have ok: "\<forall>c \<in> set token. \<not> isspace c" "token \<noteq> []"
      "from_chars_u16 token = Some cmd \<or> from_chars_u16 token = None \<and> names token = Some cmd"
      "newline \<notin> set payload" "length payload < 2 ^ 32"
    using assms(1) unfolding rq text_ok.simps by blast+
  have av: "avail (rx w f) = text_request token sid payload @ rest"
    using assms(2) unfolding rq text_enc.simps .
  show ?thesis unfolding rq text_val.simps
    by (rule read_text_frame_stream [where cmd = cmd and cmd_names = names, OF av ok]) blast
qed

lemma wf_text_val: "text_ok names rq \<Longrightarrow> wf_frame (text_val rq)"
  by (cases rq) (auto simp: wf_frame_def mk_header_def unat_of_nat)

lemma text_not_reserved:
  assumes "\<forall>rq \<in> set rqs. text_ok names rq"
  shows "\<forall>rq \<in> set rqs. \<not> reserved (command_id (cf_header (text_val rq)))"
proof
  fix rq assume "rq \<in> set rqs"
  with assms have "text_ok names rq" by blast
  then show "\<not> reserved (command_id (cf_header (text_val rq)))"
    by (cases rq) (simp add: mk_header_def)
qed

lemma text_connection_serves:
  assumes "serving svc f c s" "c_mode c = TEXT" "keeps_ids svc"
    and "\<forall>rq \<in> set rqs. text_ok (text_command_names s) rq"
    and "avail (rx (kernel s) f) = concat (map text_enc rqs) @ rest"
    and "spec_run svc (im_mem (store_state s)) (map text_val rqs) = (replies, m')"
    and "tx_res (kernel s) = map (\<lambda>r. int (length (text_buffer (cf_header r) (cf_payload r)))) replies @ room"
  shows "let t = serve f (length rqs) s in
    (\<exists>c'. serving svc f c' t) \<and> im_mem (store_state t) = m' \<and>
    tx_log (kernel t) = tx_log (kernel s) @ map (\<lambda>r. Sent f (text_buffer (cf_header r) (cf_payload r))) replies \<and>
    avail (rx (kernel t) f) = rest"
proof -
  have rd: "\<exists>q. read_request t f c' (kernel t) = (Ret (text_val rq), set_rx f q (kernel t)) \<and> avail q = r"
    if "rq \<in> set rqs" "c_mode c' = c_mode c" "text_command_names t = text_command_names s"
      "avail (rx (kernel t) f) = text_enc rq @ r"
    for rq c' r and t :: "session_map system"
  proof -
    have "read_request t f c' = read_text_frame (text_command_names s) f"
      using that(2,3) assms(2) by (simp add: read_request_def)
    then show ?thesis using read_text_val [OF _ that(4)] that(1) assms(4) by metis
  qed
  note nr = text_not_reserved [OF assms(4)]
  have rb: "reply_bytes (c_mode c) r = text_buffer (cf_header r) (cf_payload r)" for r
    using assms(2) by simp
  show ?thesis
    using serve_refines [where enc = text_enc and val = text_val, OF rd assms(1,3) nr assms(5,6)] assms(7)
    unfolding rb by blast
qed

text \<open>
  C13. Text and binary clients get the same service. If one client sends requests as text lines
  and another sends the corresponding frames, to servers whose stores hold the same sessions,
  then the same reply frames are sent, each in the client's own format, and the stores hold the
  same sessions afterwards.
\<close>

theorem text_and_binary_agree:
  assumes "serving svc f c s" "c_mode c = BINARY" "serving svc g d u" "c_mode d = TEXT" "keeps_ids svc"
    and "\<forall>rq \<in> set rqs. text_ok (text_command_names u) rq"
    and "avail (rx (kernel s) f) = concat (map (frame_bytes \<circ> text_val) rqs) @ rest"
    and "avail (rx (kernel u) g) = concat (map text_enc rqs) @ rest'"
    and "im_mem (store_state s) = im_mem (store_state u)"
    and "spec_run svc (im_mem (store_state s)) (map text_val rqs) = (replies, m')"
    and "tx_res (kernel s) = map (\<lambda>r. int (length (frame_bytes r))) replies @ room"
    and "tx_res (kernel u) = map (\<lambda>r. int (length (text_buffer (cf_header r) (cf_payload r)))) replies @ room'"
  shows "let s' = serve f (length rqs) s; u' = serve g (length rqs) u in
    im_mem (store_state s') = im_mem (store_state u') \<and>
    tx_log (kernel s') = tx_log (kernel s) @ map (\<lambda>r. Sent f (frame_bytes r)) replies \<and>
    tx_log (kernel u') = tx_log (kernel u) @ map (\<lambda>r. Sent g (text_buffer (cf_header r) (cf_payload r))) replies"
proof -
  have rd: "\<exists>q. read_request t f c' (kernel t) = (Ret (text_val rq), set_rx f q (kernel t)) \<and> avail q = r"
    if "rq \<in> set rqs" "c_mode c' = c_mode c" "avail (rx (kernel t) f) = (frame_bytes \<circ> text_val) rq @ r"
    for rq c' r and t :: "session_map system"
    using read_frame_stream [of "kernel t" f "text_val rq" r] that assms(2,6) wf_text_val
    by (metis ProtocolMode.simps(3) comp_apply read_request_def)
  note nr = text_not_reserved [OF assms(6)]
  have rb: "reply_bytes (c_mode c) r = frame_bytes r" for r
    using assms(2) by (simp add: wire_buffer_def frame_bytes_def)
  have "let t = serve f (length rqs) s in
    (\<exists>c'. serving svc f c' t) \<and> im_mem (store_state t) = m' \<and>
    tx_log (kernel t) = tx_log (kernel s) @ map (\<lambda>r. Sent f (reply_bytes (c_mode c) r)) replies \<and>
    avail (rx (kernel t) f) = rest"
    using serve_refines [where enc = "frame_bytes \<circ> text_val" and val = text_val, OF rd assms(1,5) nr assms(7,10)]
      assms(11)
    unfolding rb by blast
  moreover have "let t = serve g (length rqs) u in
    (\<exists>c'. serving svc g c' t) \<and> im_mem (store_state t) = m' \<and>
    tx_log (kernel t) = tx_log (kernel u) @ map (\<lambda>r. Sent g (text_buffer (cf_header r) (cf_payload r))) replies \<and>
    avail (rx (kernel t) g) = rest'"
    by (rule text_connection_serves [OF assms(3-6,8) assms(10) [unfolded assms(9)] assms(12)])
  ultimately show ?thesis by (simp add: Let_def rb)
qed

end
