(* ===== verification/Sealed_Service.thy ===== *)
theory Sealed_Service
  imports Connection_Service Encrypted_Equivalence
begin

text \<open>
  Sealed requests. A client that shares a key with its session sends a command sealed; the
  command pipeline answers as the abstract service does, and the reply opens under the key to
  the service's reply.
\<close>

section \<open>Sealed frames\<close>

text \<open>The frame that carries a sealed command, in either direction.\<close>

definition sealed_frame :: "botan \<Rightarrow> bytes \<Rightarrow> u64 \<Rightarrow> u16 \<Rightarrow> bytes \<Rightarrow> u16 \<Rightarrow> bytes \<Rightarrow> ClientFrame" where
  "sealed_frame B key sid flgs iv cmd p =
     \<lparr>cf_header = mk_header CMD_ENCRYPTED_MESSAGE flgs (of_nat (length (sealed B key iv cmd p))) sid,
      cf_payload = sealed B key iv cmd p\<rparr>"

text \<open>A request: the client's nonce, the command and its payload; and a reply of the service, sealed.\<close>

type_synonym sealed_request = "bytes \<times> u16 \<times> bytes"

definition request_frame :: "botan \<Rightarrow> bytes \<Rightarrow> u64 \<Rightarrow> sealed_request \<Rightarrow> ClientFrame" where
  "request_frame B key sid rq = (case rq of (iv, cmd, p) \<Rightarrow> sealed_frame B key sid 0 iv cmd p)"

definition seal_reply :: "botan \<Rightarrow> bytes \<Rightarrow> u64 \<Rightarrow> bytes \<Rightarrow> ClientFrame \<Rightarrow> ClientFrame" where
  "seal_reply B key sid iv r =
     sealed_frame B key sid (flags (cf_header r)) iv (command_id (cf_header r)) (cf_payload r)"

definition keeps_keys :: "service \<Rightarrow> bool" where
  "keeps_keys svc \<longleftrightarrow>
     (\<forall>c auth tr g s p. svc c = Some (auth, tr, g) \<longrightarrow>
        has_aes_key (snd (g s p)) = has_aes_key s \<and> aes_key (snd (g s p)) = aes_key s)"

definition holds_key :: "bytes \<Rightarrow> Session \<Rightarrow> bool" where
  "holds_key key x \<longleftrightarrow> has_aes_key x \<and> aes_key x = key \<and> length key = 32"

lemma sealed_frame_sel [simp]:
  "command_id (cf_header (sealed_frame B key sid flgs iv cmd p)) = CMD_ENCRYPTED_MESSAGE"
  "session_id (cf_header (sealed_frame B key sid flgs iv cmd p)) = sid"
  "cf_payload (sealed_frame B key sid flgs iv cmd p) = sealed B key iv cmd p"
  by (simp_all add: sealed_frame_def)

lemma opened_frame_sel [simp]:
  "command_id (cf_header (opened_frame cmd p sid)) = cmd" "session_id (cf_header (opened_frame cmd p sid)) = sid"
  "cf_payload (opened_frame cmd p sid) = p"
  by (simp_all add: opened_frame_def)

lemma length_sealed:
  assumes "gcm_ok B" "length key = 32" "length iv = NONCE_SIZE"
  shows "length (sealed B key iv cmd p) = NONCE_SIZE + TAG_SIZE + 2 + length p"
proof -
  have "length (gcm_finish_enc B key iv [] (le_bytes 2 cmd @ p)) = TAG_SIZE + 2 + length p"
    using assms by (simp add: gcm_ok_def gcm_tag_appended_def aes_sizes)
  then show ?thesis using seal_layout_parts(1) [OF assms(3)] by (simp add: sealed_def)
qed

lemma wf_sealed_frame:
  assumes "gcm_ok B" "length key = 32" "length iv = NONCE_SIZE" "length p < 2 ^ 31"
  shows "wf_frame (sealed_frame B key sid flgs iv cmd p)"
proof -
  have "length (sealed B key iv cmd p) < 2 ^ 32"
    using length_sealed [OF assms(1-3), of cmd p] assms(4) by (simp add: aes_sizes)
  then have "unat (of_nat (length (sealed B key iv cmd p)) :: u32) = length (sealed B key iv cmd p)"
    by (simp only: unat_of_nat) (simp add: take_bit_nat_eq_self)
  then show ?thesis by (simp add: wf_frame_def sealed_frame_def mk_header_def)
qed

section \<open>One sealed request\<close>

lemma sealed_ignored:
  assumes pl: "pl_router pl = service_router svc" "pl_authenticator pl = DefaultAuthenticator"
    and closed: "\<And>e. svc cmd = Some e \<Longrightarrow> closed_for e s"
  shows "do_route_and_send pl (client_connection f c) k cmd p (s, w) = (Ret (), (s, w))"
proof (cases "svc cmd")
  case None
  with pl(1) show ?thesis by (simp add: do_route_and_send_def router_get_service)
next
  case (Some e)
  then have "router_get cmd (pl_router pl) = Some (endpoint_of e)" using pl(1) by (simp add: router_get_service)
  from routed_rejected [OF this] show ?thesis
    using pl(2) closed [OF Some] service_gate [of e f c] by (simp add: mk_context_def)
qed

lemma sealed_answered:
  assumes pl: "pl_router pl = service_router svc" "pl_authenticator pl = DefaultAuthenticator"
    and B: "gcm_ok (pl_botan pl)" "length key = 32" "c_mode c = BINARY"
    and e: "svc cmd = Some (auth, tr, g)" "\<not> closed_for (auth, tr, g) s"
    and g: "g s p = (resp, s')" "sess_id s' = sid"
    and rnd: "getrandom_src w = RandomBytes iv # src" "length iv = NONCE_SIZE"
    and out: "out = sealed_frame (pl_botan pl) key sid (rf_flags resp) iv cmd (rf_payload resp)"
    and tx: "tx_res w = int (length (frame_bytes out)) # room"
  shows "do_route_and_send pl (client_connection f c) \<lparr>cipher_key = key\<rparr> cmd p (s, w) =
    (Ret (), (s', w\<lparr>getrandom_src := src, tx_res := room, tx_log := tx_log w @ [Sent f (frame_bytes out)]\<rparr>))"
proof -
  let ?ctx = "mk_context (mk_header cmd 0 (of_nat (length p)) (sess_id s)) p s (client_connection f c) w"
  have get: "router_get cmd (pl_router pl) = Some (endpoint_of (auth, tr, g))"
    using e(1) pl(1) by (simp add: router_get_service)
  have gt: "gate (pl_authenticator pl) (endpoint_of (auth, tr, g)) (client_connection f c) ?ctx = (Ret True, ?ctx)"
    using service_gate e(2) pl(2) by (simp del: endpoint_of.simps)
  have inv: "invoke (endpoint_of (auth, tr, g)) ?ctx = (Ret resp, ?ctx\<lparr>ctx_session := s'\<rparr>)"
    using g(1) by (simp add: invoke_def handler_of_def mk_context_def)
  have conn: "client_connection f c = UringTcpConnection f" using B(3) by (simp add: client_connection_def)
  show ?thesis
    using routed_accepted [OF B(1) _ get gt inv, of "\<lparr>cipher_key = key\<rparr>" iv src "int (length (frame_bytes out))" room]
      B(2) rnd tx g(2) out
    by (simp add: conn mk_context_def sealed_frame_def frame_bytes_def wire_buffer_def)
qed

lemma process_sealed:
  assumes pl: "pl_router pl = service_router svc" "pl_authenticator pl = DefaultAuthenticator"
    and B: "gcm_ok (pl_botan pl)" "c_mode c = BINARY" "holds_key key s" "length iv0 = NONCE_SIZE"
    and s: "s = m sid" "sess_id s = sid" "keeps_ids svc" "keeps_keys svc"
    and step: "spec_step svc m (opened_frame cmd p sid) = (rs, m')"
    and rnd: "getrandom_src w = map RandomBytes ivs @ src" "length ivs = length rs" "\<forall>iv \<in> set ivs. length iv = NONCE_SIZE"
    and tx: "tx_res w = map2 (\<lambda>iv r. int (length (frame_bytes (seal_reply (pl_botan pl) key sid iv r)))) ivs rs @ room"
  shows "process_command pl (request_frame (pl_botan pl) key sid (iv0, cmd, p)) (client_connection f c) (s, w) =
      (Ret (), (m' sid, w\<lparr>getrandom_src := src, tx_res := room,
         tx_log := tx_log w @ map2 (\<lambda>iv r. Sent f (frame_bytes (seal_reply (pl_botan pl) key sid iv r))) ivs rs\<rparr>)) \<and>
    m' = m(sid := m' sid) \<and> sess_id (m' sid) = sid \<and> holds_key key (m' sid)"
proof -
  have pc: "process_command pl (request_frame (pl_botan pl) key sid (iv0, cmd, p)) (client_connection f c) (s, w) =
      do_route_and_send pl (client_connection f c) \<lparr>cipher_key = key\<rparr> cmd p (s, w)"
    using encrypted_opened [OF B(1) _ _ B(4), of s "request_frame (pl_botan pl) key sid (iv0, cmd, p)" cmd p] B(3)
    by (simp add: holds_key_def request_frame_def)
  have m: "s = m (session_id (cf_header (opened_frame cmd p sid)))" using s(1) by simp
  show ?thesis
  proof (cases "\<exists>auth tr g. svc cmd = Some (auth, tr, g) \<and> \<not> closed_for (auth, tr, g) s")
    case True
    then obtain auth tr g where e: "svc cmd = Some (auth, tr, g)" "\<not> closed_for (auth, tr, g) s" by blast
    obtain resp s' where g: "g s p = (resp, s')" by fastforce
    have r: "rs = [reply_frame (opened_frame cmd p sid) resp sid]" "m' = m(sid := s')"
      using spec_step_cases(3) [where fr = "opened_frame cmd p sid" and svc = svc and m = m and g = g and s = s, OF m _ e(2)]
        e(1) g step by simp_all
    have "sess_id (snd (g s p)) = sess_id s" using s(3) e(1) unfolding keeps_ids_def by blast
    then have id: "sess_id s' = sid" using g s(2) by simp
    have "has_aes_key (snd (g s p)) = has_aes_key s \<and> aes_key (snd (g s p)) = aes_key s"
      using s(4) e(1) unfolding keeps_keys_def by blast
    then have k: "holds_key key s'" using B(3) g by (simp add: holds_key_def)
    obtain iv where iv: "ivs = [iv]" using rnd(2) r(1) by (cases ivs) auto
    have out: "seal_reply (pl_botan pl) key sid iv (reply_frame (opened_frame cmd p sid) resp sid) =
        sealed_frame (pl_botan pl) key sid (rf_flags resp) iv cmd (rf_payload resp)"
      by (simp add: seal_reply_def reply_frame_def)
    have "length key = 32" using B(3) by (simp add: holds_key_def)
    from sealed_answered [OF pl B(1) this B(2) e g id _ _ out, of w src room f] show ?thesis
      using pc rnd tx r iv id k by simp
  next
    case False
    then have closed: "\<And>e. svc cmd = Some e \<Longrightarrow> closed_for e s" by auto
    then have "rs = []" "m' = m"
      using spec_step_cases(1,2) [where fr = "opened_frame cmd p sid" and svc = svc and m = m, OF m] step
      by (cases "svc cmd", auto)+
    with sealed_ignored [OF pl closed] pc s B(3) rnd tx show ?thesis by simp
  qed
qed

section \<open>Requests and replies\<close>

text \<open>What a client may send: nonces of the right size, and payloads that fit the length field.\<close>

definition request_ok :: "sealed_request \<Rightarrow> bool" where
  "request_ok rq \<longleftrightarrow> (case rq of (iv, cmd, p) \<Rightarrow> length iv = NONCE_SIZE \<and> length p < 2 ^ 31)"

lemma seal_reply_opens:
  assumes "gcm_ok B" "holds_key key x" "length iv = NONCE_SIZE"
  shows "do_decrypt B (cf_payload (seal_reply B key sid iv r)) x =
    Inr (Some (\<lparr>cipher_key = key\<rparr>, command_id (cf_header r), cf_payload r))"
  using do_decrypt_sealed [OF assms(1), of x iv] assms(2,3) by (auto simp: holds_key_def seal_reply_def)

lemma wf_seal_replies:
  assumes "gcm_ok B" "length key = 32"
  shows "length ivs = length rs \<Longrightarrow> \<forall>iv \<in> set ivs. length iv = NONCE_SIZE \<Longrightarrow>
    \<forall>r \<in> set rs. length (cf_payload r) < 2 ^ 31 \<Longrightarrow> \<forall>fr \<in> set (map2 (seal_reply B key sid) ivs rs). wf_frame fr"
  by (induction ivs rs rule: list_induct2) (simp_all add: seal_reply_def wf_sealed_frame [OF assms])

end
