(* ===== verification/Secure_Conversation.thy ===== *)
theory Secure_Conversation
  imports Sealed_Service
begin

text \<open>
  A whole conversation with the security layer. A client mixes commands in the clear, key
  exchanges and sealed commands, of any sessions, on one connection. What it knows is what it
  sent and what it read; the keys it seals under are the ones it computed from the server's
  public keys. The conversation implements the abstract service.
\<close>

section \<open>The abstract conversation\<close>

text \<open>What a client says: a frame in the clear, a key exchange with a private key of its own, a sealed command.\<close>

datatype message =
    Clear ClientFrame
  | Agree u64 bytes
  | Secret u64 sealed_request

text \<open>
  Between two messages: the client's keys, the service's memory, and the private keys and nonces
  the server is going to draw.
\<close>

record talk =
  tk_keys :: "u64 \<rightharpoonup> bytes"
  tk_memory :: "u64 \<Rightarrow> Session"
  tk_privs :: "bytes list"
  tk_nonces :: "bytes list"

definition key_frame :: "u64 \<Rightarrow> bytes \<Rightarrow> ClientFrame" where
  "key_frame sid pub = \<lparr>cf_header = mk_header CMD_KEY_EXCHANGE 0 32 sid, cf_payload = pub\<rparr>"

text \<open>The frame a client sends.\<close>

fun ask :: "botan \<Rightarrow> talk \<Rightarrow> message \<Rightarrow> ClientFrame" where
  "ask B t (Clear fr) = fr"
| "ask B t (Agree sid priv) = key_frame sid (x25519_public B priv)"
| "ask B t (Secret sid rq) = request_frame B (the (tk_keys t sid)) sid rq"

text \<open>
  What the service says to it, in the clear. In a key exchange each side computes the key from
  its own private key and the public key it was sent.
\<close>

fun say :: "botan \<Rightarrow> service \<Rightarrow> talk \<Rightarrow> message \<Rightarrow> ClientFrame list \<times> talk" where
  "say B svc t (Clear fr) =
     (let (rs, m) = spec_step svc (tk_memory t) fr in (rs, t\<lparr>tk_memory := m\<rparr>))"
| "say B svc t (Agree sid priv) =
     (let server_priv = hd (tk_privs t); server_pub = x25519_public B server_priv in
      ([key_frame sid server_pub],
       t\<lparr>tk_keys := (tk_keys t)(sid := x25519_agree B priv server_pub),
         tk_memory := (tk_memory t)(sid :=
           set_aes_key (the (x25519_agree B server_priv (x25519_public B priv))) (tk_memory t sid)),
         tk_privs := tl (tk_privs t)\<rparr>))"
| "say B svc t (Secret sid rq) =
     (case rq of (iv, cmd, p) \<Rightarrow>
        let (rs, m) = spec_step svc (tk_memory t) (opened_frame cmd p sid) in
        (rs, t\<lparr>tk_memory := m, tk_nonces := drop (length rs) (tk_nonces t)\<rparr>))"

text \<open>The form in which the replies travel, and how a client reads one.\<close>

fun on_wire :: "botan \<Rightarrow> talk \<Rightarrow> message \<Rightarrow> ClientFrame list \<Rightarrow> ClientFrame list" where
  "on_wire B t (Secret sid rq) rs =
     map2 (seal_reply B (the (tk_keys t sid)) sid) (take (length rs) (tk_nonces t)) rs"
| "on_wire B t _ rs = rs"

fun key_for :: "talk \<Rightarrow> message \<Rightarrow> bytes option" where
  "key_for t (Secret sid rq) = tk_keys t sid"
| "key_for t _ = None"

definition client_open :: "botan \<Rightarrow> bytes option \<Rightarrow> ClientFrame \<Rightarrow> (u16 \<times> bytes) option" where
  "client_open B key fr =
     (case key of
        None \<Rightarrow> Some (command_id (cf_header fr), cf_payload fr)
      | Some k \<Rightarrow>
          (case do_decrypt B (cf_payload fr) (set_aes_key k (new_session 0)) of
             Inr (Some (_, cmd, p)) \<Rightarrow> Some (cmd, p)
           | _ \<Rightarrow> None))"

text \<open>The frames sent, and for every reply the key it is read with, its form and the reply.\<close>

fun converse ::
    "botan \<Rightarrow> service \<Rightarrow> talk \<Rightarrow> message list \<Rightarrow>
     ClientFrame list \<times> (bytes option \<times> ClientFrame \<times> ClientFrame) list \<times> talk" where
  "converse B svc t [] = ([], [], t)"
| "converse B svc t (x # xs) =
     (let (rs, t1) = say B svc t x; (qs, os, t2) = converse B svc t1 xs in
      (ask B t x # qs, map (Pair (key_for t x)) (zip (on_wire B t x rs) rs) @ os, t2))"

text \<open>
  What a client has to keep to: frames in the clear are well-formed and not reserved, sealed
  commands are of sessions with an agreed key, and a key exchange is with a key that Botan
  accepts. The server's sources of keys and nonces do not run dry.
\<close>

fun may_ask :: "botan \<Rightarrow> talk \<Rightarrow> message \<Rightarrow> bool" where
  "may_ask B t (Clear fr) \<longleftrightarrow> wf_frame fr \<and> \<not> reserved (command_id (cf_header fr))"
| "may_ask B t (Agree sid priv) \<longleftrightarrow> tk_privs t \<noteq> [] \<and> length (hd (tk_privs t)) = 32 \<and>
     x25519_agree B (hd (tk_privs t)) (x25519_public B priv) \<noteq> None"
| "may_ask B t (Secret sid rq) \<longleftrightarrow> tk_keys t sid \<noteq> None \<and> request_ok rq"

fun conversation_ok :: "botan \<Rightarrow> service \<Rightarrow> talk \<Rightarrow> message list \<Rightarrow> bool" where
  "conversation_ok B svc t [] \<longleftrightarrow> True"
| "conversation_ok B svc t (x # xs) \<longleftrightarrow> may_ask B t x \<and>
     (let (rs, t1) = say B svc t x in
      length (on_wire B t x rs) = length rs \<and> list_all (\<lambda>r. length (cf_payload r) < 2 ^ 31) rs \<and>
      conversation_ok B svc t1 xs)"

text \<open>The keys of the two sides agree.\<close>

definition agreed :: "talk \<Rightarrow> bool" where
  "agreed t \<longleftrightarrow> (\<forall>sid key. tk_keys t sid = Some key \<longrightarrow> holds_key key (tk_memory t sid))"

definition nonces_ok :: "talk \<Rightarrow> bool" where
  "nonces_ok t \<longleftrightarrow> (\<forall>iv \<in> set (tk_nonces t). length iv = NONCE_SIZE)"

section \<open>One message\<close>

abbreviation msg_sid :: "botan \<Rightarrow> talk \<Rightarrow> message \<Rightarrow> u64" where
  "msg_sid B t x \<equiv> session_id (cf_header (ask B t x))"

abbreviation wire_len :: "ClientFrame \<Rightarrow> int" where
  "wire_len fr \<equiv> int (length (frame_bytes fr))"

definition talk_world :: "talk \<Rightarrow> int list \<Rightarrow> tx list \<Rightarrow> world \<Rightarrow> world" where
  "talk_world t room out w = w\<lparr>privkey_src := tk_privs t, getrandom_src := map RandomBytes (tk_nonces t),
     tx_res := room, tx_log := tx_log w @ out\<rparr>"

lemma key_frame_sel [simp]:
  "command_id (cf_header (key_frame sid pub)) = CMD_KEY_EXCHANGE" "session_id (cf_header (key_frame sid pub)) = sid"
  "cf_payload (key_frame sid pub) = pub"
  by (simp_all add: key_frame_def)

lemma wf_key_frame: "length pub = 32 \<Longrightarrow> wf_frame (key_frame sid pub)"
  by (simp add: wf_frame_def key_frame_def mk_header_def)

lemma spec_step_keeps_keys:
  assumes "keeps_keys svc" "spec_step svc m fr = (rs, m')" "holds_key key (m sid)"
  shows "holds_key key (m' sid)"
proof (cases "svc (command_id (cf_header fr))")
  case None
  with assms(2,3) show ?thesis by (simp add: spec_step_def)
next
  case (Some e)
  obtain auth tr g where e: "e = (auth, tr, g)" by (cases e)
  let ?s = "m (session_id (cf_header fr))"
  obtain resp s' where g: "g ?s (cf_payload fr) = (resp, s')" by fastforce
  have "has_aes_key (snd (g ?s (cf_payload fr))) = has_aes_key ?s \<and> aes_key (snd (g ?s (cf_payload fr))) = aes_key ?s"
    using assms(1) Some e unfolding keeps_keys_def by blast
  with g assms(2,3) Some e show ?thesis
    by (auto simp: spec_step_def Let_def holds_key_def split: if_splits)
qed

text \<open>The two sides keep agreeing, whatever is said.\<close>

lemma say_agrees:
  assumes "x25519_sizes B" "x25519_commutes B" "keeps_keys svc"
    and "agreed t" "nonces_ok t" "may_ask B t x" "say B svc t x = (rs, t1)"
  shows "agreed t1 \<and> nonces_ok t1"
proof (cases x)
  case (Agree sid priv)
  obtain k ks where k: "tk_privs t = k # ks" using assms(6) Agree by (cases "tk_privs t") auto
  obtain secret where s: "x25519_agree B k (x25519_public B priv) = Some secret" using assms(6) Agree k by auto
  then have "length secret = 32" "x25519_agree B priv (x25519_public B k) = Some secret"
    using assms(1,2) by (auto simp: x25519_sizes_def x25519_commutes_def)
  then show ?thesis
    using assms(4,5,7) Agree k s by (auto simp: agreed_def nonces_ok_def holds_key_def Let_def split: if_splits)
qed (use assms(4,5,7) spec_step_keeps_keys [OF assms(3)] in
    \<open>auto simp: agreed_def nonces_ok_def dest!: in_set_dropD split: prod.splits\<close>)

text \<open>The pipeline does with a message what the service says.\<close>

lemma message_processed:
  assumes pl: "pl_router pl = service_router svc" "pl_authenticator pl = DefaultAuthenticator" "pl_botan pl = B"
    and B: "gcm_ok B" "x25519_sizes B" "x25519_commutes B" "c_mode c = BINARY" "keeps_ids svc" "keeps_keys svc"
    and t: "agreed t" "nonces_ok t" "may_ask B t x" "say B svc t x = (rs, t')" "length (on_wire B t x rs) = length rs"
    and id: "sess_id (tk_memory t (msg_sid B t x)) = msg_sid B t x"
    and w: "privkey_src w = tk_privs t" "getrandom_src w = map RandomBytes (tk_nonces t)"
      "tx_res w = map wire_len (on_wire B t x rs) @ room"
  shows "process_command pl (ask B t x) (client_connection f c) (tk_memory t (msg_sid B t x), w) =
      (Ret (), (tk_memory t' (msg_sid B t x), talk_world t' room (map (\<lambda>fr. Sent f (frame_bytes fr)) (on_wire B t x rs)) w)) \<and>
    tk_memory t' = (tk_memory t)(msg_sid B t x := tk_memory t' (msg_sid B t x)) \<and>
    sess_id (tk_memory t' (msg_sid B t x)) = msg_sid B t x"
proof (cases x)
  case (Clear fr)
  obtain m where m: "spec_step svc (tk_memory t) fr = (rs, m)" "t' = t\<lparr>tk_memory := m\<rparr>"
    using t(4) Clear by (auto split: prod.splits)
  have rb: "reply_bytes (c_mode c) = frame_bytes"
    using B(4) by (simp add: fun_eq_iff wire_buffer_def frame_bytes_def)
  have "talk_world t' room out w = w\<lparr>tx_res := room, tx_log := tx_log w @ out\<rparr>" for out
    using m(2) by (simp add: talk_world_def w(1,2) [symmetric])
  then show ?thesis
    using process_service [OF pl(1,2), of fr "tk_memory t (session_id (cf_header fr))" "tk_memory t" rs m w c room f]
      Clear t(3) id B(5) m w(3) rb by simp
next
  case (Agree sid priv)
  obtain k ks where k: "tk_privs t = k # ks" "length k = 32" using t(3) Agree by (cases "tk_privs t") auto
  obtain secret where s: "x25519_agree B k (x25519_public B priv) = Some secret" using t(3) Agree k by auto
  have r: "rs = [key_frame sid (x25519_public B k)]"
      "t' = t\<lparr>tk_keys := (tk_keys t)(sid := x25519_agree B priv (x25519_public B k)),
         tk_memory := (tk_memory t)(sid := set_aes_key secret (tk_memory t sid)), tk_privs := ks\<rparr>"
    using t(4) Agree k s by (auto simp: Let_def)
  have conn: "client_connection f c = UringTcpConnection f" using B(4) by (simp add: client_connection_def)
  have "process_command pl (ask B t x) (client_connection f c) (tk_memory t sid, w) =
      (Ret (), (set_aes_key secret (tk_memory t sid), w\<lparr>privkey_src := ks, tx_res := room,
         tx_log := tx_log w @ [Sent f (frame_bytes (key_frame sid (x25519_public B k)))]\<rparr>))"
    using key_exchange_agreement [of "ask B t x" B pl priv w k ks secret] pl(3) B(2,3) Agree k s w(1,3) r(1) id
    by (simp add: conn frame_bytes_def wire_buffer_def key_frame_def)
  moreover have "talk_world t' room out w = w\<lparr>privkey_src := ks, tx_res := room, tx_log := tx_log w @ out\<rparr>" for out
    using r(2) w(2) by (cases w) (simp add: talk_world_def)
  ultimately show ?thesis using Agree r id by simp
next
  case (Secret sid rq)
  obtain iv cmd p where rq: "rq = (iv, cmd, p)" by (metis prod_cases3)
  obtain key where key: "tk_keys t sid = Some key" using t(3) Secret by auto
  then have hk: "holds_key key (tk_memory t sid)" using t(1) by (simp add: agreed_def)
  obtain m where m: "spec_step svc (tk_memory t) (opened_frame cmd p sid) = (rs, m)"
      "t' = t\<lparr>tk_memory := m, tk_nonces := drop (length rs) (tk_nonces t)\<rparr>"
    using t(4) Secret rq by (auto split: prod.splits)
  let ?ivs = "take (length rs) (tk_nonces t)"
  have n: "length ?ivs = length rs" using t(5) Secret by simp
  have nn: "\<forall>iv \<in> set ?ivs. length iv = NONCE_SIZE" using t(2) by (auto simp: nonces_ok_def dest: in_set_takeD)
  have src: "getrandom_src w = map RandomBytes ?ivs @ map RandomBytes (drop (length rs) (tk_nonces t))"
    using w(2) by (simp flip: map_append)
  have wl: "map (\<lambda>fr. h (frame_bytes fr)) (map2 (seal_reply B key sid) ivs rs) =
      map2 (\<lambda>iv r. h (frame_bytes (seal_reply B key sid iv r))) ivs rs" for ivs and h :: "bytes \<Rightarrow> 'a"
    by (simp add: comp_def case_prod_unfold)
  have tw: "talk_world t' room out w = w\<lparr>getrandom_src := map RandomBytes (drop (length rs) (tk_nonces t)),
      tx_res := room, tx_log := tx_log w @ out\<rparr>" for out
    using m(2) w(1) by (cases w) (simp add: talk_world_def)
  have ok: "length iv = NONCE_SIZE" using t(3) Secret rq by (simp add: request_ok_def)
  have "tx_res w = map2 (\<lambda>iv r. int (length (frame_bytes (seal_reply (pl_botan pl) key sid iv r)))) ?ivs rs @ room"
    using w(3) Secret key pl(3) wl [of "\<lambda>b. int (length b)"] by simp
  from process_sealed [OF pl(1,2) _ B(4) hk ok refl _ B(5,6) m(1) src n nn this, of f] pl(3) B(1) id Secret rq key
  show ?thesis
    using m(2) tw wl [of "Sent f"] by (simp add: request_frame_def)
qed

section \<open>A conversation\<close>

lemma wf_ask:
  assumes "gcm_ok B" "x25519_sizes B" "agreed t" "may_ask B t x"
  shows "wf_frame (ask B t x)"
proof (cases x)
  case (Secret sid rq)
  obtain iv cmd p where rq: "rq = (iv, cmd, p)" by (metis prod_cases3)
  obtain key where key: "tk_keys t sid = Some key" using assms(4) Secret by auto
  then have "length key = 32" using assms(3) by (auto simp: agreed_def holds_key_def)
  then show ?thesis
    using assms(1,4) Secret rq key by (simp add: request_frame_def request_ok_def wf_sealed_frame)
qed (use assms in \<open>auto simp: wf_key_frame x25519_sizes_def\<close>)

definition coupled_talk :: "talk \<Rightarrow> session_map system \<Rightarrow> bool" where
  "coupled_talk t s \<longleftrightarrow> im_mem (store_state s) = tk_memory t \<and> privkey_src (kernel s) = tk_privs t \<and>
     getrandom_src (kernel s) = map RandomBytes (tk_nonces t)"

text \<open>One round of the client coroutine is one message of the conversation.\<close>

lemma serve_message:
  assumes sv: "serving svc f c s" "c_mode c = BINARY" "keeps_ids svc" "keeps_keys svc"
    and B: "botan_lib s = B" "gcm_ok B" "x25519_sizes B" "x25519_commutes B"
    and t: "agreed t" "nonces_ok t" "may_ask B t x" "say B svc t x = (rs, t1)" "length (on_wire B t x rs) = length rs"
    and s: "coupled_talk t s" "avail (rx (kernel s) f) = frame_bytes (ask B t x) @ rest"
      "tx_res (kernel s) = map wire_len (on_wire B t x rs) @ room"
  obtains c' u where "serve f (Suc n) s = serve f n u" "serving svc f c' u" "c_mode c' = BINARY" "botan_lib u = B"
    "agreed t1" "nonces_ok t1" "coupled_talk t1 u" "avail (rx (kernel u) f) = rest" "tx_res (kernel u) = room"
    "tx_log (kernel u) = tx_log (kernel s) @ map (\<lambda>fr. Sent f (frame_bytes fr)) (on_wire B t x rs)"
proof -
  note S = sv(1) [unfolded serving_def] and C = s(1) [unfolded coupled_talk_def]
  let ?sid = "msg_sid B t x"
  obtain q where q: "read_frame f (kernel s) = (Ret (ask B t x), set_rx f q (kernel s))" "avail q = rest"
    by (rule read_frame_stream [OF s(2) wf_ask [OF B(2,3) t(1,3)]]) blast
  have rd: "read_request s f c (kernel s) = (Ret (ask B t x), set_rx f q (kernel s))"
    using q(1) sv(2) by (simp add: read_request_def)
  let ?w = "set_rx f q (kernel s)"
  let ?w' = "talk_world t1 room (map (\<lambda>fr. Sent f (frame_bytes fr)) (on_wire B t x rs)) ?w"
  have id: "sess_id (tk_memory t ?sid) = ?sid" using C S im_mem_sess_id by metis
  have P: "process_command (pipeline_of s) (ask B t x) (client_connection f c) (tk_memory t ?sid, ?w) =
      (Ret (), (tk_memory t1 ?sid, ?w')) \<and>
    tk_memory t1 = (tk_memory t)(?sid := tk_memory t1 ?sid) \<and> sess_id (tk_memory t1 ?sid) = ?sid"
    by (rule message_processed [OF _ _ _ B(2-4) sv(2-4) t id]) (use S C s(3) B(1) in \<open>simp_all add: pipeline_of_def\<close>)
  then have pc: "process_command (pipeline_of s) (ask B t x) (client_connection f c)
      (im_mem (store_state s) ?sid, ?w) = (Ret (), (tk_memory t1 ?sid, ?w'))" using C by simp
  obtain c' u where u: "serve f (Suc n) s = serve f n u" "serving svc f c' u" "c_mode c' = c_mode c"
      "im_mem (store_state u) = (im_mem (store_state s))(?sid := tk_memory t1 ?sid)" "botan_lib u = botan_lib s" "kernel u = ?w'"
    by (rule serve_step [OF sv(1) rd pc, of n]) (use P in auto)
  show thesis
    by (rule that [OF u(1,2)]) (use u P C q(2) sv(2) B(1) say_agrees [OF B(3,4) sv(4) t(1-4)] in \<open>simp_all add: coupled_talk_def talk_world_def\<close>)
qed

lemma serve_conversation:
  assumes "serving svc f c s" "c_mode c = BINARY" "keeps_ids svc" "keeps_keys svc"
    and "botan_lib s = B" "gcm_ok B" "x25519_sizes B" "x25519_commutes B"
    and "agreed t" "nonces_ok t" "conversation_ok B svc t xs" "converse B svc t xs = (qs, os, t')"
    and "coupled_talk t s" "avail (rx (kernel s) f) = concat (map frame_bytes qs) @ rest"
    and "tx_res (kernel s) = map (\<lambda>(key, fr, r). wire_len fr) os @ room"
  shows "let u = serve f (length xs) s in
    (\<exists>c'. serving svc f c' u) \<and> im_mem (store_state u) = tk_memory t' \<and> agreed t' \<and>
    tx_log (kernel u) = tx_log (kernel s) @ map (\<lambda>(key, fr, r). Sent f (frame_bytes fr)) os \<and>
    avail (rx (kernel u) f) = rest"
  using assms
proof (induction xs arbitrary: s c t qs os)
  case Nil
  then show ?case by (auto simp: coupled_talk_def)
next
  case (Cons x xs)
  obtain rs t1 where one: "say B svc t x = (rs, t1)" by fastforce
  obtain qs' os' where rest: "converse B svc t1 xs = (qs', os', t')" 
    using Cons.prems(12) one by (auto split: prod.splits)
  have qs: "qs = ask B t x # qs'" and os: "os = map (Pair (key_for t x)) (zip (on_wire B t x rs) rs) @ os'"
    using Cons.prems(12) one rest by auto
  have ok: "may_ask B t x" "length (on_wire B t x rs) = length rs" "conversation_ok B svc t1 xs"
    using Cons.prems(11) one by auto
  have wire: "map (\<lambda>(key, fr, r). h fr) (map (Pair k) (zip (on_wire B t x rs) rs)) = map h (on_wire B t x rs)"
    for k :: "bytes option" and h :: "ClientFrame \<Rightarrow> 'z"
  proof -
    have "map (\<lambda>(key, fr, r). h fr) (map (Pair k) (zip (on_wire B t x rs) rs)) = map h (map fst (zip (on_wire B t x rs) rs))"
      by (simp add: comp_def case_prod_unfold)
    then show ?thesis using ok(2) by simp
  qed
  obtain c' u where u: "serve f (Suc (length xs)) s = serve f (length xs) u" "serving svc f c' u" "c_mode c' = BINARY"
      "botan_lib u = B" "agreed t1" "nonces_ok t1" "coupled_talk t1 u"
      "avail (rx (kernel u) f) = concat (map frame_bytes qs') @ rest"
      "tx_res (kernel u) = map (\<lambda>(key, fr, r). wire_len fr) os' @ room"
      "tx_log (kernel u) = tx_log (kernel s) @ map (\<lambda>fr. Sent f (frame_bytes fr)) (on_wire B t x rs)"
  proof (rule serve_message [OF Cons.prems(1-10) ok(1) one ok(2) Cons.prems(13), where n = "length xs"])
    show "avail (rx (kernel s) f) = frame_bytes (ask B t x) @ concat (map frame_bytes qs') @ rest"
      using Cons.prems(14) qs by simp
    show "tx_res (kernel s) = map wire_len (on_wire B t x rs) @ map (\<lambda>(key, fr, r). wire_len fr) os' @ room"
      using Cons.prems(15) os wire [of wire_len] by simp
  qed
  from Cons.IH [OF u(2,3) Cons.prems(3,4) u(4) Cons.prems(6-8) u(5,6) ok(3) rest u(7-9)]
  show ?case using u(1,10) os wire [of "\<lambda>fr. Sent f (frame_bytes fr)"] by (simp add: Let_def)
qed

text \<open>The client can read what comes back: it is well-formed and opens to the service's replies.\<close>

lemma wf_step_reply:
  assumes "spec_step svc m fr = (rs, m')" "r \<in> set rs" "length (cf_payload r) < 2 ^ 31"
  shows "wf_frame r"
  using wf_reply [of svc m "[fr]" rs m' r] assms by simp

lemma wire_readable:
  assumes B: "gcm_ok B" "x25519_sizes B" and t: "agreed t" "nonces_ok t" "may_ask B t x" "say B svc t x = (rs, t1)"
    and rs: "length (on_wire B t x rs) = length rs" "\<forall>r \<in> set rs. length (cf_payload r) < 2 ^ 31"
    and fr: "(fr, r) \<in> set (zip (on_wire B t x rs) rs)"
  shows "wf_frame fr \<and> client_open B (key_for t x) fr = Some (command_id (cf_header r), cf_payload r)"
proof (cases x)
  case (Clear f)
  with fr t(4) rs(2) have "fr = r" "wf_frame r"
    by (auto simp: zip_same dest: wf_step_reply split: prod.splits)
  with Clear show ?thesis by (simp add: client_open_def)
next
  case (Agree sid priv)
  with fr t(4) B(2) have "fr = r" "wf_frame r"
    by (auto simp: Let_def x25519_sizes_def wf_key_frame)
  with Agree show ?thesis by (simp add: client_open_def)
next
  case (Secret sid rq)
  obtain key where key: "tk_keys t sid = Some key" using t(3) Secret by auto
  then have len: "length key = 32" using t(1) by (auto simp: agreed_def holds_key_def)
  let ?ivs = "take (length rs) (tk_nonces t)"
  have n: "length ?ivs = length rs" "\<forall>iv \<in> set ?ivs. length iv = NONCE_SIZE"
    using rs(1) t(2) Secret by (auto simp: nonces_ok_def dest: in_set_takeD)
  obtain i where i: "i < length rs" "fr = seal_reply B key sid (?ivs ! i) (rs ! i)" "r = rs ! i"
    using fr Secret key n(1) by (auto simp: in_set_zip)
  have iv: "length (?ivs ! i) = NONCE_SIZE" using n i(1) by (metis nth_mem)
  have "holds_key key (set_aes_key key (new_session 0))" using len by (simp add: holds_key_def)
  from seal_reply_opens [OF B(1) this iv] i(2,3) Secret key
  have "client_open B (key_for t x) fr = Some (command_id (cf_header r), cf_payload r)" by (simp add: client_open_def)
  moreover have "wf_frame fr"
    using i rs(2) wf_sealed_frame [OF B(1) len iv] by (simp add: seal_reply_def)
  ultimately show ?thesis by simp
qed

lemma conversation_readable:
  assumes "gcm_ok B" "x25519_sizes B" "x25519_commutes B" "keeps_keys svc"
    and "agreed t" "nonces_ok t" "conversation_ok B svc t xs" "converse B svc t xs = (qs, os, t')"
  shows "\<forall>(key, fr, r) \<in> set os. wf_frame fr \<and> client_open B key fr = Some (command_id (cf_header r), cf_payload r)"
  using assms(5-)
proof (induction xs arbitrary: t qs os)
  case (Cons x xs)
  obtain rs t1 where one: "say B svc t x = (rs, t1)" by fastforce
  obtain qs' os' where rest: "converse B svc t1 xs = (qs', os', t')"
    and os: "os = map (Pair (key_for t x)) (zip (on_wire B t x rs) rs) @ os'"
    using Cons.prems(4) one by (auto split: prod.splits)
  have ok: "may_ask B t x" "length (on_wire B t x rs) = length rs" "\<forall>r \<in> set rs. length (cf_payload r) < 2 ^ 31"
      "conversation_ok B svc t1 xs"
    using Cons.prems(3) one by (auto simp: list_all_iff)
  note ag = say_agrees [OF assms(2-4) Cons.prems(1,2) ok(1) one]
  from Cons.IH [OF _ _ ok(4) rest] ag wire_readable [OF assms(1,2) Cons.prems(1,2) ok(1) one ok(2,3)]
  show ?case by (auto simp: os)
qed simp

section \<open>Properties\<close>

text \<open>
  C2. A conversation with the security layer implements the abstract service. A client sends, in
  any order and cut into segments in any way, frames in the clear, key exchanges and sealed
  commands, of any sessions; it seals under the keys it computed from the server's answers. When
  the kernel supplies private keys and nonces and takes the replies whole, the store ends up as
  the memory of the service that got all the commands in the clear, client and server hold the
  same keys, the server sends exactly the replies in the form that belongs to their requests,
  and the client reads them back in order and opens each one to the service's reply.
\<close>

theorem conversation_implements_service:
  assumes "serving svc f c s" "c_mode c = BINARY" "keeps_ids svc" "keeps_keys svc"
    and "botan_lib s = B" "gcm_ok B" "x25519_sizes B" "x25519_commutes B"
    and "agreed t" "nonces_ok t" "conversation_ok B svc t xs" "converse B svc t xs = (qs, os, t')"
    and "coupled_talk t s" "avail (rx (kernel s) f) = concat (map frame_bytes qs) @ rest"
    and "tx_res (kernel s) = map (\<lambda>(key, fr, r). wire_len fr) os @ room"
    and "avail (rx peer g) = concat (map (\<lambda>(key, fr, r). frame_bytes fr) os) @ behind"
  shows "let u = serve f (length xs) s; out = map (\<lambda>(key, fr, r). fr) os in
    (\<exists>c'. serving svc f c' u) \<and> im_mem (store_state u) = tk_memory t' \<and> agreed t' \<and>
    tx_log (kernel u) = tx_log (kernel s) @ map (\<lambda>fr. Sent f (frame_bytes fr)) out \<and>
    avail (rx (kernel u) f) = rest \<and>
    (\<exists>q. read_n (read_frame g) (length out) peer = (Ret out, set_rx g q peer) \<and> avail q = behind) \<and>
    list_all (\<lambda>(key, fr, r). client_open B key fr = Some (command_id (cf_header r), cf_payload r)) os"
proof -
  let ?out = "map (\<lambda>(key, fr, r). fr) os"
  note R = conversation_readable [OF assms(6-8,4,9-12)]
  have wf: "\<forall>fr \<in> set ?out. wf_frame fr" using R by auto
  have av: "avail (rx peer g) = concat (map frame_bytes ?out) @ behind"
    using assms(16) by (simp add: comp_def case_prod_unfold)
  have tx: "map (\<lambda>fr. Sent f (frame_bytes fr)) ?out = map (\<lambda>(key, fr, r). Sent f (frame_bytes fr)) os"
    by (simp add: comp_def case_prod_unfold)
  have ops: "list_all (\<lambda>(key, fr, r). client_open B key fr = Some (command_id (cf_header r), cf_payload r)) os"
    using R by (auto simp: list_all_iff)
  show ?thesis
    using serve_conversation [OF assms(1-15)] frames_read_back [OF wf av] ops
    unfolding Let_def tx by blast
qed

end
