(* ===== verification/Whole_Server.thy ===== *)
theory Whole_Server
  imports Engine_Properties
begin

text \<open>
  All the coroutines of the engine side by side: stream clients, datagram loops, discovery,
  announcements and pushed frames, over the in-memory store. Every step of this relation is a
  step of the clients' relation, so what holds for the clients holds here; and the sessions in
  the store, and those in the hands of the clients, stay well-formed.
\<close>

section \<open>Steps\<close>

inductive server_step :: "session_map system \<Rightarrow> session_map system \<Rightarrow> bool" where
  accept: "\<lbrakk>running s; 0 \<le> f; f < 2 ^ 31; f \<notin> open_fds s\<rbrakk> \<Longrightarrow> server_step s (accept_turn mode f s)"
| receive: "\<lbrakk>running s; conns s f = Some c; c_flight c = None; \<not> c_leaving c\<rbrakk> \<Longrightarrow>
    server_step s (client_receive f c s)"
| finish: "\<lbrakk>conns s f = Some c; c_flight c = Some (frame, session)\<rbrakk> \<Longrightarrow>
    server_step s (client_finish f c frame session s)"
| leave: "\<lbrakk>running s; conns s f = Some c; c_leaving c\<rbrakk> \<Longrightarrow> server_step s (client_leave f c s)"
| datagram: "udp_turn f buffer s = (goes_on, buffer', t) \<Longrightarrow> server_step s t"
| discovery: "discovery_turn f s = (goes_on, t) \<Longrightarrow> server_step s t"
| announce: "announce_if_idle s = (r, t) \<Longrightarrow> server_step s t"
| push: "send_to sid cmd payload s = (r, t) \<Longrightarrow> server_step s t"
| push_all: "broadcast cmd payload s = (r, t) \<Longrightarrow> server_step s t"
| push_some: "broadcast_if cmd payload predicate s = (r, t) \<Longrightarrow> server_step s t"
| kernel: "tx_log w = tx_log (kernel s) \<Longrightarrow> server_step s (s\<lparr>kernel := w\<rparr>)"
| stop: "server_step s (s\<lparr>running := False\<rparr>)"

inductive server_reachable :: "session_map system \<Rightarrow> session_map system \<Rightarrow> bool" for s0 where
  start: "server_reachable s0 s0"
| step: "server_reachable s0 s \<Longrightarrow> server_step s t \<Longrightarrow> server_reachable s0 t"

section \<open>The background\<close>

text \<open>
  The coroutines that serve no stream client act on the kernel and read sessions. A relation
  that holds of these actions and is reflexive and transitive holds from the beginning of a
  turn to its end.
\<close>

locale turn_relation =
  fixes R :: "session_map system \<Rightarrow> session_map system \<Rightarrow> bool"
  assumes R_refl: "R s s"
    and R_trans: "R s t \<Longrightarrow> R t u \<Longrightarrow> R s u"
    and R_kernel: "R s (s\<lparr>kernel := w\<rparr>)"
    and R_get: "session_store s = Some store \<Longrightarrow> R s (snd (store_get store sid s))"
begin

lemma R_on_kernel: "R s (snd (on_kernel m s))"
  by (simp add: on_kernel_def R_kernel split: prod.split)

lemma R_bind:
  assumes "R s (snd (m s))" "\<And>a t. R t (snd (f a t))"
  shows "R s (snd (co_bind m f s))"
  using assms by (auto simp: co_bind_def split: prod.split outcome.split intro: R_trans)

lemma R_of_sum: "R s (snd (co_of_sum r s))"
  by (simp add: co_of_sum_def R_refl split: sum.split)

lemma R_broadcast_if: "R s (snd (broadcast_if_loop cmd payload predicate es s))"
proof (induction es arbitrary: s)
  case Nil
  show ?case by (simp add: R_refl)
next
  case (Cons e rest)
  obtain sid f where e: "e = (sid, f)" by fastforce
  show ?case
  proof (cases "session_store s")
    case None
    with Cons.IH [of s] e show ?thesis by simp
  next
    case (Some store)
    have "R s (snd (co_bind (store_get store sid) (\<lambda>session.
          co_bind (co_of_sum (predicate session)) (\<lambda>p.
            if \<not> p then broadcast_if_loop cmd payload predicate rest
            else co_seq (on_kernel (async_write f (push_buffer sid cmd payload)))
                   (broadcast_if_loop cmd payload predicate rest))) s))"
      unfolding co_seq_def
      by (intro R_bind R_get [OF Some] R_of_sum) (auto intro: Cons.IH R_bind R_on_kernel)
    then show ?thesis using Some e by simp
  qed
qed

lemma R_turns:
  "send_to sid cmd payload s = (r, t) \<Longrightarrow> R s t"
  "broadcast cmd payload s = (r, t) \<Longrightarrow> R s t"
  "broadcast_if cmd payload predicate s = (r, t) \<Longrightarrow> R s t"
  "announce_if_idle s = (r, t) \<Longrightarrow> R s t"
  using R_on_kernel [of s] R_broadcast_if [of s] R_refl [of s]
  by (auto simp: send_to_def send_to_session_def broadcast_def do_broadcast_def broadcast_if_def do_broadcast_if_def
      announce_if_idle_def split: option.splits if_splits dest!: arg_cong [of _ _ snd])

lemma R_discovery: "discovery_turn f s = (goes_on, t) \<Longrightarrow> R s t"
  by (auto simp: discovery_turn_def Let_def R_refl R_kernel
      split: prod.splits outcome.splits if_splits option.splits sum.splits)

end

text \<open>The first such relation: a turn that changes the kernel and the store only.\<close>

definition background_turn :: "session_map system \<Rightarrow> session_map system \<Rightarrow> bool" where
  "background_turn s t \<longleftrightarrow> (\<exists>w st. t = s\<lparr>kernel := w, store_state := st\<rparr>)"

lemma background_intros:
  "background_turn s s" "background_turn s (s\<lparr>kernel := w\<rparr>)" "background_turn s (s\<lparr>store_state := st\<rparr>)"
  "background_turn s (s\<lparr>kernel := w, store_state := st\<rparr>)"
  unfolding background_turn_def
  by (rule exI [of _ "kernel s"], rule exI [of _ "store_state s"], simp)
    (rule exI, rule exI [of _ "store_state s"], simp, rule exI [of _ "kernel s"], auto)

interpretation background: turn_relation background_turn
proof
  fix s t u :: "session_map system"
  show "background_turn s t \<Longrightarrow> background_turn t u \<Longrightarrow> background_turn s u"
    by (clarsimp simp: background_turn_def) blast
qed (simp_all add: background_intros store_get_def split: prod.split)

lemma background_datagram: "udp_turn f buffer s = (goes_on, buffer', t) \<Longrightarrow> background_turn s t"
  by (auto simp: udp_turn_def Let_def background_intros split: prod.splits outcome.splits if_splits option.splits)

lemma background_engine: "background_turn s t \<Longrightarrow> engine_step s t"
  by (auto simp: background_turn_def intro: engine_step.background)

lemma server_step_engine: "server_step s t \<Longrightarrow> engine_step s t"
proof (induction rule: server_step.induct)
  case (kernel w s)
  show ?case by (rule background_engine) (rule background_intros)
qed (auto intro: engine_step.intros background_engine background_datagram background.R_discovery background.R_turns)

lemma server_reachable_engine: "server_reachable s0 s \<Longrightarrow> initial s0 \<Longrightarrow> reachable s"
  by (induction rule: server_reachable.induct) (auto intro: reachable.intros server_step_engine)

section \<open>Well-formed sessions\<close>

text \<open>
  A session filed under its own id with a key of the size of \<^verbatim>\<open>std::array<uint8_t, 32>\<close>. User
  code reaches the session through a reference; the hypothesis about it is that it uses the
  setters of \<^verbatim>\<open>Session\<close> and does not assign another session over it.
\<close>

definition session_wf :: "u64 \<Rightarrow> Session \<Rightarrow> bool" where
  "session_wf sid x \<longleftrightarrow> sess_id x = sid \<and> length (aes_key x) = 32"

definition user_code_wf :: "pipeline \<Rightarrow> bool" where
  "user_code_wf pl \<longleftrightarrow>
     (\<forall>sid. keeps (\<lambda>ctx. session_wf sid (ctx_session ctx)) (pl_authenticator pl)) \<and>
     (\<forall>sid c h. handler (pl_router pl c) = Some h \<longrightarrow> keeps (\<lambda>ctx. session_wf sid (ctx_session ctx)) h)"

lemma session_wf_setters [intro]:
  "session_wf sid (new_session sid)" "session_wf sid x \<Longrightarrow> session_wf sid (set_authenticated b u x)"
  "session_wf sid x \<Longrightarrow> length k = 32 \<Longrightarrow> session_wf sid (set_aes_key k x)"
  by (simp_all add: session_wf_def new_session_def set_authenticated_def set_aes_key_def)

lemma keeps_in_world [intro]: "keeps (\<lambda>ctx. P (ctx_session ctx)) (in_world m)"
  by (simp add: keeps_def in_world_def split: prod.split)

lemma keeps_on_world [intro]: "keeps (\<lambda>st. P (fst st)) (on_world m)"
  by (simp add: keeps_def on_world_def split: prod.split)

lemma keeps_of_sum [intro]: "keeps P (co_of_sum r)"
  by (simp add: keeps_def co_of_sum_def split: sum.split)

lemma keeps_Pair [intro]: "keeps P (Pair r)"
  by (simp add: keeps_def)

lemma keeps_at_state: "(\<And>st. keeps P (m st)) \<Longrightarrow> keeps P (\<lambda>st. m st st)"
  by (simp add: keeps_def)

lemma keeps_in_world_at: "keeps (\<lambda>ctx. P (ctx_session ctx)) (\<lambda>ctx. in_world (m ctx) ctx)"
  by (rule keeps_at_state) (rule keeps_in_world)

lemma keeps_bind_val:
  assumes "keeps P m" "\<And>a s s'. m s = (Ret a, s') \<Longrightarrow> keeps P (f a)"
  shows "keeps P (co_bind m f)"
  unfolding keeps_def
proof (intro allI impI)
  fix s assume "P s"
  then have "P (snd (m s))" using assms(1) by (simp add: keeps_def)
  then show "P (snd (co_bind m f s))"
    using assms(2) [of s] by (auto simp: co_bind_def keeps_def split: prod.split outcome.split)
qed

lemma keeps_with_context:
  assumes "keeps (\<lambda>ctx. P (ctx_session ctx)) m"
  shows "keeps (\<lambda>st. P (fst st)) (with_context h p conn m)"
  unfolding keeps_def
proof (intro allI impI)
  fix st :: request_state assume "P (fst st)"
  with assms have "P (ctx_session (snd (m (mk_context h p (fst st) conn (snd st)))))" by (simp add: keeps_def)
  then show "P (fst (snd (with_context h p conn m st)))" by (simp add: with_context_def split_beta Let_def)
qed

lemma keeps_invoke:
  assumes "user_code_wf pl" "router_get c (pl_router pl) = Some ep"
  shows "keeps (\<lambda>ctx. session_wf sid (ctx_session ctx)) (gate (pl_authenticator pl) ep conn)"
    "keeps (\<lambda>ctx. session_wf sid (ctx_session ctx)) (invoke ep)"
proof -
  have "keeps (\<lambda>ctx. session_wf sid (ctx_session ctx))
      (if requires_auth ep then pl_authenticator pl else co_ret True)"
    using assms(1) by (simp add: user_code_wf_def keeps_ret)
  then show "keeps (\<lambda>ctx. session_wf sid (ctx_session ctx)) (gate (pl_authenticator pl) ep conn)"
    unfolding gate_def by (intro keeps_bind keeps_ret)
  have "ep = pl_router pl c" using assms(2) by (simp add: router_get_def split: if_splits)
  then show "keeps (\<lambda>ctx. session_wf sid (ctx_session ctx)) (invoke ep)"
    using assms(1) unfolding invoke_def user_code_wf_def by (auto simp: keeps_def split: option.split)
qed

lemma keeps_key_exchange: "keeps (\<lambda>st. session_wf sid (fst st)) (handle_key_exchange B frame conn)"
proof (cases "length (cf_payload frame) = 32")
  case True
  have len: "length k = 32" if "co_of_sum (shared_secret B a b) st = (Ret k, st')"
    for a b k and st st' :: request_state
    using that by (auto simp: co_of_sum_def shared_secret_def split: sum.splits option.splits)
  have set: "keeps (\<lambda>st. session_wf sid (fst st)) (\<lambda>(x, w). (Ret (), (set_aes_key k x, w)))" if "length k = 32" for k
    using that by (auto simp: keeps_def session_wf_setters)
  have snd: "keeps (\<lambda>st. session_wf sid (fst st)) (\<lambda>(x, w). on_world (m x) (x, w))" for m :: "Session \<Rightarrow> (world, unit) co"
    by (auto simp: keeps_def on_world_def split: prod.split)
  show ?thesis
    unfolding handle_key_exchange_def Let_def
    using True by (auto intro!: keeps_bind_val [OF keeps_of_sum] keeps_bind keeps_seq keeps_on_world set snd dest: len)
next
  case False
  then show ?thesis by (simp add: handle_key_exchange_def keeps_ret)
qed

lemma keeps_normal:
  assumes "user_code_wf pl"
  shows "keeps (\<lambda>st. session_wf sid (fst st)) (handle_normal_command pl frame conn)"
proof (cases "router_get (command_id (cf_header frame)) (pl_router pl)")
  case None
  then show ?thesis by (simp add: handle_normal_command_def keeps_ret)
next
  case (Some ep)
  then show ?thesis
    by (auto simp: handle_normal_command_def
        intro!: keeps_with_context keeps_bind keeps_Pair keeps_in_world_at keeps_invoke [OF assms Some])
qed

lemma keeps_route_and_send:
  assumes "user_code_wf pl"
  shows "keeps (\<lambda>st. session_wf sid (fst st)) (do_route_and_send pl conn cipher cmd p)"
proof (cases "router_get cmd (pl_router pl)")
  case None
  then show ?thesis by (simp add: do_route_and_send_def keeps_ret)
next
  case (Some ep)
  show ?thesis
    unfolding do_route_and_send_def Some option.case Let_def case_prod_beta' prod.collapse
    by (rule keeps_at_state)
      (auto intro!: keeps_with_context keeps_bind keeps_Pair keeps_in_world keeps_of_sum keeps_in_world_at
        keeps_invoke [OF assms Some])
qed

lemma keeps_process:
  assumes "user_code_wf pl"
  shows "keeps (\<lambda>st. session_wf sid (fst st)) (process_command pl frame conn)"
proof -
  have "keeps (\<lambda>st. session_wf sid (fst st)) (handle_encrypted_message pl frame conn)"
    using keeps_route_and_send [OF assms] unfolding handle_encrypted_message_def
    by (auto simp: keeps_def split: sum.split option.split)
  then show ?thesis
    by (simp add: process_command_def keeps_key_exchange keeps_normal [OF assms])
qed

section \<open>Well-formed servers\<close>

definition system_wf :: "session_map system \<Rightarrow> bool" where
  "system_wf s \<longleftrightarrow> session_store s = Some InMemorySessionStore \<and> user_code_wf (pipeline_of s) \<and>
     (\<forall>sid x. store_state s sid = Some x \<longrightarrow> session_wf sid x) \<and>
     (\<forall>f c fr x. conns s f = Some c \<longrightarrow> c_flight c = Some (fr, x) \<longrightarrow>
        current_sid c = session_id (cf_header fr) \<and> session_wf (session_id (cf_header fr)) x)"

text \<open>
  An operation that leaves the store and the configuration of commands alone, and puts no
  request in a client's hands.
\<close>

definition same_sessions :: "session_map system \<Rightarrow> session_map system \<Rightarrow> bool" where
  "same_sessions s t \<longleftrightarrow> session_store t = session_store s \<and> pipeline_of t = pipeline_of s \<and>
     store_state t = store_state s \<and>
     (\<forall>f c fl. conns t f = Some c \<longrightarrow> c_flight c = Some fl \<longrightarrow>
        (\<exists>c'. conns s f = Some c' \<and> c_flight c' = Some fl \<and> current_sid c' = current_sid c))"

lemma same_sessions_wf: "same_sessions s t \<Longrightarrow> system_wf s \<Longrightarrow> system_wf t"
  unfolding same_sessions_def system_wf_def by metis

lemma same_sessions_ops:
  "same_sessions s (s\<lparr>kernel := w\<rparr>)" "same_sessions s (s\<lparr>running := b\<rparr>)"
  "same_sessions s (client_die f s)" "same_sessions s (client_close f s)"
  "same_sessions s (client_exit f c s)" "same_sessions s (client_leave f c s)"
  "same_sessions s (client_catch e f c s)" "same_sessions s (accept_turn mode f s)"
proof -
  show die: "same_sessions s (client_die f s)" for s
    by (simp add: same_sessions_def client_die_def pipeline_of_def)
  show close: "same_sessions s (client_close f s)" for s
    by (simp add: same_sessions_def client_close_def pipeline_of_def reenable_discovery_def Let_def)
  show exit: "same_sessions s (client_exit f c s)"
    using die [of "unregister_session (current_sid c) s"] close [of s] close [of "unregister_session (current_sid c) s"]
    by (auto simp: client_exit_def Let_def same_sessions_def unregister_session_def pipeline_of_def split: sum.split)
  show "same_sessions s (client_leave f c s)"
    using die [of s] close [of "s\<lparr>disconnects := disconnects s @ [current_sid c]\<rparr>"]
    by (auto simp: client_leave_def same_sessions_def pipeline_of_def split: option.split sum.split)
  show "same_sessions s (client_catch e f c s)" using exit die by (simp add: client_catch_def)
  show "same_sessions s (accept_turn mode f s)"
    by (simp add: same_sessions_def accept_turn_def client_start_def disable_discovery_def pipeline_of_def Let_def
        split: sum.split)
qed (simp_all add: same_sessions_def pipeline_of_def)

lemma system_wf_memory: "system_wf s \<Longrightarrow> session_wf sid (im_mem (store_state s) sid)"
  by (auto simp: system_wf_def im_mem_def session_wf_setters split: option.split)

section \<open>What steps do to sessions\<close>

text \<open>The second relation: well-formedness is kept and every session reads as before.\<close>

definition calm :: "session_map system \<Rightarrow> session_map system \<Rightarrow> bool" where
  "calm s t \<longleftrightarrow> (system_wf s \<longrightarrow> system_wf t \<and> im_mem (store_state t) = im_mem (store_state s))"

lemma same_sessions_calm: "same_sessions s t \<Longrightarrow> calm s t"
  using same_sessions_wf by (auto simp: calm_def same_sessions_def)

lemma wf_store_upd:
  assumes "system_wf s" "session_wf sid x"
  shows "system_wf (s\<lparr>store_state := (store_state s)(sid \<mapsto> x)\<rparr>)"
  using assms unfolding system_wf_def pipeline_of_def by auto

lemma im_mem_self: "im_mem (st(sid \<mapsto> im_mem st sid)) = im_mem st"
  by (simp add: fun_eq_iff)

interpretation calm: turn_relation calm
proof
  fix s :: "session_map system" and store sid
  assume store: "session_store s = Some store"
  show "calm s (snd (store_get store sid s))"
  proof (cases "system_wf s")
    case True
    then have "store = InMemorySessionStore" using store by (simp add: system_wf_def)
    then show ?thesis
      using wf_store_upd [OF True system_wf_memory [OF True]]
      by (simp add: calm_def store_get_def im_store_calls im_mem_self)
  qed (simp add: calm_def)
next
  fix s :: "session_map system" and w
  show "calm s (s\<lparr>kernel := w\<rparr>)" by (rule same_sessions_calm) (rule same_sessions_ops)
qed (auto simp: calm_def)

lemma calm_receive:
  assumes "conns s f = Some c"
  shows "calm s (client_receive f c s)"
  unfolding calm_def
proof
  assume wf: "system_wf s"
  obtain r w where rd: "read_request s f c (kernel s) = (r, w)" by fastforce
  have store: "session_store s = Some InMemorySessionStore" using wf by (simp add: system_wf_def)
  have wf1: "system_wf (s\<lparr>kernel := w\<rparr>)" using same_sessions_wf [OF same_sessions_ops(1) wf] .
  show "system_wf (client_receive f c s) \<and> im_mem (store_state (client_receive f c s)) = im_mem (store_state s)"
  proof (cases r)
    case (Ret fr)
    let ?sid = "session_id (cf_header fr)"
    let ?x = "im_mem (store_state s) ?sid"
    let ?s1 = "s\<lparr>kernel := w, store_state := (store_state s)(?sid \<mapsto> ?x)\<rparr>"
    have "system_wf ?s1" using wf_store_upd [OF wf1 system_wf_memory [OF wf]] by simp
    moreover have "client_receive f c s = (switch_session f c ?sid ?s1)
        \<lparr>conns := (conns s)(f \<mapsto> c\<lparr>current_sid := ?sid, c_flight := Some (fr, ?x)\<rparr>)\<rparr>"
      using client_receive_ok [where store = InMemorySessionStore] rd Ret store by (simp add: im_store_calls)
    ultimately show ?thesis
      using system_wf_memory [OF wf, of ?sid]
      by (auto simp: system_wf_def pipeline_of_def im_mem_self switch_session_def register_session_def unregister_session_def)
  next
    case (Throw e)
    then have "client_receive f c s = client_catch e f c (s\<lparr>kernel := w\<rparr>)" using rd by (simp add: client_receive_def)
    then show ?thesis
      using same_sessions_calm [OF same_sessions_ops(7)] wf1 by (simp add: calm_def)
  next
    case Pending
    then show ?thesis using rd wf by (simp add: client_receive_def)
  qed
qed

text \<open>At most the session \<open>sid\<close> reads differently afterwards.\<close>

definition touches_only :: "u64 \<Rightarrow> session_map system \<Rightarrow> session_map system \<Rightarrow> bool" where
  "touches_only sid s t \<longleftrightarrow> (\<forall>i. i \<noteq> sid \<longrightarrow> im_mem (store_state t) i = im_mem (store_state s) i)"

lemma calm_touches: "calm s t \<Longrightarrow> system_wf s \<Longrightarrow> system_wf t \<and> touches_only sid s t"
  by (simp add: calm_def touches_only_def)

lemma processed_wf:
  assumes "user_code_wf pl" "session_wf sid x" "process_command pl fr conn (x, w) = (r, (x', w'))"
  shows "session_wf sid x'"
  using keepsD [OF keeps_process [OF assms(1), where sid = sid and frame = fr and conn = conn], of "(x, w)"] assms(2,3)
  by simp

lemma wf_finish:
  assumes wf: "system_wf s" and c: "conns s f = Some c" "c_flight c = Some (fr, x)"
  shows "system_wf (client_finish f c fr x s) \<and> touches_only (session_id (cf_header fr)) s (client_finish f c fr x s)"
proof -
  let ?sid = "session_id (cf_header fr)"
  obtain r x' w where pc: "process_command (pipeline_of s) fr (client_connection f c) (x, kernel s) = (r, (x', w))"
    by (metis prod.collapse)
  have u: "user_code_wf (pipeline_of s)" "session_store s = Some InMemorySessionStore" "session_wf ?sid x"
    using wf c unfolding system_wf_def by auto
  have x': "session_wf ?sid x'" using processed_wf [OF u(1,3) pc] .
  show ?thesis
  proof (cases r)
    case (Ret v)
    let ?s1 = "s\<lparr>kernel := w, store_state := (store_state s)(?sid \<mapsto> x')\<rparr>"
    have wf1: "system_wf ?s1"
      using wf_store_upd [OF same_sessions_wf [OF same_sessions_ops(1) wf] x', of w] by simp
    have t1: "touches_only ?sid s ?s1" by (simp add: touches_only_def)
    have "sess_id x' = ?sid" using x' by (simp add: session_wf_def)
    then have fin: "client_finish f c fr x s =
        (if running s then ?s1\<lparr>conns := (conns s)(f \<mapsto> c\<lparr>c_flight := None\<rparr>)\<rparr> else client_exit f (c\<lparr>c_flight := None\<rparr>) ?s1)"
      using pc Ret u(2) by (simp add: client_finish_def im_store_calls Let_def)
    have "same_sessions ?s1 (client_finish f c fr x s)"
      using same_sessions_ops(5) [of ?s1] unfolding fin
      by (auto simp: same_sessions_def pipeline_of_def)
    then show ?thesis
      using same_sessions_wf [OF _ wf1] t1 by (simp add: same_sessions_def touches_only_def)
  next
    case (Throw e)
    then have "client_finish f c fr x s = client_catch e f c (s\<lparr>kernel := w\<rparr>)" using pc by (simp add: client_finish_def)
    then show ?thesis
      using calm_touches [OF calm.R_trans [OF calm.R_kernel same_sessions_calm [OF same_sessions_ops(7)]] wf] by simp
  next
    case Pending
    then show ?thesis using pc wf by (simp add: client_finish_def touches_only_def)
  qed
qed

lemma wf_datagram:
  assumes wf: "system_wf s" and turn: "udp_turn f buffer s = (goes_on, buffer', t)"
  shows "system_wf t \<and> (\<exists>sid. touches_only sid s t)"
proof -
  obtain r w where rm: "async_recvmsg f UDP_BUFFER (kernel s) = (r, w)" by fastforce
  have store: "session_store s = Some InMemorySessionStore" using wf by (simp add: system_wf_def)
  have kernel: "system_wf (s\<lparr>kernel := w'\<rparr>) \<and> touches_only i s (s\<lparr>kernel := w'\<rparr>)" for w' i
    using calm_touches [OF calm.R_kernel wf] .
  show ?thesis
  proof (cases r)
    case (Ret m)
    obtain n data addr where m: "m = (n, data, addr)" by (metis prod_cases3)
    let ?buf = "overwrite buffer 0 data" and ?s1 = "s\<lparr>kernel := w\<rparr>"
    define fr where "fr = udp_request ?buf n"
    let ?sid = "session_id (cf_header fr)"
    let ?x = "im_mem (store_state s) ?sid"
    obtain r2 x' w' where pc: "process_command (pipeline_of ?s1) fr (UringUdpConnection f addr) (?x, w) = (r2, (x', w'))"
      by (metis prod.collapse)
    have "user_code_wf (pipeline_of ?s1)" using wf by (simp add: system_wf_def pipeline_of_def)
    from processed_wf [OF this system_wf_memory [OF wf] pc]
    have x': "session_wf ?sid x'" .
    then have id: "sess_id x' = ?sid" by (simp add: session_wf_def)
    have st: "system_wf (s\<lparr>kernel := w', store_state := (store_state s)(?sid \<mapsto> y)\<rparr>) \<and>
        touches_only ?sid s (s\<lparr>kernel := w', store_state := (store_state s)(?sid \<mapsto> y)\<rparr>)"
      if "session_wf ?sid y" for y
      using wf_store_upd [OF conjunct1 [OF kernel] that, of w'] by (simp add: touches_only_def)
    have "t = s \<or> t = ?s1 \<or> t = s\<lparr>kernel := w', store_state := (store_state s)(?sid \<mapsto> ?x)\<rparr> \<or>
        t = s\<lparr>kernel := w', store_state := (store_state s)(?sid \<mapsto> x')\<rparr>"
      using turn rm Ret m store pc id
      by (simp add: udp_turn_def Let_def im_store_calls flip: fr_def split: if_splits outcome.splits)
    then show ?thesis
      using wf kernel st [OF x'] st [OF system_wf_memory [OF wf]] by (auto simp: touches_only_def)
  next
    case (Throw e)
    with turn rm kernel show ?thesis by (auto simp: udp_turn_def)
  next
    case Pending
    with turn rm wf show ?thesis by (auto simp: udp_turn_def touches_only_def)
  qed
qed

text \<open>The steps that change what a session reads as are the ends of requests and the datagrams.\<close>

lemma server_step_cases:
  assumes "server_step s t"
  shows "calm s t \<or>
    (\<exists>f c fr x. conns s f = Some c \<and> c_flight c = Some (fr, x) \<and> t = client_finish f c fr x s) \<or>
    (\<exists>f buffer goes_on buffer'. udp_turn f buffer s = (goes_on, buffer', t))"
  using assms
  by (induction rule: server_step.induct)
    (blast intro: calm_receive calm.R_discovery calm.R_turns calm.R_kernel same_sessions_calm same_sessions_ops)+

lemma server_step_wf: "server_step s t \<Longrightarrow> system_wf s \<Longrightarrow> system_wf t"
  using server_step_cases [of s t] wf_finish [of s] wf_datagram [of s] by (auto simp: calm_def)

lemma server_reachable_wf: "server_reachable s0 s \<Longrightarrow> system_wf s0 \<Longrightarrow> system_wf s"
  by (induction rule: server_reachable.induct) (auto dest: server_step_wf)

section \<open>Properties\<close>

text \<open>
  C12. Sessions stay well-formed. Whatever the coroutines of the server do, in any interleaving:
  every stored session is filed under its own id and has a key of 32 bytes, and so has the
  copy in the hands of every client, whose current session id is the id of that copy and of the
  request. User code is trusted only to use the setters of the session.
\<close>

theorem server_sessions_wf:
  assumes "server_reachable s0 s" "initial s0" "store_state s0 = Map.empty"
    and "session_store s0 = Some InMemorySessionStore" "user_code_wf (pipeline_of s0)"
  shows "(\<forall>sid x. store_state s sid = Some x \<longrightarrow> sess_id x = sid \<and> length (aes_key x) = 32) \<and>
    (\<forall>f c fr x. conns s f = Some c \<longrightarrow> c_flight c = Some (fr, x) \<longrightarrow>
       current_sid c = session_id (cf_header fr) \<and> sess_id x = current_sid c \<and> length (aes_key x) = 32)"
proof -
  have "system_wf s0" using assms(2-5) by (simp add: system_wf_def initial_def)
  from server_reachable_wf [OF assms(1) this] show ?thesis unfolding system_wf_def session_wf_def by auto
qed

text \<open>
  C20. One step, one session. A single step of any coroutine either leaves every session reading as
  before (accepting, reading a request, leaving, pushing, broadcasting, announcing, answering a
  lookup), or it is the end of a client's request and changes the session that the request names
  only, or it is a datagram's turn and changes one session at most.
\<close>

theorem steps_isolate_sessions:
  assumes "server_reachable s0 s" "system_wf s0" "server_step s t"
  shows "im_mem (store_state t) = im_mem (store_state s) \<or>
    (\<exists>f c fr x. conns s f = Some c \<and> c_flight c = Some (fr, x) \<and> t = client_finish f c fr x s \<and>
       touches_only (session_id (cf_header fr)) s t) \<or>
    (\<exists>f buffer goes_on buffer' sid. udp_turn f buffer s = (goes_on, buffer', t) \<and> touches_only sid s t)"
proof -
  have wf: "system_wf s" using server_reachable_wf [OF assms(1,2)] .
  then show ?thesis
    using server_step_cases [OF assms(3)] wf_finish [OF wf] wf_datagram [OF wf] unfolding calm_def by metis
qed

end
