(* ===== verification/Client_Turns.thy ===== *)
theory Client_Turns
  imports Client_Engine
begin

text \<open>
  The two client coroutines of \<^verbatim>\<open>ClientHandlers.cpp\<close> as they are written: the body of the
  \<^verbatim>\<open>try\<close> block as one sequence of awaits over the server and the local \<^verbatim>\<open>current_sid\<close>, the
  \<^verbatim>\<open>catch\<close>, and what follows the loop, once for each function. A round that is not suspended
  half-way is the same as the stages of the client engine.
\<close>

section \<open>The \<^verbatim>\<open>try\<close> block\<close>

type_synonym 'st client_locals = "'st system \<times> u64"

definition block_read :: "(world, ClientFrame) co \<Rightarrow> ('st client_locals, ClientFrame) co" where
  "block_read rd = (\<lambda>(s, cur). let (r, w) = rd (kernel s) in (r, (s\<lparr>kernel := w\<rparr>, cur)))"

definition block_session :: "u64 \<Rightarrow> ('st client_locals, Session) co" where
  "block_session sid = (\<lambda>(s, cur).
     case session_store s of
       None \<Rightarrow> (Throw (RuntimeError ''SessionStore not initialized''), (s, cur))
     | Some store \<Rightarrow> (let (r, st) = get_or_create store sid (store_state s) in (r, (s\<lparr>store_state := st\<rparr>, cur))))"

definition block_register :: "fd \<Rightarrow> u64 \<Rightarrow> ('st client_locals, unit) co" where
  "block_register f sid = (\<lambda>(s, cur).
     (Ret (), if sid \<noteq> cur
              then (register_session sid f (if cur \<noteq> 0 then unregister_session cur s else s), sid)
              else (s, cur)))"

definition block_process :: "IConnection \<Rightarrow> ClientFrame \<Rightarrow> Session \<Rightarrow> ('st client_locals, Session) co" where
  "block_process conn frame session = (\<lambda>(s, cur).
     let (r, (session', w)) = process_command (pipeline_of s) frame conn (session, kernel s) in
     ((case r of Ret _ \<Rightarrow> Ret session' | Throw e \<Rightarrow> Throw e | Pending \<Rightarrow> Pending), (s\<lparr>kernel := w\<rparr>, cur)))"

definition block_save :: "Session \<Rightarrow> ('st client_locals, unit) co" where
  "block_save session = (\<lambda>(s, cur).
     case session_store s of
       None \<Rightarrow> (Pending, (s, cur))
     | Some store \<Rightarrow> (let (r, st) = save store session (store_state s) in (r, (s\<lparr>store_state := st\<rparr>, cur))))"

definition client_block ::
    "(world, ClientFrame) co \<Rightarrow> IConnection \<Rightarrow> fd \<Rightarrow> ('st client_locals, unit) co" where
  "client_block rd conn f =
     co_bind (block_read rd) (\<lambda>frame.
     co_bind (block_session (session_id (cf_header frame))) (\<lambda>session.
     co_seq (block_register f (session_id (cf_header frame)))
       (co_bind (block_process conn frame session) block_save)))"

section \<open>The two functions\<close>

text \<open>A round of \<^verbatim>\<open>while (running)\<close>: \<open>leave\<close> is what follows the loop.\<close>

definition client_round ::
    "(fd \<Rightarrow> u64 \<Rightarrow> 'st system \<Rightarrow> 'st system) \<Rightarrow> (world, ClientFrame) co \<Rightarrow> IConnection \<Rightarrow> fd \<Rightarrow> client \<Rightarrow> 'st system \<Rightarrow> 'st system" where
  "client_round leave_loop rd conn f c s =
     (case client_block rd conn f (s, current_sid c) of
        (Ret _, (t, cur)) \<Rightarrow>
          if running t then t\<lparr>conns := (conns t)(f \<mapsto> c\<lparr>current_sid := cur\<rparr>)\<rparr> else leave_loop f cur t
      | (Throw e, (t, cur)) \<Rightarrow> if is_std_exception e then leave_loop f cur t else client_die f t
      | (Pending, _) \<Rightarrow> s)"

text \<open>What follows the loop in \<^verbatim>\<open>text_handle_client\<close>: there is no disconnect callback.\<close>

definition text_client_end :: "fd \<Rightarrow> u64 \<Rightarrow> 'st system \<Rightarrow> 'st system" where
  "text_client_end f cur s =
     (let s1 = (if cur \<noteq> NO_SID then unregister_session cur s else s) in client_close f s1)"

definition client_end :: "fd \<Rightarrow> u64 \<Rightarrow> 'st system \<Rightarrow> 'st system" where
  "client_end f cur s =
     client_exit f \<lparr>c_mode = BINARY, current_sid = cur, c_flight = None, c_leaving = False\<rparr> s"

definition handle_client :: "fd \<Rightarrow> client \<Rightarrow> 'st system \<Rightarrow> 'st system" where
  "handle_client f c s = client_round client_end (read_frame f) (UringTcpConnection f) f c s"

definition text_handle_client :: "fd \<Rightarrow> client \<Rightarrow> 'st system \<Rightarrow> 'st system" where
  "text_handle_client f c s =
     client_round text_client_end (read_text_frame (text_command_names s) f) (TextTcpConnection f) f c s"

section \<open>The stages\<close>

text \<open>A round by the stages of the engine.\<close>

definition staged_round :: "fd \<Rightarrow> client \<Rightarrow> 'st system \<Rightarrow> 'st system" where
  "staged_round f c s =
     (let s1 = client_receive f c s in
      case conns s1 f of
        None \<Rightarrow> s1
      | Some c1 \<Rightarrow>
          (case c_flight c1 of None \<Rightarrow> s1 | Some (frame, session) \<Rightarrow> client_finish f c1 frame session s1))"

definition mode_end :: "ProtocolMode \<Rightarrow> fd \<Rightarrow> u64 \<Rightarrow> 'st system \<Rightarrow> 'st system" where
  "mode_end mode f cur s =
     client_exit f \<lparr>c_mode = mode, current_sid = cur, c_flight = None, c_leaving = False\<rparr> s"

lemma mode_ends: "mode_end BINARY = client_end" "mode_end TEXT = text_client_end"
  by (simp_all add: fun_eq_iff mode_end_def client_end_def text_client_end_def client_exit_def Let_def)

lemma client_exit_mode_end: "client_exit f c s = mode_end (c_mode c) f (current_sid c) s"
  by (cases c) (auto simp: mode_end_def client_exit_def Let_def split: sum.split)

text \<open>The end of a coroutine does not depend on what it held before.\<close>

lemma die_forgets: "client_die f (s\<lparr>conns := (conns s)(f \<mapsto> x)\<rparr>) = client_die f s"
  by (simp add: client_die_def)

lemma close_forgets: "client_close f (s\<lparr>conns := (conns s)(f \<mapsto> x)\<rparr>) = client_close f s"
  by (simp add: client_close_def Let_def reenable_discovery_def)

lemma close_conns: "conns (client_close f s) f = None"
  by (simp add: client_close_def Let_def reenable_discovery_def)

lemma unregister_conns:
  "unregister_session cur (s\<lparr>conns := (conns s)(f \<mapsto> x)\<rparr>) =
     (unregister_session cur s)\<lparr>conns := (conns (unregister_session cur s))(f \<mapsto> x)\<rparr>"
  by (simp add: unregister_session_def)

lemma end_forgets: "mode_end mode f cur (s\<lparr>conns := (conns s)(f \<mapsto> x)\<rparr>) = mode_end mode f cur s"
proof (cases "cur = NO_SID")
  case True
  then show ?thesis by (simp add: mode_end_def client_exit_def Let_def close_forgets)
next
  case False
  define u where "u = unregister_session cur s"
  have "unregister_session cur (s\<lparr>conns := (conns s)(f \<mapsto> x)\<rparr>) = u\<lparr>conns := (conns u)(f \<mapsto> x)\<rparr>"
    by (simp add: u_def unregister_conns)
  with False show ?thesis
    by (auto simp: mode_end_def client_exit_def Let_def close_forgets die_forgets thread_pool_ref_def
        simp flip: u_def split: sum.split option.split)
qed

lemma end_no_flight:
  "(case conns (mode_end mode f cur s) f of None \<Rightarrow> t | Some c1 \<Rightarrow> (case c_flight c1 of None \<Rightarrow> t | Some p \<Rightarrow> u c1 p)) = t"
  "(case conns (client_die f s) f of None \<Rightarrow> t | Some c1 \<Rightarrow> (case c_flight c1 of None \<Rightarrow> t | Some p \<Rightarrow> u c1 p)) = t"
proof -
  show "(case conns (client_die f s) f of None \<Rightarrow> t | Some c1 \<Rightarrow> (case c_flight c1 of None \<Rightarrow> t | Some p \<Rightarrow> u c1 p)) = t"
    by (simp add: client_die_def)
  have "conns (mode_end mode f cur s) f = None \<or> (\<exists>c1. conns (mode_end mode f cur s) f = Some c1 \<and> c_flight c1 = None)"
    by (simp add: mode_end_def client_exit_def Let_def close_conns client_die_def split: sum.split)
  then show "(case conns (mode_end mode f cur s) f of None \<Rightarrow> t | Some c1 \<Rightarrow> (case c_flight c1 of None \<Rightarrow> t | Some p \<Rightarrow> u c1 p)) = t"
    by auto
qed

lemma catch_ends:
  "client_catch e f c s = (if is_std_exception e then mode_end (c_mode c) f (current_sid c) s else client_die f s)"
  by (simp add: client_catch_def client_exit_mode_end)

lemma switch_session_block:
  "block_register f sid (s, current_sid c) = (Ret (), (switch_session f c sid s, sid))"
  by (simp add: block_register_def switch_session_def)

text \<open>The second half of a round: processing and saving.\<close>

lemma finish_is_round:
  fixes s2 :: "'st system"
  assumes staged: "t = client_finish f c1 fr x (s2\<lparr>conns := (conns s2)(f \<mapsto> c1)\<rparr>)"
    and block: "client_block rd conn f (s, current_sid c) = co_bind (block_process conn fr x) block_save (s2, sid)"
    and through: "fst (client_block rd conn f (s, current_sid c)) \<noteq> Pending"
    and pc: "process_command (pipeline_of s2) fr conn (x, kernel s2) = (r3, (x', w'))"
    and store: "session_store s2 = Some store"
    and c1: "client_connection f c1 = conn" "c1\<lparr>c_flight := None\<rparr> = c\<lparr>current_sid := sid\<rparr>"
      "c_mode c1 = c_mode c" "current_sid c1 = sid" "c_flight c1 = Some (fr, x)"
  shows "t = client_round (mode_end (c_mode c)) rd conn f c s"
proof -
  have pl: "pipeline_of (s2\<lparr>conns := v\<rparr>) = pipeline_of s2" for v by (simp add: pipeline_of_def)
  have order: "s2\<lparr>conns := v, kernel := w'\<rparr> = s2\<lparr>kernel := w', conns := v\<rparr>"
      "s2\<lparr>kernel := w', conns := v, store_state := st\<rparr> = s2\<lparr>kernel := w', store_state := st, conns := v\<rparr>" for v st
    by simp_all
  have forget: "mode_end m f cur (s2\<lparr>conns := (conns s2)(f \<mapsto> c1), kernel := w', store_state := st\<rparr>) =
      mode_end m f cur (s2\<lparr>kernel := w', store_state := st\<rparr>)"
    "mode_end m f cur (s2\<lparr>conns := (conns s2)(f \<mapsto> c1), kernel := w'\<rparr>) = mode_end m f cur (s2\<lparr>kernel := w'\<rparr>)"
    "client_die f (s2\<lparr>conns := (conns s2)(f \<mapsto> c1), kernel := w', store_state := st\<rparr>) =
      client_die f (s2\<lparr>kernel := w', store_state := st\<rparr>)"
    "client_die f (s2\<lparr>conns := (conns s2)(f \<mapsto> c1), kernel := w'\<rparr>) = client_die f (s2\<lparr>kernel := w'\<rparr>)" for m cur st
    using end_forgets [of m f cur "s2\<lparr>kernel := w', store_state := st\<rparr>" c1] end_forgets [of m f cur "s2\<lparr>kernel := w'\<rparr>" c1]
      die_forgets [of f "s2\<lparr>kernel := w', store_state := st\<rparr>" c1] die_forgets [of f "s2\<lparr>kernel := w'\<rparr>" c1]
    unfolding order by simp_all
  show ?thesis
  proof (cases r3)
    case (Ret u)
    obtain r4 st where sv: "save store x' (store_state s2) = (r4, st)" by fastforce
    have "client_block rd conn f (s, current_sid c) = (r4, (s2\<lparr>kernel := w', store_state := st\<rparr>, sid))"
      using block pc Ret store sv by (simp add: co_bind_def block_process_def block_save_def)
    then show ?thesis
      using staged through pc Ret store sv c1 forget
      by (cases r4) (simp_all add: client_round_def client_finish_def pl catch_ends client_exit_mode_end Let_def)
  next
    case (Throw e)
    then have "client_block rd conn f (s, current_sid c) = (Throw e, (s2\<lparr>kernel := w'\<rparr>, sid))"
      using block pc by (simp add: co_bind_def block_process_def)
    then show ?thesis
      using staged pc Throw c1 forget by (simp add: client_round_def client_finish_def pl catch_ends)
  next
    case Pending
    with block through pc show ?thesis by (simp add: co_bind_def block_process_def)
  qed
qed

lemma staged_is_round:
  assumes c: "conns s f = Some c" "c_flight c = None"
    and through: "fst (client_block (read_request s f c) (client_connection f c) f (s, current_sid c)) \<noteq> Pending"
  shows "staged_round f c s =
    client_round (mode_end (c_mode c)) (read_request s f c) (client_connection f c) f c s"
proof -
  obtain r w where rd: "read_request s f c (kernel s) = (r, w)" by fastforce
  show ?thesis
  proof (cases r)
    case (Throw e)
    then have "staged_round f c s = client_catch e f c (s\<lparr>kernel := w\<rparr>)"
      using rd by (simp add: staged_round_def client_receive_def catch_ends end_no_flight)
    with Throw rd show ?thesis
      by (simp add: client_round_def client_block_def block_read_def co_bind_def catch_ends)
  next
    case Pending
    with rd through show ?thesis by (simp add: client_block_def block_read_def co_bind_def)
  next
    case (Ret fr)
    let ?sid = "session_id (cf_header fr)"
    show ?thesis
    proof (cases "session_store s")
      case None
      with Ret rd show ?thesis
        by (simp add: staged_round_def client_receive_def catch_ends end_no_flight client_round_def client_block_def
            block_read_def block_session_def co_bind_def)
    next
      case (Some store)
      obtain r2 st where g: "get_or_create store ?sid (store_state s) = (r2, st)" by fastforce
      let ?s1 = "s\<lparr>kernel := w, store_state := st\<rparr>"
      have blk: "client_block (read_request s f c) (client_connection f c) f (s, current_sid c) =
          (case r2 of
             Ret x \<Rightarrow> co_bind (block_process (client_connection f c) fr x) block_save (switch_session f c ?sid ?s1, ?sid)
           | Throw e \<Rightarrow> (Throw e, (?s1, current_sid c))
           | Pending \<Rightarrow> (Pending, (?s1, current_sid c)))"
        using rd Ret Some g
        by (simp add: client_block_def block_read_def block_session_def co_bind_def co_seq_def switch_session_block
            split: outcome.split)
      show ?thesis
      proof (cases r2)
        case (Throw e)
        with Ret rd Some g blk show ?thesis
          by (simp add: staged_round_def client_receive_def catch_ends end_no_flight client_round_def)
      next
        case Pending
        with blk through show ?thesis by simp
      next
        case r2: (Ret x)
        define s2 where "s2 = switch_session f c ?sid ?s1"
        define c1 where "c1 = c\<lparr>current_sid := ?sid, c_flight := Some (fr, x)\<rparr>"
        have s2: "session_store s2 = Some store"
          using Some by (simp add: s2_def switch_session_def register_session_def unregister_session_def)
        have c1: "client_connection f c1 = client_connection f c" "c1\<lparr>c_flight := None\<rparr> = c\<lparr>current_sid := ?sid\<rparr>"
            "c_mode c1 = c_mode c" "current_sid c1 = ?sid" "c_flight c1 = Some (fr, x)"
          using c(2) by (cases c; simp add: c1_def client_connection_def)+
        obtain r3 x' w' where pc: "process_command (pipeline_of s2) fr (client_connection f c) (x, kernel s2) = (r3, (x', w'))"
          by (metis prod.collapse)
        have "client_receive f c s = s2\<lparr>conns := (conns s2)(f \<mapsto> c1)\<rparr>"
          using rd Ret Some g r2 by (simp add: client_receive_def Let_def s2_def c1_def)
        then have staged: "staged_round f c s = client_finish f c1 fr x (s2\<lparr>conns := (conns s2)(f \<mapsto> c1)\<rparr>)"
          by (simp add: staged_round_def c1)
        have block: "client_block (read_request s f c) (client_connection f c) f (s, current_sid c) =
            co_bind (block_process (client_connection f c) fr x) block_save (s2, ?sid)"
          using blk r2 by (simp add: s2_def)
        show ?thesis
          using staged block through pc s2 by (rule finish_is_round [OF _ _ _ _ _ c1])
      qed
    qed
  qed
qed

section \<open>Properties\<close>

text \<open>
  C15. The stages are the functions. A round of \<^verbatim>\<open>handle_client\<close> or of \<^verbatim>\<open>text_handle_client\<close> that
  is not suspended half-way, whatever it reads, whether its command returns or throws and
  whether the server is being stopped, has exactly the effect of the engine's stages: receive,
  finish, and the end that belongs to the client's protocol.
\<close>

theorem client_functions_are_stages:
  assumes "conns s f = Some c" "c_flight c = None"
    and "fst (client_block (read_request s f c) (client_connection f c) f (s, current_sid c)) \<noteq> Pending"
  shows "staged_round f c s = (case c_mode c of BINARY \<Rightarrow> handle_client f c s | TEXT \<Rightarrow> text_handle_client f c s)"
  using staged_is_round [OF assms]
  by (simp add: handle_client_def text_handle_client_def read_request_def client_connection_def mode_ends
      split: ProtocolMode.split)

end
