(* ===== verification/Service_Runs.thy ===== *)
theory Service_Runs
  imports Secure_Conversation Whole_Server Client_Turns App_Main
begin

text \<open>
  A concrete service with a login and a protected command, and a binary and a text client that
  use it: the protected command is refused before the login and answered after it. The same
  service also runs in the interleavings of the whole server.
\<close>

section \<open>The service\<close>

definition sign_in :: action_fn where
  "sign_in s p = (\<lparr>rf_flags = 0, rf_payload = [1]\<rparr>, s\<lparr>authenticated := True\<rparr>)"

definition echo :: action_fn where
  "echo s p = (\<lparr>rf_flags = 0, rf_payload = p\<rparr>, s)"

definition desk :: service where
  "desk = [2 \<mapsto> (False, ANY, sign_in), 3 \<mapsto> (True, TCP, echo)]"

lemma desk_keeps_ids: "keeps_ids desk"
  by (auto simp: keeps_ids_def desk_def sign_in_def echo_def split: if_splits)

definition desk_rqs :: "(string \<times> u16 \<times> u64 \<times> string) list" where
  "desk_rqs = [(''3'', 3, 5, ''a''), (''LOGIN'', 2, 5, []), (''3'', 3, 5, ''hi'')]"

definition desk_replies :: "ClientFrame list" where
  "desk_replies = [\<lparr>cf_header = mk_header 2 0 1 5, cf_payload = [1]\<rparr>,
     \<lparr>cf_header = mk_header 3 0 2 5, cf_payload = bytes_of_string ''hi''\<rparr>]"

definition desk_memory :: "u64 \<Rightarrow> Session" where
  "desk_memory = (im_mem Map.empty)(5 := (new_session 5)\<lparr>authenticated := True\<rparr>)"

lemma desk_run: "spec_run desk (im_mem Map.empty) (map text_val desk_rqs) = (desk_replies, desk_memory)"
  by (simp add: desk_rqs_def desk_replies_def desk_memory_def spec_step_def desk_def sign_in_def echo_def
      reply_frame_def mk_header_def im_mem_def new_session_def)

section \<open>The clients\<close>

definition desk_client :: "ProtocolMode \<Rightarrow> client" where
  "desk_client mode = \<lparr>c_mode = mode, current_sid = NO_SID, c_flight = None, c_leaving = False\<rparr>"

definition desk_world :: "bytes list \<Rightarrow> int list \<Rightarrow> world" where
  "desk_world segments room = \<lparr>rx = (\<lambda>_. map RxData segments), dgrams = (\<lambda>_. []), tx_res = room, tx_log = [],
     getrandom_src = [], privkey_src = []\<rparr>"

definition desk_server :: "ProtocolMode \<Rightarrow> world \<Rightarrow> session_map system" where
  "desk_server mode w = (app_running null_botan)\<lparr>router := service_router desk,
     text_command_names := [''LOGIN'' \<mapsto> 2], store_state := Map.empty, kernel := w,
     conns := [7 \<mapsto> desk_client mode], open_fds := {7}, active_connections := 1\<rparr>"

lemma desk_serving: "serving desk 7 (desk_client mode) (desk_server mode w)"
  by (simp add: serving_def desk_server_def desk_client_def app_running_def app_configured_def fresh_server_def
      init_defaults_def Let_def enable_unix_socket_def enable_udp_def enable_tcp_def add_command_def)

lemma desk_server_fields [simp]:
  "kernel (desk_server mode w) = w" "store_state (desk_server mode w) = Map.empty"
  "text_command_names (desk_server mode w) = [''LOGIN'' \<mapsto> 2]"
  by (simp_all add: desk_server_def)

lemma desk_world_fields [simp]:
  "rx (desk_world segs room) f = map RxData segs" "tx_res (desk_world segs room) = room"
  "tx_log (desk_world segs room) = []"
  by (simp_all add: desk_world_def)

lemma desk_digits: "show_nat 5 = ''5''" "show_nat 3 = ''3''" "show_nat 2 = ''2''" "show_nat 0 = ''0''"
  by code_simp+

lemma desk_rqs_ok: "\<forall>rq \<in> set desk_rqs. text_ok [''LOGIN'' \<mapsto> 2] rq"
proof -
  have "from_chars_u16 ''LOGIN'' = None" "from_chars_u16 ''3'' = Some 3"
    by (simp_all add: from_chars_u16_def digits_of_def is_digit_def dec_val_def digit_val_def)
  then show ?thesis
    by (simp add: desk_rqs_def isspace_def newline_def reserved_def CMD_KEY_EXCHANGE_def CMD_ENCRYPTED_MESSAGE_def)
qed

section \<open>The runs\<close>

text \<open>The requests as frames, in one segment; the kernel takes the two replies.\<close>

definition desk_binary :: "session_map system" where
  "desk_binary = desk_server BINARY (desk_world [concat (map (frame_bytes \<circ> text_val) desk_rqs)] [17, 18])"

definition desk_text :: "session_map system" where
  "desk_text = desk_server TEXT (desk_world [concat (map text_enc desk_rqs)] [8, 9])"

definition desk_peer :: world where
  "desk_peer = desk_world [concat (map frame_bytes desk_replies)] []"

lemma desk_streams:
  "avail (rx (kernel desk_binary) 7) = concat (map (frame_bytes \<circ> text_val) desk_rqs) @ []"
  "avail (rx (kernel desk_text) 7) = concat (map text_enc desk_rqs) @ []"
  "avail (rx desk_peer 9) = concat (map frame_bytes desk_replies) @ []"
  by (simp_all add: desk_binary_def desk_text_def desk_peer_def)

lemma desk_room:
  "tx_res (kernel desk_binary) = map (\<lambda>r. int (length (frame_bytes r))) desk_replies @ []"
  "tx_res (kernel desk_text) = map (\<lambda>r. int (length (text_buffer (cf_header r) (cf_payload r)))) desk_replies @ []"
  by (simp_all add: desk_binary_def desk_text_def desk_replies_def frame_bytes_def text_buffer_def mk_header_def
      desk_digits sizeof_FrameHeader_def)

lemma desk_memories:
  "im_mem (store_state desk_binary) = im_mem Map.empty" "im_mem (store_state desk_text) = im_mem Map.empty"
  by (simp_all add: desk_binary_def desk_text_def)

theorem connection_implements_service_witness:
  "authenticated (im_mem (store_state (serve 7 3 desk_binary)) 5) \<and>
   tx_log (kernel (serve 7 3 desk_binary)) = map (\<lambda>r. Sent 7 (frame_bytes r)) desk_replies \<and>
   (\<exists>q. read_n (read_frame 9) 2 desk_peer = (Ret desk_replies, set_rx 9 q desk_peer))"
proof -
  let ?frs = "map text_val desk_rqs"
  have sv: "serving desk 7 (desk_client BINARY) desk_binary" unfolding desk_binary_def by (rule desk_serving)
  have ok: "\<forall>fr \<in> set ?frs. wf_frame fr \<and> \<not> reserved (command_id (cf_header fr))"
    using desk_rqs_ok wf_text_val text_not_reserved by fastforce
  have av: "avail (rx (kernel desk_binary) 7) = concat (map frame_bytes ?frs) @ []"
    using desk_streams(1) by simp
  have small: "\<forall>r \<in> set desk_replies. length (cf_payload r) < 2 ^ 32" by (simp add: desk_replies_def)
  have len: "length ?frs = 3" "length desk_replies = 2" by (simp_all add: desk_rqs_def desk_replies_def)
  have "c_mode (desk_client BINARY) = BINARY" by (simp add: desk_client_def)
  from connection_implements_service [OF sv this desk_keeps_ids ok av _ desk_room(1) small desk_streams(3),
      of desk_memory] desk_run
  have "im_mem (store_state (serve 7 3 desk_binary)) = desk_memory"
      "tx_log (kernel (serve 7 3 desk_binary)) = tx_log (kernel desk_binary) @ map (\<lambda>r. Sent 7 (frame_bytes r)) desk_replies"
      "\<exists>q. read_n (read_frame 9) 2 desk_peer = (Ret desk_replies, set_rx 9 q desk_peer)"
    unfolding desk_memories len Let_def by blast+
  moreover have "tx_log (kernel desk_binary) = []" by (simp add: desk_binary_def)
  ultimately show ?thesis by (simp add: desk_memory_def)
qed

text \<open>
  A conversation: the protected command is refused in the clear; the client agrees a key for
  session 5, logs in and calls the command sealed, and then calls it in the clear.
\<close>

definition desk_messages :: "message list" where
  "desk_messages =
     [Clear (opened_frame 3 (bytes_of_string ''a'') 5), Agree 5 (replicate 32 1),
      Secret 5 (replicate 12 2, 2, []), Secret 5 (replicate 12 4, 3, bytes_of_string ''hi''),
      Clear (opened_frame 3 (bytes_of_string ''ok'') 5)]"

definition desk_talk :: talk where
  "desk_talk = \<lparr>tk_keys = Map.empty, tk_memory = im_mem Map.empty, tk_privs = [replicate 32 5],
     tk_nonces = [replicate 12 8, replicate 12 9]\<rparr>"

definition desk_frames :: "ClientFrame list" where
  "desk_frames = fst (converse null_botan desk desk_talk desk_messages)"

definition desk_out :: "(bytes option \<times> ClientFrame \<times> ClientFrame) list" where
  "desk_out = fst (snd (converse null_botan desk desk_talk desk_messages))"

definition desk_talk_end :: talk where
  "desk_talk_end = snd (snd (converse null_botan desk desk_talk desk_messages))"

definition desk_secure :: "session_map system" where
  "desk_secure = desk_server BINARY
     ((desk_world [concat (map frame_bytes desk_frames)] (map (\<lambda>(key, fr, r). wire_len fr) desk_out))
        \<lparr>getrandom_src := map RandomBytes (tk_nonces desk_talk), privkey_src := tk_privs desk_talk\<rparr>)"

definition desk_secure_peer :: world where
  "desk_secure_peer = desk_world [concat (map (\<lambda>(key, fr, r). frame_bytes fr) desk_out)] []"

lemma desk_keeps_keys: "keeps_keys desk"
  by (auto simp: keeps_keys_def desk_def sign_in_def echo_def split: if_splits)

lemma desk_steps:
  "spec_step desk m (opened_frame 2 p 5) =
     ([\<lparr>cf_header = mk_header 2 0 1 5, cf_payload = [1]\<rparr>], m(5 := (m 5)\<lparr>authenticated := True\<rparr>))"
  "\<not> authenticated (m 5) \<Longrightarrow> spec_step desk m (opened_frame 3 p 5) = ([], m)"
  "authenticated (m 5) \<Longrightarrow> spec_step desk m (opened_frame 3 p 5) =
     ([\<lparr>cf_header = mk_header 3 0 (of_nat (length p)) 5, cf_payload = p\<rparr>], m)"
  by (simp_all add: spec_step_def opened_frame_def desk_def sign_in_def echo_def reply_frame_def mk_header_def)

lemma desk_agree: "x25519_agree null_botan (replicate 32 5) (x25519_public null_botan (replicate 32 1)) = Some (replicate 32 4)"
    "x25519_agree null_botan (replicate 32 1) (x25519_public null_botan (replicate 32 5)) = Some (replicate 32 4)"
  by (simp_all add: null_botan_def)

lemma desk_new: "\<not> authenticated (new_session 5)" "\<not> authenticated (set_aes_key k (new_session 5))"
  by (simp_all add: new_session_def set_aes_key_def)

lemma desk_opened_ok:
  "length p < 2 ^ 32 \<Longrightarrow> wf_frame (opened_frame 3 p 5)" "\<not> reserved 3"
  by (simp_all add: wf_frame_def opened_frame_def mk_header_def unat_of_nat take_bit_nat_eq_self reserved_def
      CMD_KEY_EXCHANGE_def CMD_ENCRYPTED_MESSAGE_def)

lemmas talk_eval = desk_messages_def desk_talk_def desk_steps desk_agree desk_new desk_opened_ok Let_def

lemma desk_conversation_ok: "conversation_ok null_botan desk desk_talk desk_messages"
  by (simp add: talk_eval request_ok_def NONCE_SIZE_def null_botan_def)

lemma desk_signed_in: "authenticated (tk_memory desk_talk_end 5)"
  by (simp add: desk_talk_end_def talk_eval)

lemma desk_secure_fields [simp]:
  "botan_lib desk_secure = null_botan" "tx_log (kernel desk_secure) = []"
  by (simp_all add: desk_secure_def desk_server_def app_running_def app_configured_def fresh_server_def
      init_defaults_def Let_def enable_unix_socket_def enable_udp_def enable_tcp_def add_command_def)

theorem conversation_implements_service_witness:
  "authenticated (im_mem (store_state (serve 7 5 desk_secure)) 5) \<and>
   tx_log (kernel (serve 7 5 desk_secure)) = map (\<lambda>(key, fr, r). Sent 7 (frame_bytes fr)) desk_out \<and>
   map (\<lambda>(key, fr, r). client_open null_botan key fr) desk_out =
     [Some (CMD_KEY_EXCHANGE, replicate 32 5), Some (2, [1]), Some (3, bytes_of_string ''hi''), Some (3, bytes_of_string ''ok'')]"
proof -
  have sv: "serving desk 7 (desk_client BINARY) desk_secure" unfolding desk_secure_def by (rule desk_serving)
  have md: "c_mode (desk_client BINARY) = BINARY" by (simp add: desk_client_def)
  have run: "converse null_botan desk desk_talk desk_messages = (desk_frames, desk_out, desk_talk_end)"
    by (simp add: desk_frames_def desk_out_def desk_talk_end_def)
  have st: "agreed desk_talk" "nonces_ok desk_talk" "coupled_talk desk_talk desk_secure"
    by (simp_all add: agreed_def nonces_ok_def coupled_talk_def desk_talk_def desk_secure_def NONCE_SIZE_def)
  have av: "avail (rx (kernel desk_secure) 7) = concat (map frame_bytes desk_frames) @ []"
    by (simp add: desk_secure_def)
  have tx: "tx_res (kernel desk_secure) = map (\<lambda>(key, fr, r). wire_len fr) desk_out @ []"
    by (simp add: desk_secure_def)
  have pv: "avail (rx desk_secure_peer 9) = concat (map (\<lambda>(key, fr, r). frame_bytes fr) desk_out) @ []"
    by (simp add: desk_secure_peer_def)
  have len: "length desk_messages = 5" by (simp add: desk_messages_def)
  from conversation_implements_service [OF sv md desk_keeps_ids desk_keeps_keys desk_secure_fields(1) null_botan_ok st(1,2)
      desk_conversation_ok run st(3) av tx pv]
  have "im_mem (store_state (serve 7 5 desk_secure)) = tk_memory desk_talk_end"
      "tx_log (kernel (serve 7 5 desk_secure)) = map (\<lambda>(key, fr, r). Sent 7 (frame_bytes fr)) desk_out"
      and "list_all (\<lambda>(key, fr, r). client_open null_botan key fr = Some (command_id (cf_header r), cf_payload r)) desk_out"
    unfolding Let_def len by (auto simp: comp_def case_prod_unfold)
  moreover from this(3) have "map (\<lambda>(key, fr, r). client_open null_botan key fr) desk_out =
      map (\<lambda>(key, fr, r). Some (command_id (cf_header r), cf_payload r)) desk_out"
    by (auto simp: list_all_iff)
  moreover have "map (\<lambda>(key, fr, r). Some (command_id (cf_header r), cf_payload r)) desk_out =
      [Some (CMD_KEY_EXCHANGE, replicate 32 5), Some (2, [1]), Some (3, bytes_of_string ''hi''), Some (3, bytes_of_string ''ok'')]"
    by (simp add: desk_out_def talk_eval null_botan_def to_key_32)
  ultimately show ?thesis
    using desk_signed_in by simp
qed

theorem text_and_binary_agree_witness:
  "im_mem (store_state (serve 7 3 desk_binary)) = im_mem (store_state (serve 7 3 desk_text)) \<and>
   tx_log (kernel (serve 7 3 desk_text)) =
     map (\<lambda>r. Sent 7 (text_buffer (cf_header r) (cf_payload r))) desk_replies"
proof -
  have sv: "serving desk 7 (desk_client BINARY) desk_binary" "serving desk 7 (desk_client TEXT) desk_text"
    unfolding desk_binary_def desk_text_def by (rule desk_serving)+
  have md: "c_mode (desk_client BINARY) = BINARY" "c_mode (desk_client TEXT) = TEXT" by (simp_all add: desk_client_def)
  have ok: "\<forall>rq \<in> set desk_rqs. text_ok (text_command_names desk_text) rq"
    using desk_rqs_ok by (simp add: desk_text_def)
  have len: "length desk_rqs = 3" by (simp add: desk_rqs_def)
  have mem: "im_mem (store_state desk_binary) = im_mem (store_state desk_text)" by (simp add: desk_memories)
  from text_and_binary_agree [OF sv(1) md(1) sv(2) md(2) desk_keeps_ids ok desk_streams(1,2) mem _ desk_room,
      of desk_memory] desk_run
  have "im_mem (store_state (serve 7 3 desk_binary)) = im_mem (store_state (serve 7 3 desk_text))"
      "tx_log (kernel (serve 7 3 desk_text)) = tx_log (kernel desk_text) @
         map (\<lambda>r. Sent 7 (text_buffer (cf_header r) (cf_payload r))) desk_replies"
    unfolding desk_memories len Let_def by blast+
  moreover have "tx_log (kernel desk_text) = []" by (simp add: desk_text_def)
  ultimately show ?thesis by simp
qed

section \<open>The whole server\<close>

text \<open>
  From the configured server: a client is accepted, its login arrives, and the request is read
  and carried out.
\<close>

definition desk_idle :: "session_map system" where
  "desk_idle = (desk_server BINARY (desk_world [] [17]))\<lparr>conns := Map.empty, open_fds := {}, active_connections := 0\<rparr>"

definition sign_in_frame :: ClientFrame where
  "sign_in_frame = \<lparr>cf_header = mk_header 2 0 0 5, cf_payload = []\<rparr>"

definition desk_accepted :: "session_map system" where
  "desk_accepted = (accept_turn BINARY 7 desk_idle)\<lparr>kernel := desk_world [frame_bytes sign_in_frame] [17]\<rparr>"

definition desk_busy :: "session_map system" where
  "desk_busy = client_receive 7 (desk_client BINARY) desk_accepted"

lemmas desk_eval = desk_idle_def desk_server_def desk_client_def app_running_def app_configured_def fresh_server_def
  init_defaults_def Let_def enable_unix_socket_def enable_udp_def enable_tcp_def add_command_def

lemma desk_idle_fields:
  "initial desk_idle" "store_state desk_idle = Map.empty" "session_store desk_idle = Some InMemorySessionStore"
  "running desk_idle" "open_fds desk_idle = {}" "max_clients desk_idle = 0"
  "conns desk_idle = Map.empty"
  "pipeline_of desk_idle = \<lparr>pl_router = service_router desk, pl_authenticator = DefaultAuthenticator, pl_botan = null_botan\<rparr>"
  by (simp_all add: initial_def pipeline_of_def desk_eval)

lemma desk_user_code: "user_code_wf (pipeline_of desk_idle)"
  unfolding user_code_wf_def
proof (intro conjI allI impI)
  fix sid
  show "keeps (\<lambda>ctx. session_wf sid (ctx_session ctx)) (pl_authenticator (pipeline_of desk_idle))"
    by (simp add: desk_idle_fields keeps_def DefaultAuthenticator_def)
next
  fix sid c h
  assume "handler (pl_router (pipeline_of desk_idle) c) = Some h"
  then have "h = handler_of sign_in \<or> h = handler_of echo"
    by (auto simp: desk_idle_fields service_router_def default_endpoint_def desk_def split: if_splits)
  then show "keeps (\<lambda>ctx. session_wf sid (ctx_session ctx)) h"
    by (auto simp: keeps_def handler_of_def sign_in_def echo_def session_wf_def)
qed

lemma desk_accepted_fields:
  "running desk_accepted" "conns desk_accepted = [7 \<mapsto> desk_client BINARY]" "store_state desk_accepted = Map.empty"
  "session_store desk_accepted = Some InMemorySessionStore"
  "kernel desk_accepted = desk_world [frame_bytes sign_in_frame] [17]"
  by (simp_all add: desk_accepted_def accept_turn_def await_resume_def client_start_def desk_client_def desk_idle_fields)

lemma desk_accepted_reachable: "server_reachable desk_idle desk_accepted"
proof -
  have "server_reachable desk_idle (accept_turn BINARY 7 desk_idle)"
    by (rule server_reachable.step [OF server_reachable.start server_step.accept]) (simp_all add: desk_idle_fields)
  then show ?thesis
    unfolding desk_accepted_def
    by (rule server_reachable.step [OF _ server_step.kernel])
      (simp add: accept_turn_def await_resume_def client_start_def desk_idle_fields, simp add: desk_eval desk_world_def)
qed

lemma desk_busy_step: "server_step desk_accepted desk_busy"
  unfolding desk_busy_def by (rule server_step.receive) (simp_all add: desk_accepted_fields desk_client_def)

lemma desk_busy_reachable: "server_reachable desk_idle desk_busy"
  by (rule server_reachable.step [OF desk_accepted_reachable desk_busy_step])

lemma desk_busy_flight:
  "store_state desk_busy 5 = Some (new_session 5)"
  "conns desk_busy 7 = Some ((desk_client BINARY)\<lparr>current_sid := 5, c_flight := Some (sign_in_frame, new_session 5)\<rparr>)"
proof -
  have "avail (rx (kernel desk_accepted) 7) = frame_bytes sign_in_frame @ []" "wf_frame sign_in_frame"
    by (simp_all add: desk_accepted_fields wf_frame_def sign_in_frame_def frame_bytes_def sizeof_FrameHeader_def)
  then obtain q where "read_frame 7 (kernel desk_accepted) = (Ret sign_in_frame, set_rx 7 q (kernel desk_accepted))"
    by (rule read_frame_stream)
  then have "read_request desk_accepted 7 (desk_client BINARY) (kernel desk_accepted) =
      (Ret sign_in_frame, set_rx 7 q (kernel desk_accepted))"
    by (simp add: read_request_def desk_client_def)
  from client_receive_ok [OF this desk_accepted_fields(4) im_store_calls(1)]
  show "store_state desk_busy 5 = Some (new_session 5)"
      "conns desk_busy 7 = Some ((desk_client BINARY)\<lparr>current_sid := 5, c_flight := Some (sign_in_frame, new_session 5)\<rparr>)"
    by (simp_all add: desk_busy_def desk_accepted_fields sign_in_frame_def im_mem_def)
qed

theorem server_sessions_wf_witness:
  "sess_id (new_session 5) = 5 \<and> length (aes_key (new_session 5)) = 32 \<and>
   conns desk_busy 7 = Some ((desk_client BINARY)\<lparr>current_sid := 5, c_flight := Some (sign_in_frame, new_session 5)\<rparr>)"
  using server_sessions_wf [OF desk_busy_reachable desk_idle_fields(1-3) desk_user_code] desk_busy_flight by blast

theorem steps_isolate_sessions_witness:
  "\<exists>sid. touches_only sid desk_busy
     (client_finish 7 ((desk_client BINARY)\<lparr>current_sid := 5, c_flight := Some (sign_in_frame, new_session 5)\<rparr>)
        sign_in_frame (new_session 5) desk_busy)"
proof -
  let ?c = "(desk_client BINARY)\<lparr>current_sid := 5, c_flight := Some (sign_in_frame, new_session 5)\<rparr>"
  let ?t = "client_finish 7 ?c sign_in_frame (new_session 5) desk_busy"
  have step: "server_step desk_busy ?t" by (rule server_step.finish [OF desk_busy_flight(2)]) simp
  have wf: "system_wf desk_idle"
    using desk_idle_fields desk_user_code by (simp add: system_wf_def)
  from steps_isolate_sessions [OF desk_busy_reachable wf step] show ?thesis
  proof (elim disjE)
    assume "im_mem (store_state ?t) = im_mem (store_state desk_busy)"
    then have "touches_only 0 desk_busy ?t" by (simp add: touches_only_def)
    then show ?thesis by (rule exI)
  qed blast+
qed

section \<open>A round of a client function\<close>

text \<open>The peer has closed: the round of \<^verbatim>\<open>handle_client\<close> reads that, and ends the connection.\<close>

definition desk_closed :: "session_map system" where
  "desk_closed = desk_server BINARY (desk_world [[]] [])"

lemma desk_closed_read:
  "fst (read_frame 7 (kernel desk_closed)) = Throw (RuntimeError ''Connection closed by client'')"
proof -
  have "wf_frame sign_in_frame" by (simp add: wf_frame_def sign_in_frame_def)
  moreover have "avail (rx (kernel desk_closed) 7) = take 0 (frame_bytes sign_in_frame)" by (simp add: desk_closed_def)
  moreover have "0 < length (frame_bytes sign_in_frame)" by (simp add: frame_bytes_def sizeof_FrameHeader_def)
  moreover have "no_timeout (ending (rx (kernel desk_closed) 7))" by (simp add: desk_closed_def no_timeout_def)
  ultimately have "fst (read_frame 7 (kernel desk_closed)) = early_end (ending (rx (kernel desk_closed) 7))"
    by (rule read_frame_truncated)
  then show ?thesis by (simp add: desk_closed_def)
qed

theorem client_functions_are_stages_witness:
  "staged_round 7 (desk_client BINARY) desk_closed = handle_client 7 (desk_client BINARY) desk_closed"
proof -
  have c: "conns desk_closed 7 = Some (desk_client BINARY)" "c_flight (desk_client BINARY) = None"
      "c_mode (desk_client BINARY) = BINARY"
    by (simp_all add: desk_closed_def desk_server_def desk_client_def)
  have "fst (client_block (read_request desk_closed 7 (desk_client BINARY)) (client_connection 7 (desk_client BINARY)) 7
      (desk_closed, current_sid (desk_client BINARY))) \<noteq> Pending"
    using desk_closed_read
    by (auto simp: client_block_def block_read_def co_bind_def read_request_def c split: prod.splits)
  from client_functions_are_stages [OF c(1,2) this] show ?thesis by (simp add: c)
qed

end
