(* ===== verification/Task_Frames.thy ===== *)
theory Task_Frames
  imports Servd_Prelude
begin

text \<open>
  The coroutine frames of \<^verbatim>\<open>Task.hpp\<close>: promises with a value, an exception and a continuation,
  the awaiter of a task, the final awaiter that transfers control to the continuation, the
  destruction of awaited tasks, and detached tasks. The other theories treat a task as a
  function (\<open>co_bind\<close> is \<^verbatim>\<open>co_await\<close>); this one shows that the machine of frames
  behaves as that function says.
\<close>

section \<open>Bodies and what they mean\<close>

text \<open>
  The body of a coroutine, as it goes on from some point: \<^verbatim>\<open>co_return\<close>; an exception that
  leaves the body; a wait, for an operation of the ring or for a function on the thread pool; or \<^verbatim>\<open>co_await\<close> of a task with a body of its own.
  What follows an await depends on its outcome: a body without \<^verbatim>\<open>try\<close> throws again on \<open>Inl\<close>.
\<close>

datatype wait = OnRing | OnPool

datatype ('w, 'v) body =
    CoReturn 'v
  | CoThrow exn
  | CoIO wait "'w \<Rightarrow> 'v outcome \<times> 'w" "exn + 'v \<Rightarrow> ('w, 'v) body"
  | CoAwait "('w, 'v) body" "exn + 'v \<Rightarrow> ('w, 'v) body"

definition co_handle :: "('w, 'a) co \<Rightarrow> (exn + 'a \<Rightarrow> ('w, 'b) co) \<Rightarrow> ('w, 'b) co" where
  "co_handle m k w =
     (case m w of
        (Ret a, w') \<Rightarrow> k (Inr a) w'
      | (Throw e, w') \<Rightarrow> k (Inl e) w'
      | (Pending, w') \<Rightarrow> (Pending, w'))"

text \<open>\<open>co_bind\<close> is the case of a body that does not catch.\<close>

lemma co_bind_handle: "co_bind m f = co_handle m (case_sum co_throw f)"
  by (rule ext) (simp add: co_bind_def co_handle_def split: prod.split outcome.split)

primrec denote :: "('w, 'v) body \<Rightarrow> ('w, 'v) co" where
  "denote (CoReturn v) = co_ret v"
| "denote (CoThrow e) = co_throw e"
| "denote (CoIO via ring_op k) = co_handle ring_op (\<lambda>r. denote (k r))"
| "denote (CoAwait b k) = co_handle (denote b) (\<lambda>r. denote (k r))"

section \<open>Frames\<close>

text \<open>Where a coroutine is: running, suspended in a ring operation or in an await, or at its end.\<close>

datatype ('w, 'v) point =
    At "('w, 'v) body"
  | InIO wait "'w \<Rightarrow> 'v outcome \<times> 'w" "exn + 'v \<Rightarrow> ('w, 'v) body"
  | Awaiting nat "exn + 'v \<Rightarrow> ('w, 'v) body"
  | FinalSuspended

text \<open>
  A frame: its \<^verbatim>\<open>promise_type\<close> (\<open>None\<close> is the value-initialised \<^verbatim>\<open>value_\<close>, and the null
  exception pointer and handle), and whether it is that of a \<^verbatim>\<open>DetachedTask\<close>.
\<close>

record ('w, 'v) frame =
  fr_point :: "('w, 'v) point"
  pr_value :: "'v option"
  pr_exception :: "exn option"
  pr_continuation :: "nat option"
  detached :: bool

text \<open>
  \<open>current\<close> is the coroutine that has the thread; with \<open>None\<close> the thread is back in the event
  loop. \<open>in_io\<close> is a suspended coroutine whose operation the loop is going to complete.
\<close>

record ('w, 'v) machine =
  frames :: "nat \<rightharpoonup> ('w, 'v) frame"
  next_frame :: nat
  current :: "nat option"
  in_io :: "nat option"
  io_world :: 'w

section \<open>Operations\<close>

text \<open>Calling a coroutine function: the frame is made and, for a \<^verbatim>\<open>Task\<close>, suspended at once.\<close>

definition get_return_object :: "bool \<Rightarrow> ('w, 'v) body \<Rightarrow> ('w, 'v) machine \<Rightarrow> nat \<times> ('w, 'v) machine" where
  "get_return_object det b m =
     (next_frame m,
      m\<lparr>frames := (frames m)(next_frame m \<mapsto>
          \<lparr>fr_point = At b, pr_value = None, pr_exception = None, pr_continuation = None, detached = det\<rparr>),
        next_frame := Suc (next_frame m)\<rparr>)"

definition task_start :: "nat \<Rightarrow> ('w, 'v) machine \<Rightarrow> ('w, 'v) machine" where
  "task_start h m = m\<lparr>current := Some h\<rparr>"

definition upd_frame ::
    "nat \<Rightarrow> (('w, 'v) frame \<Rightarrow> ('w, 'v) frame) \<Rightarrow> ('w, 'v) machine \<Rightarrow> ('w, 'v) machine" where
  "upd_frame h f m = m\<lparr>frames := (frames m)(h := map_option f (frames m h))\<rparr>"

text \<open>\<^verbatim>\<open>Task::await_suspend\<close>: remember who waits, and transfer to the awaited coroutine.\<close>

definition task_await_suspend :: "nat \<Rightarrow> nat \<Rightarrow> ('w, 'v) machine \<Rightarrow> ('w, 'v) machine" where
  "task_await_suspend c h m = (upd_frame c (pr_continuation_update (\<lambda>_. Some h)) m)\<lparr>current := Some c\<rparr>"

text \<open>\<^verbatim>\<open>Task::await_resume\<close>, and the destructor of the awaited task.\<close>

definition task_await_resume :: "nat \<Rightarrow> ('w, 'v) machine \<Rightarrow> exn + 'v" where
  "task_await_resume c m =
     (case frames m c of
        Some f \<Rightarrow> (case pr_exception f of Some e \<Rightarrow> Inl e | None \<Rightarrow> Inr (the (pr_value f)))
      | None \<Rightarrow> Inl BadAlloc)"

definition task_destroy :: "nat \<Rightarrow> ('w, 'v) machine \<Rightarrow> ('w, 'v) machine" where
  "task_destroy c m = m\<lparr>frames := (frames m)(c := None)\<rparr>"

text \<open>
  The end of a body: \<^verbatim>\<open>return_value\<close> or \<^verbatim>\<open>unhandled_exception\<close>, then \<^verbatim>\<open>final_suspend\<close>. A task
  stays suspended and hands the thread to its continuation; a detached task drops the
  exception, does not suspend, and its frame goes away.
\<close>

definition finish_body :: "nat \<Rightarrow> exn + 'v \<Rightarrow> ('w, 'v) machine \<Rightarrow> ('w, 'v) machine" where
  "finish_body h r m =
     (case frames m h of
        None \<Rightarrow> m
      | Some f \<Rightarrow>
          if detached f then (task_destroy h m)\<lparr>current := None\<rparr>
          else
            (let f1 = (case r of Inl e \<Rightarrow> f\<lparr>pr_exception := Some e\<rparr> | Inr v \<Rightarrow> f\<lparr>pr_value := Some v\<rparr>) in
             m\<lparr>frames := (frames m)(h \<mapsto> f1\<lparr>fr_point := FinalSuspended\<rparr>), current := pr_continuation f1\<rparr>))"

text \<open>
  \<^verbatim>\<open>Task<void>\<close> has no \<^verbatim>\<open>value_\<close>: its body ends with \<^verbatim>\<open>return_void\<close> or an exception, and
  awaiting it yields nothing or throws.
\<close>

definition void_finish_body :: "nat \<Rightarrow> exn option \<Rightarrow> ('w, 'v) machine \<Rightarrow> ('w, 'v) machine" where
  "void_finish_body h r m =
     (case frames m h of
        None \<Rightarrow> m
      | Some f \<Rightarrow>
          (let f1 = (case r of Some e \<Rightarrow> f\<lparr>pr_exception := Some e\<rparr> | None \<Rightarrow> f) in
           m\<lparr>frames := (frames m)(h \<mapsto> f1\<lparr>fr_point := FinalSuspended\<rparr>), current := pr_continuation f1\<rparr>))"

definition void_await_resume :: "nat \<Rightarrow> ('w, 'v) machine \<Rightarrow> exn + unit" where
  "void_await_resume c m =
     (case frames m c of
        Some f \<Rightarrow> (case pr_exception f of Some e \<Rightarrow> Inl e | None \<Rightarrow> Inr ())
      | None \<Rightarrow> Inl BadAlloc)"

text \<open>The coroutine that has the thread runs to its next suspension, end or await.\<close>

definition run_coroutine :: "nat \<Rightarrow> ('w, 'v) machine \<Rightarrow> ('w, 'v) machine" where
  "run_coroutine h m =
     (case frames m h of
        None \<Rightarrow> m
      | Some f \<Rightarrow>
          (case fr_point f of
             At (CoReturn v) \<Rightarrow> finish_body h (Inr v) m
           | At (CoThrow e) \<Rightarrow> finish_body h (Inl e) m
           | At (CoIO via ring_op k) \<Rightarrow> (upd_frame h (fr_point_update (\<lambda>_. InIO via ring_op k)) m)\<lparr>current := None, in_io := Some h\<rparr>
           | At (CoAwait b k) \<Rightarrow>
               (let (c, m1) = get_return_object False b m in
                task_await_suspend c h (upd_frame h (fr_point_update (\<lambda>_. Awaiting c k)) m1))
           | Awaiting c k \<Rightarrow>
               task_destroy c (upd_frame h (fr_point_update (\<lambda>_. At (k (task_await_resume c m)))) m)
           | _ \<Rightarrow> m))"

text \<open>
  The event loop completes the operation and resumes the coroutine in it; if no completion
  comes, the coroutine stays suspended.
\<close>

definition loop_complete :: "nat \<Rightarrow> ('w, 'v) machine \<Rightarrow> ('w, 'v) machine" where
  "loop_complete h m =
     (case frames m h of
        None \<Rightarrow> m
      | Some f \<Rightarrow>
          (case fr_point f of
             InIO via ring_op k \<Rightarrow>
               (let (r, w) = ring_op (io_world m);
                    go = (\<lambda>x. (upd_frame h (fr_point_update (\<lambda>_. At (k x))) m)\<lparr>current := Some h, in_io := None, io_world := w\<rparr>) in
                case r of
                  Ret v \<Rightarrow> go (Inr v)
                | Throw e \<Rightarrow> go (Inl e)
                | Pending \<Rightarrow> m\<lparr>in_io := None, io_world := w\<rparr>)
           | _ \<Rightarrow> m))"

definition machine_step :: "('w, 'v) machine \<Rightarrow> ('w, 'v) machine" where
  "machine_step m =
     (case current m of
        Some h \<Rightarrow> run_coroutine h m
      | None \<Rightarrow> (case in_io m of Some h \<Rightarrow> loop_complete h m | None \<Rightarrow> m))"

text \<open>A machine with one root: a task that is made and started, or a detached one.\<close>

definition launch :: "bool \<Rightarrow> ('w, 'v) body \<Rightarrow> 'w \<Rightarrow> ('w, 'v) machine" where
  "launch det b w =
     (let (h, m) = get_return_object det b
            \<lparr>frames = Map.empty, next_frame = 0, current = None, in_io = None, io_world = w\<rparr> in
      task_start h m)"

text \<open>A \<^verbatim>\<open>Task<void>\<close> is a task whose value nobody sees.\<close>

definition forget_values :: "('w, 'v) machine \<Rightarrow> ('w, 'v) machine" where
  "forget_values m = m\<lparr>frames := (\<lambda>h. map_option (pr_value_update (\<lambda>_. None)) (frames m h))\<rparr>"

lemma void_task_is_task:
  assumes "frames m h = Some f" "\<not> detached f"
  shows "forget_values (finish_body h (Inl e) m) = void_finish_body h (Some e) (forget_values m)"
    "forget_values (finish_body h (Inr v) m) = void_finish_body h None (forget_values m)"
  using assms
  by (auto simp: forget_values_def finish_body_def void_finish_body_def fun_eq_iff)

lemma void_await_is_await: "void_await_resume c (forget_values m) = map_sum id (\<lambda>_. ()) (task_await_resume c m)"
  by (simp add: void_await_resume_def task_await_resume_def forget_values_def split: option.split)

section \<open>Running a body\<close>

definition at_body :: "nat \<Rightarrow> ('w, 'v) frame \<Rightarrow> ('w, 'v) body \<Rightarrow> ('w, 'v) machine \<Rightarrow> bool" where
  "at_body h f b m \<longleftrightarrow> frames m h = Some f \<and> fr_point f = At b \<and> current m = Some h \<and> in_io m = None \<and>
     h < next_frame m \<and> (\<forall>i \<ge> next_frame m. frames m i = None)"

text \<open>
  The frames from the one suspended in an operation up to the one that waits for all of them,
  each awaiting the one below and named by it as its continuation.
\<close>

inductive await_chain :: "(nat \<rightharpoonup> ('w, 'v) frame) \<Rightarrow> nat \<Rightarrow> nat set \<Rightarrow> bool" for F where
  io: "F h = Some f \<Longrightarrow> fr_point f = InIO via ring_op k \<Longrightarrow> await_chain F h {h}"
| await: "\<lbrakk>F h = Some f; fr_point f = Awaiting c k; F c = Some g; pr_continuation g = Some h; await_chain F c S\<rbrakk> \<Longrightarrow>
    await_chain F h (insert h S)"

lemma steps_trans: "(machine_step ^^ n) m = m1 \<Longrightarrow> (machine_step ^^ k) m1 = m2 \<Longrightarrow> (machine_step ^^ (k + n)) m = m2"
  by (simp add: funpow_add)

lemma io_steps:
  assumes "at_body h f (CoIO via ring_op k) m" "ring_op (io_world m) = (r, w)"
  shows "r = Ret v \<Longrightarrow> (machine_step ^^ 2) m =
      m\<lparr>frames := (frames m)(h \<mapsto> f\<lparr>fr_point := At (k (Inr v))\<rparr>), io_world := w\<rparr>"
    "r = Throw e \<Longrightarrow> (machine_step ^^ 2) m =
      m\<lparr>frames := (frames m)(h \<mapsto> f\<lparr>fr_point := At (k (Inl e))\<rparr>), io_world := w\<rparr>"
    "r = Pending \<Longrightarrow> (machine_step ^^ 2) m =
      m\<lparr>frames := (frames m)(h \<mapsto> f\<lparr>fr_point := InIO via ring_op k\<rparr>), current := None, io_world := w\<rparr>"
  using assms
  by (simp_all add: at_body_def machine_step_def run_coroutine_def loop_complete_def upd_frame_def numeral_2_eq_2)

lemma await_step:
  assumes "at_body h f (CoAwait b k) m"
  shows "machine_step m = m\<lparr>frames := (frames m)(h \<mapsto> f\<lparr>fr_point := Awaiting (next_frame m) k\<rparr>,
      next_frame m \<mapsto> \<lparr>fr_point = At b, pr_value = None, pr_exception = None, pr_continuation = Some h, detached = False\<rparr>),
      next_frame := Suc (next_frame m), current := Some (next_frame m)\<rparr>"
  using assms
  by (simp add: at_body_def machine_step_def run_coroutine_def get_return_object_def task_await_suspend_def
      upd_frame_def fun_upd_twist)

definition ends_with :: "nat \<Rightarrow> exn + 'v \<Rightarrow> 'w \<Rightarrow> ('w, 'v) machine \<Rightarrow> bool" where
  "ends_with h r w m \<longleftrightarrow>
     (\<exists>n j. next_frame m \<le> j \<and> (machine_step ^^ n) m = finish_body h r (m\<lparr>io_world := w, next_frame := j\<rparr>))"

definition suspended_in :: "nat \<Rightarrow> ('w, 'v) frame \<Rightarrow> 'w \<Rightarrow> ('w, 'v) machine \<Rightarrow> ('w, 'v) machine \<Rightarrow> bool" where
  "suspended_in h f w m m' \<longleftrightarrow> current m' = None \<and> in_io m' = None \<and> io_world m' = w \<and>
     (\<exists>S g. await_chain (frames m') h S \<and> S \<subseteq> insert h {next_frame m..} \<and>
        (\<forall>j. j \<notin> S \<longrightarrow> frames m' j = frames m j) \<and> frames m' h = Some g \<and> pr_continuation g = pr_continuation f)"

definition body_result :: "nat \<Rightarrow> ('w, 'v) frame \<Rightarrow> 'v outcome \<times> 'w \<Rightarrow> ('w, 'v) machine \<Rightarrow> bool" where
  "body_result h f rw m \<longleftrightarrow>
     (case rw of
        (Ret v, w) \<Rightarrow> ends_with h (Inr v) w m
      | (Throw e, w) \<Rightarrow> ends_with h (Inl e) w m
      | (Pending, w) \<Rightarrow> \<exists>n. suspended_in h f w m ((machine_step ^^ n) m))"

text \<open>Moving the coroutine on to another point of its body, the result of the body is the same.\<close>

lemma finish_body_point:
  assumes "frames m h = Some f"
  shows "finish_body h r (m\<lparr>frames := (frames m)(h \<mapsto> f\<lparr>fr_point := q\<rparr>), io_world := w, next_frame := j\<rparr>) =
    finish_body h r (m\<lparr>io_world := w, next_frame := j\<rparr>)"
  using assms by (cases r) (simp_all add: finish_body_def task_destroy_def)

lemma body_result_later:
  assumes "frames m h = Some f" "next_frame m \<le> j"
    and run: "(machine_step ^^ n) m = m\<lparr>frames := (frames m)(h \<mapsto> f\<lparr>fr_point := q\<rparr>), io_world := w, next_frame := j\<rparr>"
    and res: "body_result h (f\<lparr>fr_point := q\<rparr>) rw
      (m\<lparr>frames := (frames m)(h \<mapsto> f\<lparr>fr_point := q\<rparr>), io_world := w, next_frame := j\<rparr>)"
  shows "body_result h f rw m"
proof -
  let ?m1 = "m\<lparr>frames := (frames m)(h \<mapsto> f\<lparr>fr_point := q\<rparr>), io_world := w, next_frame := j\<rparr>"
  have e: "ends_with h r v m" if "ends_with h r v ?m1" for r v
  proof -
    from that obtain k i where k: "j \<le> i" "(machine_step ^^ k) ?m1 = finish_body h r (?m1\<lparr>io_world := v, next_frame := i\<rparr>)"
      by (auto simp: ends_with_def)
    have "(machine_step ^^ (k + n)) m = finish_body h r (m\<lparr>io_world := v, next_frame := i\<rparr>)"
      using steps_trans [OF run k(2)] finish_body_point [OF assms(1), where q = q and w = v and j = i and r = r] by simp
    with k(1) assms(2) show ?thesis unfolding ends_with_def by (meson le_trans)
  qed
  have s: "\<exists>i. suspended_in h f v m ((machine_step ^^ i) m)"
    if "suspended_in h (f\<lparr>fr_point := q\<rparr>) v ?m1 ((machine_step ^^ k) ?m1)" for v k
  proof -
    let ?m2 = "(machine_step ^^ k) ?m1"
    from that obtain S g where S: "await_chain (frames ?m2) h S" "S \<subseteq> insert h {j..}"
        "\<forall>i. i \<notin> S \<longrightarrow> frames ?m2 i = frames ?m1 i" "frames ?m2 h = Some g" "pr_continuation g = pr_continuation f"
        "current ?m2 = None" "in_io ?m2 = None" "io_world ?m2 = v"
      by (auto simp: suspended_in_def)
    have "h \<in> S" using S(1) by (auto elim: await_chain.cases)
    then have "\<forall>i. i \<notin> S \<longrightarrow> frames ?m2 i = frames m i" using S(3) by auto
    moreover have "S \<subseteq> insert h {next_frame m..}" using S(2) assms(2) by auto
    ultimately have "suspended_in h f v m ?m2" unfolding suspended_in_def using S by blast
    then show ?thesis using steps_trans [OF run refl, of k] by metis
  qed
  show ?thesis
    using res e s by (auto simp: body_result_def split: prod.splits outcome.splits)
qed

text \<open>The awaited coroutine has ended: the awaiting one takes the outcome and destroys it.\<close>

lemma await_resume_step:
  assumes m: "frames m h = Some f" "\<forall>i \<ge> next_frame m. frames m i = None" "current m = Some h" "h < next_frame m"
    and g: "\<not> detached g" "pr_continuation g = Some h" "pr_exception g = None"
  shows "machine_step (finish_body (next_frame m) r
      (m\<lparr>frames := (frames m)(h \<mapsto> f\<lparr>fr_point := Awaiting (next_frame m) k\<rparr>, next_frame m \<mapsto> g),
         current := Some c, io_world := w, next_frame := j\<rparr>)) =
    m\<lparr>frames := (frames m)(h \<mapsto> f\<lparr>fr_point := At (k r)\<rparr>), io_world := w, next_frame := j\<rparr>"
proof -
  have "frames m (next_frame m) = None" using m(2) by simp
  moreover have "(frames m)(h \<mapsto> x, next_frame m := None) = (frames m)(h \<mapsto> x)" for x
    using calculation m(4) by (auto simp: fun_eq_iff)
  ultimately show ?thesis
    using m g
    by (cases r)
      (simp_all add: machine_step_def run_coroutine_def finish_body_def Let_def task_await_resume_def upd_frame_def
        task_destroy_def fun_upd_twist)
qed

lemma suspended_in_await:
  assumes "at_body h f (CoAwait b k) m"
    and s: "suspended_in (next_frame m) g w
      (m\<lparr>frames := (frames m)(h \<mapsto> f\<lparr>fr_point := Awaiting (next_frame m) k\<rparr>, next_frame m \<mapsto> g),
         next_frame := Suc (next_frame m), current := Some (next_frame m)\<rparr>) m'"
    and "pr_continuation g = Some h"
  shows "suspended_in h f w m m'"
proof -
  let ?c = "next_frame m"
  note B = assms(1) [unfolded at_body_def]
  from s obtain S g' where S: "await_chain (frames m') ?c S" "S \<subseteq> insert ?c {Suc ?c..}"
      "\<forall>j. j \<notin> S \<longrightarrow> frames m' j = ((frames m)(h \<mapsto> f\<lparr>fr_point := Awaiting ?c k\<rparr>, ?c \<mapsto> g)) j"
      "frames m' ?c = Some g'" "pr_continuation g' = Some h"
      "current m' = None" "in_io m' = None" "io_world m' = w"
    using assms(3) by (auto simp: suspended_in_def)
  have "h \<notin> S" using S(2) B by auto
  then have fh: "frames m' h = Some (f\<lparr>fr_point := Awaiting ?c k\<rparr>)" using S(3) B by simp
  have "?c \<in> S" using S(1) by (auto elim: await_chain.cases)
  then have "\<forall>j. j \<notin> insert h S \<longrightarrow> frames m' j = frames m j" using S(3) by auto
  moreover have "await_chain (frames m') h (insert h S)"
    by (rule await_chain.await [OF fh _ S(4,5,1)]) simp
  moreover have "insert h S \<subseteq> insert h {?c..}" using S(2) by auto
  moreover have "pr_continuation (f\<lparr>fr_point := Awaiting ?c k\<rparr>) = pr_continuation f" by simp
  ultimately show ?thesis unfolding suspended_in_def using S(6-8) fh by blast
qed

lemma run_body: "at_body h f b m \<Longrightarrow> body_result h f (denote b (io_world m)) m"
proof (induction b arbitrary: h f m)
  case (CoReturn v)
  have "(machine_step ^^ 1) m = finish_body h (Inr v) (m\<lparr>io_world := io_world m, next_frame := next_frame m\<rparr>)"
    using CoReturn by (simp add: at_body_def machine_step_def run_coroutine_def)
  then have "ends_with h (Inr v) (io_world m) m" unfolding ends_with_def by (meson le_refl)
  then show ?case by (simp add: body_result_def)
next
  case (CoThrow e)
  have "(machine_step ^^ 1) m = finish_body h (Inl e) (m\<lparr>io_world := io_world m, next_frame := next_frame m\<rparr>)"
    using CoThrow by (simp add: at_body_def machine_step_def run_coroutine_def)
  then have "ends_with h (Inl e) (io_world m) m" unfolding ends_with_def by (meson le_refl)
  then show ?case by (simp add: body_result_def)
next
  case (CoIO via ring_op k)
  obtain r w where rw: "ring_op (io_world m) = (r, w)" by fastforce
  have B: "frames m h = Some f" "m\<lparr>next_frame := next_frame m\<rparr> = m" using CoIO.prems by (auto simp: at_body_def)
  have go: "body_result h f (denote (k x) w) m"
    if run: "(machine_step ^^ 2) m = m\<lparr>frames := (frames m)(h \<mapsto> f\<lparr>fr_point := At (k x)\<rparr>), io_world := w\<rparr>" for x
  proof (rule body_result_later [OF B(1) le_refl])
    show "(machine_step ^^ 2) m =
        m\<lparr>frames := (frames m)(h \<mapsto> f\<lparr>fr_point := At (k x)\<rparr>), io_world := w, next_frame := next_frame m\<rparr>"
      using run by simp
    show "body_result h (f\<lparr>fr_point := At (k x)\<rparr>) (denote (k x) w)
        (m\<lparr>frames := (frames m)(h \<mapsto> f\<lparr>fr_point := At (k x)\<rparr>), io_world := w, next_frame := next_frame m\<rparr>)"
      (is "body_result h ?f1 _ ?m1")
    proof -
      have "at_body h ?f1 (k x) ?m1" using CoIO.prems by (auto simp: at_body_def)
      from CoIO.IH [OF rangeI this] show ?thesis by simp
    qed
  qed
  show ?case
  proof (cases r)
    case (Ret v)
    with go [OF io_steps(1) [OF CoIO.prems rw]] rw show ?thesis by (simp add: co_handle_def)
  next
    case (Throw e)
    with go [OF io_steps(2) [OF CoIO.prems rw]] rw show ?thesis by (simp add: co_handle_def)
  next
    case Pending
    let ?m2 = "m\<lparr>frames := (frames m)(h \<mapsto> f\<lparr>fr_point := InIO via ring_op k\<rparr>), current := None, io_world := w\<rparr>"
    have "await_chain (frames ?m2) h {h}"
      by (rule await_chain.io [where via = via and ring_op = ring_op and k = k and f = "f\<lparr>fr_point := InIO via ring_op k\<rparr>"]) simp_all
    then have "suspended_in h f w m ?m2"
      using CoIO.prems unfolding suspended_in_def at_body_def by fastforce
    then have "suspended_in h f w m ((machine_step ^^ 2) m)" using io_steps(3) [OF CoIO.prems rw Pending] by simp
    with rw Pending show ?thesis by (auto simp: co_handle_def body_result_def)
  qed
next
  case (CoAwait b k)
  let ?c = "next_frame m"
  let ?g = "\<lparr>fr_point = At b, pr_value = None, pr_exception = None, pr_continuation = Some h, detached = False\<rparr>"
  let ?m1 = "m\<lparr>frames := (frames m)(h \<mapsto> f\<lparr>fr_point := Awaiting ?c k\<rparr>, ?c \<mapsto> ?g),
      next_frame := Suc ?c, current := Some ?c\<rparr>"
  note B = CoAwait.prems [unfolded at_body_def]
  have one: "(machine_step ^^ 1) m = ?m1" using await_step [OF CoAwait.prems] by simp
  have "at_body ?c ?g b ?m1" using B by (auto simp: at_body_def)
  from CoAwait.IH(1) [OF this]
  have child: "body_result ?c ?g (denote b (io_world m)) ?m1" by simp
  have go: "body_result h f (denote (k r) w) m" if "ends_with ?c r w ?m1" for r w
  proof -
    from that obtain n j where n: "Suc ?c \<le> j" "(machine_step ^^ n) ?m1 = finish_body ?c r (?m1\<lparr>io_world := w, next_frame := j\<rparr>)"
      by (auto simp: ends_with_def)
    let ?m2 = "m\<lparr>frames := (frames m)(h \<mapsto> f\<lparr>fr_point := At (k r)\<rparr>), io_world := w, next_frame := j\<rparr>"
    have "machine_step (finish_body ?c r (?m1\<lparr>io_world := w, next_frame := j\<rparr>)) = ?m2"
      using await_resume_step [where m = m and h = h and f = f and g = ?g and r = r and k = k and j = j and c = ?c and w = w] B
      by simp
    then have run: "(machine_step ^^ (1 + (n + 1))) m = ?m2"
      using steps_trans [OF steps_trans [OF one n(2)], of 1] by simp
    have "at_body h (f\<lparr>fr_point := At (k r)\<rparr>) (k r) ?m2" using B n(1) by (auto simp: at_body_def)
    from CoAwait.IH(2) [OF rangeI this] have "body_result h (f\<lparr>fr_point := At (k r)\<rparr>) (denote (k r) w) ?m2" by simp
    from body_result_later [OF _ _ run this] B n(1) show ?thesis by simp
  qed
  obtain o1 w where dw: "denote b (io_world m) = (o1, w)" by fastforce
  show ?case
  proof (cases o1)
    case (Ret v)
    with child dw go show ?thesis by (simp add: body_result_def [of ?c] co_handle_def)
  next
    case (Throw e)
    with child dw go show ?thesis by (simp add: body_result_def [of ?c] co_handle_def)
  next
    case Pending
    with child dw obtain n where "suspended_in ?c ?g w ?m1 ((machine_step ^^ n) ?m1)"
      by (auto simp: body_result_def)
    then have "suspended_in h f w m ((machine_step ^^ n) ?m1)"
      using suspended_in_await [OF CoAwait.prems] by simp
    with steps_trans [OF one refl, of n] Pending dw show ?thesis
      by (auto simp: body_result_def co_handle_def intro: exI [of _ "n + 1"])
  qed
qed

section \<open>Properties\<close>

lemma launch_at_body:
  "at_body 0 \<lparr>fr_point = At b, pr_value = None, pr_exception = None, pr_continuation = None, detached = det\<rparr> b (launch det b w)"
  by (simp add: at_body_def launch_def get_return_object_def task_start_def)

lemma launch_fields:
  "frames (launch det b w) =
     [0 \<mapsto> \<lparr>fr_point = At b, pr_value = None, pr_exception = None, pr_continuation = None, detached = det\<rparr>]"
  "next_frame (launch det b w) = 1" "in_io (launch det b w) = None" "io_world (launch det b w) = w"
  by (simp_all add: launch_def get_return_object_def task_start_def)

text \<open>How a launched root ends, whatever its kind.\<close>

definition root_result :: "bool \<Rightarrow> ('w, 'v) body \<Rightarrow> 'w \<Rightarrow> ('w, 'v) machine \<Rightarrow> bool" where
  "root_result det b w m \<longleftrightarrow>
     (case denote b w of
        (Ret v, w') \<Rightarrow> \<exists>j. m = finish_body 0 (Inr v) ((launch det b w)\<lparr>io_world := w', next_frame := j\<rparr>)
      | (Throw e, w') \<Rightarrow> \<exists>j. m = finish_body 0 (Inl e) ((launch det b w)\<lparr>io_world := w', next_frame := j\<rparr>)
      | (Pending, w') \<Rightarrow> current m = None \<and> in_io m = None \<and> io_world m = w' \<and>
          await_chain (frames m) 0 (dom (frames m)))"

lemma launch_runs:
  fixes b :: "('w, 'v) body"
  obtains n where "root_result det b w ((machine_step ^^ n) (launch det b w))"
proof -
  have chain_dom: "S \<subseteq> dom F" if "await_chain F h S" for F :: "nat \<rightharpoonup> ('w, 'v) frame" and h S
    using that by (induction rule: await_chain.induct) auto
  have dom: "S = dom (frames m)" if "await_chain (frames m) 0 S" "\<forall>j. j \<notin> S \<longrightarrow> frames m j = frames (launch det b w) j"
    for S and m :: "('w, 'v) machine"
  proof
    show "S \<subseteq> dom (frames m)" using that(1) by (rule chain_dom)
    have "0 \<in> S" using that(1) by (auto elim: await_chain.cases)
    then show "dom (frames m) \<subseteq> S" using that(2) by (auto simp: launch_fields split: if_splits)
  qed
  from run_body [OF launch_at_body, of b det w]
  show thesis
    using that dom
    by (auto simp: root_result_def body_result_def ends_with_def suspended_in_def launch_fields split: prod.splits outcome.splits)
qed

text \<open>
  C10. The frames implement \<open>co_bind\<close>. For every body, with awaits, ring operations, throws and
  catches nested in any way, starting its task and letting the event loop run takes finitely
  many steps and then stands still, with the world the functional reading gives. If the body
  returns or throws, the frames of all awaited tasks are gone, and the promise of the task holds
  exactly that value or exception; a detached coroutine leaves no frame at all, and its
  exception has no further effect. If the body waits for a completion that does not come, the
  live frames are exactly a chain of continuations from the suspended operation to the root.
\<close>

theorem task_frames_implement_bodies:
  "\<exists>n. let m = (machine_step ^^ n) (launch det b w) in
     machine_step m = m \<and> current m = None \<and> io_world m = snd (denote b w) \<and>
     (case fst (denote b w) of
        Ret v \<Rightarrow> frames m = (if det then Map.empty
          else [0 \<mapsto> \<lparr>fr_point = FinalSuspended, pr_value = Some v, pr_exception = None,
                  pr_continuation = None, detached = False\<rparr>])
      | Throw e \<Rightarrow> frames m = (if det then Map.empty
          else [0 \<mapsto> \<lparr>fr_point = FinalSuspended, pr_value = None, pr_exception = Some e,
                  pr_continuation = None, detached = False\<rparr>])
      | Pending \<Rightarrow> await_chain (frames m) 0 (dom (frames m)))"
proof -
  obtain n where n: "root_result det b w ((machine_step ^^ n) (launch det b w))" by (rule launch_runs)
  show ?thesis
    by (rule exI [of _ n])
      (use n in \<open>auto simp: root_result_def Let_def finish_body_def task_destroy_def launch_fields machine_step_def
        split: prod.splits outcome.splits\<close>)
qed

end
