(* ===== verification/Loop_Frames.thy ===== *)
theory Loop_Frames
  imports Task_Frames Event_Loop
begin

text \<open>
  Many coroutines on one event loop. The frames of \<^verbatim>\<open>Task.hpp\<close> live on the ring of
  \<^verbatim>\<open>EngineCore.cpp\<close>: a coroutine that waits for the kernel has submitted an operation that
  carries its handle, one that waits for the thread pool is posted by a worker, and the loop
  resumes the handle it finds in a completion. This theory shows that the handles are right:
  the loop never resumes a frame that is gone or not waiting, every waiting coroutine has
  exactly one wakeup on its way, no frame is leaked, and whatever the order of the completions,
  the engine behaves as an interleaving of the functional readings of its coroutines.
\<close>

section \<open>Coroutines as resumptions\<close>

text \<open>
  What a coroutine is going to do, with the tasks it awaits folded in: it is done, or it waits
  and goes on with the outcome. What it does to the state between two waits is part of the
  completion that starts it.
\<close>

datatype ('w, 'v) resumption =
    Finished "exn + 'v"
  | Waiting wait "'w \<Rightarrow> 'v outcome \<times> 'w" "exn + 'v \<Rightarrow> ('w, 'v) resumption"

primrec then_do :: "('w, 'v) resumption \<Rightarrow> (exn + 'v \<Rightarrow> ('w, 'v) resumption) \<Rightarrow> ('w, 'v) resumption" where
  "then_do (Finished r) k = k r"
| "then_do (Waiting via ring_op c) k = Waiting via ring_op (\<lambda>x. then_do (c x) k)"

primrec reading :: "('w, 'v) body \<Rightarrow> ('w, 'v) resumption" where
  "reading (CoReturn v) = Finished (Inr v)"
| "reading (CoThrow e) = Finished (Inl e)"
| "reading (CoIO via ring_op k) = Waiting via ring_op (\<lambda>r. reading (k r))"
| "reading (CoAwait b k) = then_do (reading b) (\<lambda>r. reading (k r))"

text \<open>
  The abstract engine: detached coroutines that are still waiting, and the state they share. A
  step starts a coroutine or completes the wait of one of them; which one is up to the kernel.
\<close>

definition alive :: "('w, 'v) resumption \<Rightarrow> ('w, 'v) resumption option" where
  "alive q = (case q of Finished _ \<Rightarrow> None | Waiting _ _ _ \<Rightarrow> Some q)"

definition completed :: "'v outcome \<Rightarrow> (exn + 'v) option" where
  "completed r = (case r of Ret v \<Rightarrow> Some (Inr v) | Throw e \<Rightarrow> Some (Inl e) | Pending \<Rightarrow> None)"

type_synonym ('w, 'v) crowd = "(nat \<rightharpoonup> ('w, 'v) resumption) \<times> 'w"

inductive crowd_step :: "('w, 'v) crowd \<Rightarrow> ('w, 'v) crowd \<Rightarrow> bool" where
  spawn: "R r = None \<Longrightarrow> crowd_step (R, w) (R(r := alive (reading b)), w)"
| complete: "\<lbrakk>R r = Some (Waiting via ring_op k); ring_op w = (out, w'); completed out = Some x\<rbrakk> \<Longrightarrow>
    crowd_step (R, w) (R(r := alive (k x)), w')"

inductive crowd_reachable :: "'w \<Rightarrow> ('w, 'v) crowd \<Rightarrow> bool" for w0 where
  start: "crowd_reachable w0 (Map.empty, w0)"
| step: "crowd_reachable w0 c \<Longrightarrow> crowd_step c d \<Longrightarrow> crowd_reachable w0 d"

section \<open>The engine\<close>

text \<open>
  \<open>callers\<close> are the coroutines that have called a detached one and get the thread back when it
  waits or ends. The ways in which it could go wrong: a submission entry that is not there is dereferenced, or
  a handle is resumed whose coroutine is gone or does not wait.
\<close>

datatype fault = NullSqe | StaleHandle

record ('w, 'v) engine =
  mach :: "('w, 'v) machine"
  callers :: "nat list"
  uring :: "nat ring"
  at_pool :: "nat multiset"
  fault :: "fault option"

text \<open>
  The coroutine that has the thread runs on. One that comes to a wait has asked for a submission
  entry without checking it, or has handed its function to the pool.
\<close>

definition give_back :: "('w, 'v) engine \<Rightarrow> ('w, 'v) engine" where
  "give_back e =
     (case (current (mach e), callers e) of
        (None, p # ps) \<Rightarrow> e\<lparr>mach := (mach e)\<lparr>current := Some p\<rparr>, callers := ps\<rparr>
      | _ \<Rightarrow> e)"

definition engine_run :: "('w, 'v) engine \<Rightarrow> ('w, 'v) engine" where
  "engine_run e =
     (case current (mach e) of
        None \<Rightarrow> e
      | Some h \<Rightarrow>
          (let m = run_coroutine h (mach e) in
           case in_io m of
             None \<Rightarrow> give_back (e\<lparr>mach := m\<rparr>)
           | Some g \<Rightarrow>
               (case map_option fr_point (frames m g) of
                  Some (InIO OnPool _ _) \<Rightarrow>
                    give_back (e\<lparr>mach := m\<lparr>in_io := None\<rparr>, at_pool := add_mset g (at_pool e)\<rparr>)
                | _ \<Rightarrow>
                    if fst (io_uring_get_sqe (uring e))
                    then give_back (e\<lparr>mach := m\<lparr>in_io := None\<rparr>, uring := async_submit g (uring e)\<rparr>)
                    else e\<lparr>fault := Some NullSqe\<rparr>)))"

text \<open>
  A detached coroutine is called, by the server's start-up or by a coroutine that has the thread:
  its frame is made and it runs at once.
\<close>

definition engine_spawn :: "('w, 'v) body \<Rightarrow> ('w, 'v) engine \<Rightarrow> ('w, 'v) engine" where
  "engine_spawn b e =
     (let (h, m) = get_return_object True b (mach e) in
      e\<lparr>mach := task_start h m,
        callers := (case current (mach e) of None \<Rightarrow> callers e | Some p \<Rightarrow> p # callers e)\<rparr>)"

text \<open>
  A turn of \<^verbatim>\<open>run\<close> that gets the completion of the operation at address \<open>a\<close> and resumes the
  handle in it.
\<close>

definition waits :: "('w, 'v) machine \<Rightarrow> nat \<Rightarrow> bool" where
  "waits m h \<longleftrightarrow> (case map_option fr_point (frames m h) of Some (InIO _ _ _) \<Rightarrow> True | _ \<Rightarrow> False)"

definition op_handle :: "nat ring \<Rightarrow> nat \<Rightarrow> nat" where
  "op_handle r a = op_coroutine (the (heap r a))"

definition engine_turn :: "nat \<Rightarrow> int \<Rightarrow> ('w, 'v) engine \<Rightarrow> ('w, 'v) engine" where
  "engine_turn a res e =
     (let h = op_handle (uring e) a; e1 = e\<lparr>uring := loop_turn (Cqe a res) (uring e)\<rparr> in
      if waits (mach e) h then e1\<lparr>mach := loop_complete h (mach e)\<rparr> else e1\<lparr>fault := Some StaleHandle\<rparr>)"

text \<open>The worker that ran the function of \<open>h\<close> posts it.\<close>

definition worker_post :: "nat \<Rightarrow> ('w, 'v) engine \<Rightarrow> ('w, 'v) engine" where
  "worker_post h e = e\<lparr>uring := post_coroutine h (uring e), at_pool := at_pool e - {#h#}\<rparr>"

text \<open>The kernel has not yet completed what the coroutine waits for.\<close>

definition outstanding :: "('w, 'v) machine \<Rightarrow> nat \<Rightarrow> bool" where
  "outstanding m h \<longleftrightarrow>
     (case map_option fr_point (frames m h) of
        Some (InIO _ ring_op _) \<Rightarrow> completed (fst (ring_op (io_world m))) = None
      | _ \<Rightarrow> False)"

inductive engine_step :: "('w, 'v) engine \<Rightarrow> ('w, 'v) engine \<Rightarrow> bool" where
  run: "fault e = None \<Longrightarrow> current (mach e) = Some h \<Longrightarrow> engine_step e (engine_run e)"
| spawn: "fault e = None \<Longrightarrow> engine_step e (engine_spawn b e)"
| turn: "\<lbrakk>fault e = None; current (mach e) = None; lp_running (uring e); \<not> g_signal_received (uring e);
      a \<in> set (in_flight (drain_pending_posts (uring e))); \<not> outstanding (mach e) (op_handle (uring e) a)\<rbrakk> \<Longrightarrow>
    engine_step e (engine_turn a res e)"
| post: "fault e = None \<Longrightarrow> h \<in># at_pool e \<Longrightarrow> engine_step e (worker_post h e)"
| interrupted: "fault e = None \<Longrightarrow> current (mach e) = None \<Longrightarrow>
    engine_step e (e\<lparr>uring := loop_turn WaitError (uring e)\<rparr>)"
| enter: "fault e = None \<Longrightarrow> \<not> lp_running (uring e) \<Longrightarrow> engine_step e (e\<lparr>uring := run_enter (uring e)\<rparr>)"
| room: "fault e = None \<Longrightarrow> engine_step e (e\<lparr>uring := (uring e)\<lparr>sq_room := sq_room (uring e) @ bs\<rparr>\<rparr>)"
| signal: "fault e = None \<Longrightarrow> engine_step e (e\<lparr>uring := signal_handler (uring e)\<rparr>)"
| stop: "fault e = None \<Longrightarrow> engine_step e (e\<lparr>uring := stop_loop (uring e)\<rparr>)"

definition new_engine :: "'w \<Rightarrow> ('w, 'v) engine" where
  "new_engine w =
     \<lparr>mach = \<lparr>frames = Map.empty, next_frame = 0, current = None, in_io = None, io_world = w\<rparr>,
      callers = [], uring = empty_ring, at_pool = {#}, fault = None\<rparr>"

inductive engine_reachable :: "'w \<Rightarrow> ('w, 'v) engine \<Rightarrow> bool" for w0 where
  start: "engine_reachable w0 (new_engine w0)"
| step: "engine_reachable w0 e \<Longrightarrow> engine_step e e' \<Longrightarrow> engine_reachable w0 e'"

section \<open>Chains of frames\<close>

text \<open>
  The frames from \<open>h\<close> up to its root \<open>r\<close>, each named by the one below as its continuation, and
  what they are going to do with the outcome of \<open>h\<close>.
\<close>

inductive upwards ::
    "(nat \<rightharpoonup> ('w, 'v) frame) \<Rightarrow> nat \<Rightarrow> nat \<Rightarrow> nat set \<Rightarrow> (('w, 'v) resumption \<Rightarrow> ('w, 'v) resumption) \<Rightarrow> bool"
    for F where
  root: "F r = Some f \<Longrightarrow> detached f \<Longrightarrow> upwards F r r {r} (\<lambda>q. q)"
| up: "\<lbrakk>F h = Some f; \<not> detached f; pr_exception f = None; pr_continuation f = Some p;
      F p = Some g; fr_point g = Awaiting h k; upwards F p r S K; h \<notin> S\<rbrakk> \<Longrightarrow>
    upwards F h r (insert h S) (\<lambda>q. K (then_do q (\<lambda>x. reading (k x))))"

definition result_of :: "('w, 'v) frame \<Rightarrow> exn + 'v" where
  "result_of g = (case pr_exception g of Some e \<Rightarrow> Inl e | None \<Rightarrow> Inr (the (pr_value g)))"

text \<open>A chain whose lowest frame waits, and one whose lowest frame has the thread.\<close>

definition suspended_at :: "(nat \<rightharpoonup> ('w, 'v) frame) \<Rightarrow> nat \<Rightarrow> nat \<Rightarrow> nat set \<Rightarrow> ('w, 'v) resumption \<Rightarrow> bool" where
  "suspended_at F h r S q \<longleftrightarrow>
     (\<exists>f K via ring_op k. upwards F h r S K \<and> F h = Some f \<and> fr_point f = InIO via ring_op k \<and>
        q = K (Waiting via ring_op (\<lambda>x. reading (k x))))"

definition runs_body :: "(nat \<rightharpoonup> ('w, 'v) frame) \<Rightarrow> nat \<Rightarrow> nat \<Rightarrow> nat set \<Rightarrow> ('w, 'v) resumption \<Rightarrow> bool" where
  "runs_body F h r S q \<longleftrightarrow>
     (\<exists>f K b. upwards F h r S K \<and> F h = Some f \<and> fr_point f = At b \<and> q = K (reading b))"

definition takes_result :: "(nat \<rightharpoonup> ('w, 'v) frame) \<Rightarrow> nat \<Rightarrow> nat \<Rightarrow> nat set \<Rightarrow> ('w, 'v) resumption \<Rightarrow> bool" where
  "takes_result F h r S q \<longleftrightarrow>
     (\<exists>f K c k g T. upwards F h r T K \<and> S = insert c T \<and> c \<notin> T \<and> F h = Some f \<and> fr_point f = Awaiting c k \<and>
        F c = Some g \<and> fr_point g = FinalSuspended \<and> q = K (reading (k (result_of g))))"

definition running_at :: "(nat \<rightharpoonup> ('w, 'v) frame) \<Rightarrow> nat \<Rightarrow> nat \<Rightarrow> nat set \<Rightarrow> ('w, 'v) resumption \<Rightarrow> bool" where
  "running_at F h r S q \<longleftrightarrow> runs_body F h r S q \<or> takes_result F h r S q"

lemma upwards_dom: "upwards F h r S K \<Longrightarrow> h \<in> S \<and> r \<in> S \<and> S \<subseteq> dom F"
  by (induction rule: upwards.induct) auto

lemma upwards_cong: "upwards F h r S K \<Longrightarrow> \<forall>i \<in> S. F' i = F i \<Longrightarrow> upwards F' h r S K"
proof (induction rule: upwards.induct)
  case (root r f)
  then show ?case by (auto intro: upwards.root)
next
  case (up h f p g k r S K)
  then have "p \<in> S" using upwards_dom by blast
  with up show ?case by (intro upwards.up) auto
qed

text \<open>Where the lowest frame itself is does not matter to the frames above it.\<close>

lemma upwards_point:
  assumes "upwards F h r S K" "F h = Some f" "\<forall>i \<in> S - {h}. F' i = F i" "F' h = Some (f\<lparr>fr_point := q\<rparr>)"
  shows "upwards F' h r S K"
  using assms(1)
proof (cases rule: upwards.cases)
  case (root f')
  with assms show ?thesis by (auto intro: upwards.root)
next
  case (up f' p g k T K')
  have "upwards F' p r T K'" using up(9,10) assms(3) up(1) by (intro upwards_cong [OF up(9)]) auto
  moreover have "p \<in> T" using upwards_dom [OF up(9)] by blast
  ultimately show ?thesis
    using up assms(2-4) by (auto intro!: upwards.up [where p = p and g = g])
qed

lemma chain_dom:
  "suspended_at F h r S q \<Longrightarrow> h \<in> S \<and> r \<in> S \<and> S \<subseteq> dom F"
  "running_at F h r S q \<Longrightarrow> h \<in> S \<and> r \<in> S \<and> S \<subseteq> dom F"
  unfolding suspended_at_def running_at_def runs_body_def takes_result_def using upwards_dom by fastforce+

lemma suspended_cong: "suspended_at F h r S q \<Longrightarrow> \<forall>i \<in> S. F' i = F i \<Longrightarrow> suspended_at F' h r S q"
  unfolding suspended_at_def using upwards_cong upwards_dom by (metis (no_types, lifting))

lemma running_cong:
  assumes "running_at F h r S q" "\<forall>i \<in> S. F' i = F i"
  shows "running_at F' h r S q"
  using assms(1) unfolding running_at_def
proof
  assume "runs_body F h r S q"
  then have "runs_body F' h r S q" unfolding runs_body_def using assms(2) upwards_cong upwards_dom by (metis (no_types, lifting))
  then show "runs_body F' h r S q \<or> takes_result F' h r S q" ..
next
  assume "takes_result F h r S q"
  then obtain f K c k g T where c: "upwards F h r T K" "S = insert c T" "c \<notin> T" "F h = Some f" "fr_point f = Awaiting c k"
      "F c = Some g" "fr_point g = FinalSuspended" "q = K (reading (k (result_of g)))"
    unfolding takes_result_def by blast
  have "upwards F' h r T K" using upwards_cong [OF c(1)] assms(2) c(2) by simp
  moreover have "F' h = Some f" "F' c = Some g" using assms(2) c upwards_dom [OF c(1)] by auto
  ultimately have "takes_result F' h r S q" unfolding takes_result_def using c by blast
  then show "runs_body F' h r S q \<or> takes_result F' h r S q" ..
qed

section \<open>The chains of an engine\<close>

text \<open>
  Every frame belongs to the chain of exactly one root. \<open>S\<close> gives the frames of a root, \<open>L\<close> its
  lowest one, \<open>R\<close> what the root is going to do, and \<open>T\<close> the coroutines that share the thread.
\<close>

definition chained ::
    "(nat \<rightharpoonup> ('w, 'v) resumption) \<Rightarrow> (nat \<Rightarrow> nat set) \<Rightarrow> (nat \<Rightarrow> nat) \<Rightarrow> (nat \<rightharpoonup> ('w, 'v) frame) \<Rightarrow> nat list \<Rightarrow> bool" where
  "chained R S L F T \<longleftrightarrow>
     (\<forall>r q. R r = Some q \<longrightarrow>
        (if L r \<in> set T then running_at F (L r) r (S r) q else suspended_at F (L r) r (S r) q)) \<and>
     set T \<subseteq> L ` dom R \<and> distinct T \<and>
     (\<forall>r \<in> dom R. \<forall>r' \<in> dom R. r \<noteq> r' \<longrightarrow> S r \<inter> S r' = {}) \<and> (\<Union>r \<in> dom R. S r) = dom F"

lemma chainedD:
  assumes "chained R S L F T"
  shows "R r = Some q \<Longrightarrow> L r \<in> set T \<Longrightarrow> running_at F (L r) r (S r) q"
    "R r = Some q \<Longrightarrow> L r \<notin> set T \<Longrightarrow> suspended_at F (L r) r (S r) q"
    "R r = Some q \<Longrightarrow> L r \<in> S r \<and> r \<in> S r \<and> S r \<subseteq> dom F"
    "h \<in> set T \<Longrightarrow> \<exists>r q. R r = Some q \<and> L r = h"
    "r \<in> dom R \<Longrightarrow> r' \<in> dom R \<Longrightarrow> r \<noteq> r' \<Longrightarrow> S r \<inter> S r' = {}"
    "(\<Union>r \<in> dom R. S r) = dom F" "distinct T"
proof -
  show "R r = Some q \<Longrightarrow> L r \<in> set T \<Longrightarrow> running_at F (L r) r (S r) q"
    "R r = Some q \<Longrightarrow> L r \<notin> set T \<Longrightarrow> suspended_at F (L r) r (S r) q"
    using assms unfolding chained_def by meson+
  show "h \<in> set T \<Longrightarrow> \<exists>r q. R r = Some q \<and> L r = h"
    using assms unfolding chained_def by (metis domD imageE subsetD)
  show "r \<in> dom R \<Longrightarrow> r' \<in> dom R \<Longrightarrow> r \<noteq> r' \<Longrightarrow> S r \<inter> S r' = {}"
    "(\<Union>r \<in> dom R. S r) = dom F" "distinct T"
    using assms unfolding chained_def by auto
  show "R r = Some q \<Longrightarrow> L r \<in> S r \<and> r \<in> S r \<and> S r \<subseteq> dom F"
    using assms chain_dom unfolding chained_def by meson
qed

text \<open>What happens to the chain of one root leaves the others alone.\<close>

lemma chained_other:
  assumes C: "chained R S L F T0" "R r = Some q" "T0 = T \<or> T0 = L r # T"
    and F': "\<forall>i \<in> dom F - S r. F' i = F i"
    and r': "R r' = Some q'" "r' \<noteq> r"
  shows "if L r' \<in> set T then running_at F' (L r') r' (S r') q' else suspended_at F' (L r') r' (S r') q'"
    and "S r' \<subseteq> dom F - S r" "L r' \<in> dom F - S r"
proof -
  note D = chainedD [OF C(1)]
  have s: "S r' \<inter> S r = {}" using D(5) [of r' r] C(2) r' by auto
  have i: "L r' \<in> S r'" "S r' \<subseteq> dom F" "L r \<in> S r" using D(3) [OF r'(1)] D(3) [OF C(2)] by auto
  then show sub: "S r' \<subseteq> dom F - S r" "L r' \<in> dom F - S r" using s by auto
  have eq: "\<forall>i \<in> S r'. F' i = F i" using sub(1) F' by auto
  have "L r' \<noteq> L r" using i s by auto
  then have "L r' \<in> set T0 \<longleftrightarrow> L r' \<in> set T" using C(3) by auto
  then show "if L r' \<in> set T then running_at F' (L r') r' (S r') q' else suspended_at F' (L r') r' (S r') q'"
    using D(1,2) [OF r'(1)] running_cong suspended_cong eq by (metis (full_types))
qed

lemma chained_thread:
  assumes "chained R S L F T0" "R r = Some q" "T0 = T \<and> L r \<notin> set T \<or> T0 = L r # T" "h \<in> set T"
  shows "h \<in> dom F - S r \<and> h \<in> L ` (dom R - {r})"
proof -
  note D = chainedD [OF assms(1)]
  have "h \<in> set T0" "h \<noteq> L r" using assms(3,4) D(7) by auto
  then obtain r' q' where "R r' = Some q'" "L r' = h" "r' \<noteq> r" using D(4) by blast
  then show ?thesis
    using chained_other(3) [OF assms(1,2), of T F r' q'] assms(3) by auto
qed

lemma chained_rest:
  assumes "chained R S L F T" "R r = Some q"
  shows "(\<Union>a \<in> dom R - {r}. S a) = dom F - S r"
proof -
  note D = chainedD [OF assms(1)]
  have "dom R = insert r (dom R - {r})" using assms(2) by auto
  then have u: "dom F = S r \<union> (\<Union>a \<in> dom R - {r}. S a)" using D(6) by (metis UN_insert)
  have "(\<Union>a \<in> dom R - {r}. S a) \<inter> S r = {}" using D(5) [of _ r] assms(2) by blast
  then show ?thesis unfolding u by (simp only: Un_Diff Diff_cancel Diff_triv Un_empty_left)
qed

text \<open>The chain of \<open>r\<close> goes on to another state.\<close>

lemma chained_replace:
  assumes C: "chained R S L F T0" "R r = Some q" "T0 = T \<and> L r \<notin> set T \<or> T0 = L r # T"
    and F': "\<forall>i \<in> dom F - S r. F' i = F i" "S' \<inter> (dom F - S r) = {}" "dom F' = dom F - S r \<union> S'"
    and new: "running_at F' h r S' q' \<and> T' = h # T \<or> suspended_at F' h r S' q' \<and> T' = T"
  shows "chained (R(r \<mapsto> q')) (S(r := S')) (L(r := h)) F' T'"
proof -
  note D = chainedD [OF C(1)]
  have T0: "T0 = T \<or> T0 = L r # T" using C(3) by blast
  note O = chained_other [OF C(1,2) T0 F'(1)]
  have h: "h \<in> S'" using new chain_dom by blast
  have hT: "h \<notin> set T" using chained_thread [OF C] h F'(2) by blast
  have LT': "L r' \<in> set T' \<longleftrightarrow> L r' \<in> set T" if "R r' = Some q'" "r' \<noteq> r" for r' q'
    using O(3) [OF that] new h F'(2) by auto
  have "(if (L(r := h)) r' \<in> set T' then running_at F' ((L(r := h)) r') r' ((S(r := S')) r') x
      else suspended_at F' ((L(r := h)) r') r' ((S(r := S')) r') x)" if "(R(r \<mapsto> q')) r' = Some x" for r' x
    using that new hT O(1) LT' by (cases "r' = r") auto
  moreover have "set T' \<subseteq> (L(r := h)) ` dom (R(r \<mapsto> q'))" "distinct T'"
    using chained_thread [OF C] new hT D(7) C(3) by fastforce+
  moreover have "(S(r := S')) a \<inter> (S(r := S')) b = {}" if "a \<in> dom (R(r \<mapsto> q'))" "b \<in> dom (R(r \<mapsto> q'))" "a \<noteq> b" for a b
    using that D(5) O(2) F'(2) by (auto split: if_splits) blast+
  moreover have "(\<Union>a \<in> dom (R(r \<mapsto> q')). (S(r := S')) a) = dom F'"
  proof -
    have "(\<Union>a \<in> dom (R(r \<mapsto> q')). (S(r := S')) a) = S' \<union> (\<Union>a \<in> dom R - {r}. S a)" by auto
    then show ?thesis using F'(3) chained_rest [OF C(1,2)] by (simp only: Un_commute)
  qed
  ultimately show ?thesis unfolding chained_def by meson
qed

text \<open>The chain of \<open>r\<close> ends, and one for a new root begins.\<close>

lemma chained_remove:
  assumes C: "chained R S L F (L r # T)" "R r = Some q"
    and F': "\<forall>i \<in> dom F - S r. F' i = F i" "dom F' = dom F - S r"
  shows "chained (R(r := None)) S L F' T"
proof -
  note D = chainedD [OF C(1)]
  note O = chained_other [OF C(1,2) _ F'(1), of T, simplified]
  have "set T \<subseteq> L ` dom (R(r := None))" "distinct T"
    using chained_thread [OF C, of T] D(7) by auto
  moreover have "(\<Union>a \<in> dom (R(r := None)). S a) = dom F'"
    using chained_rest [OF C] F'(2) by simp
  moreover have "if L r' \<in> set T then running_at F' (L r') r' (S r') x else suspended_at F' (L r') r' (S r') x"
    if "(R(r := None)) r' = Some x" for r' x
    using that O(1) by (cases "r' = r") auto
  ultimately show ?thesis using D(5) unfolding chained_def by auto
qed

lemma chained_spawn:
  assumes C: "chained R S L F T" and r: "r \<notin> dom F" and f: "fr_point f = At b" "detached f"
  shows "chained (R(r \<mapsto> reading b)) (S(r := {r})) (L(r := r)) (F(r \<mapsto> f)) (r # T)"
proof -
  note D = chainedD [OF C]
  have R: "R r = None" using D(3) r by fastforce
  have sub: "S a \<subseteq> dom F" "L a \<in> dom F" "a \<noteq> r" if "R a = Some q" for a q
    using D(3) [OF that] r by blast+
  have ch: "if L a \<in> set T then running_at (F(r \<mapsto> f)) (L a) a (S a) q else suspended_at (F(r \<mapsto> f)) (L a) a (S a) q"
    if "R a = Some q" for a q
    using D(1,2) [OF that] sub(1) [OF that] r running_cong suspended_cong by (smt (verit) fun_upd_other in_mono)
  have "upwards (F(r \<mapsto> f)) r r {r} (\<lambda>q. q)" by (rule upwards.root) (use f in auto)
  then have new: "running_at (F(r \<mapsto> f)) r r {r} (reading b)"
    unfolding running_at_def runs_body_def using f by fastforce
  have T: "set T \<subseteq> dom F" using D(4) sub(2) by blast
  have LT: "L a \<in> set (r # T) \<longleftrightarrow> L a \<in> set T" if "R a = Some q" for a q using sub(2) [OF that] r by auto
  have "if (L(r := r)) a \<in> set (r # T) then running_at (F(r \<mapsto> f)) ((L(r := r)) a) a ((S(r := {r})) a) q
      else suspended_at (F(r \<mapsto> f)) ((L(r := r)) a) a ((S(r := {r})) a) q" if "(R(r \<mapsto> reading b)) a = Some q" for a q
    using that new ch LT by (cases "a = r") auto
  moreover have "set (r # T) \<subseteq> (L(r := r)) ` dom (R(r \<mapsto> reading b))"
    using D(4) R by (fastforce simp: image_iff)
  moreover have "distinct (r # T)" using D(7) T r by auto
  moreover have "(S(r := {r})) a \<inter> (S(r := {r})) b' = {}"
    if "a \<in> dom (R(r \<mapsto> reading b))" "b' \<in> dom (R(r \<mapsto> reading b))" "a \<noteq> b'" for a b'
    using that D(5) sub(1) r by (auto split: if_splits) blast+
  moreover have "(\<Union>a \<in> dom (R(r \<mapsto> reading b)). (S(r := {r})) a) = dom (F(r \<mapsto> f))"
  proof -
    have "(\<Union>a \<in> dom (R(r \<mapsto> reading b)). (S(r := {r})) a) = {r} \<union> (\<Union>a \<in> dom R. (S(r := {r})) a)" by auto
    also have "(\<Union>a \<in> dom R. (S(r := {r})) a) = (\<Union>a \<in> dom R. S a)"
      using R by (intro SUP_cong) auto
    also note D(6)
    also have "{r} \<union> dom F = dom (F(r \<mapsto> f))" by simp
    finally show ?thesis .
  qed
  ultimately show ?thesis unfolding chained_def by meson
qed

section \<open>A run of the thread\<close>

definition on_thread :: "('w, 'v) machine \<Rightarrow> nat list" where
  "on_thread m = (case current m of None \<Rightarrow> [] | Some h \<Rightarrow> [h])"

definition fresh_ok :: "('w, 'v) machine \<Rightarrow> bool" where
  "fresh_ok m \<longleftrightarrow> (\<forall>i \<ge> next_frame m. frames m i = None)"

text \<open>The roots as the abstract engine sees them.\<close>

definition crowd_of :: "(nat \<rightharpoonup> ('w, 'v) resumption) \<Rightarrow> nat \<rightharpoonup> ('w, 'v) resumption" where
  "crowd_of R r = Option.bind (R r) alive"

lemma crowd_of_upd: "crowd_of (R(r := x)) = (crowd_of R)(r := Option.bind x alive)"
  by (auto simp: crowd_of_def)

lemma crowd_of_empty [simp]: "crowd_of Map.empty = Map.empty"
  by (simp add: crowd_of_def fun_eq_iff)

lemma crowd_of_same: "R r = Some q \<Longrightarrow> crowd_of (R(r \<mapsto> q)) = crowd_of R"
  by (auto simp: crowd_of_def)

lemma waits_iff: "waits m h \<longleftrightarrow> (\<exists>f via ring_op k. frames m h = Some f \<and> fr_point f = InIO via ring_op k)"
  by (auto simp: waits_def split: option.splits point.splits)

lemma finish_body_result:
  assumes "frames m h = Some f" "\<not> detached f" "pr_exception f = None"
  obtains f' where "finish_body h x m = m\<lparr>frames := (frames m)(h \<mapsto> f'), current := pr_continuation f\<rparr>"
    "fr_point f' = FinalSuspended" "result_of f' = x"
  using assms by (cases x) (auto simp: finish_body_def result_of_def)

text \<open>
  What a run of the coroutine \<open>h\<close> does to the machine: the chains stay chains, what the roots
  are going to do stays the same, and the only new wait is its own.
\<close>

definition ran :: "(nat \<rightharpoonup> ('w, 'v) resumption) \<Rightarrow> nat list \<Rightarrow> nat \<Rightarrow> ('w, 'v) machine \<Rightarrow> ('w, 'v) machine \<Rightarrow> bool" where
  "ran R T h m m' \<longleftrightarrow> (\<exists>R' S L. chained R' S L (frames m') (on_thread m' @ T) \<and> crowd_of R' = crowd_of R) \<and>
     fresh_ok m' \<and> io_world m' = io_world m \<and>
     (in_io m' = None \<and> waits m' = waits m \<or>
      in_io m' = Some h \<and> current m' = None \<and> \<not> waits m h \<and> waits m' = (waits m)(h := True))"

lemma ran_finish:
  assumes C: "chained R S L (frames m) (h # T)" and m: "fresh_ok m" "in_io m = None"
    and h: "R r = Some q" "L r = h" "upwards (frames m) h r (S r) K" "frames m h = Some f" "fr_point f = At b"
    and q: "q = K (Finished x)"
  shows "ran R T h m (finish_body h x m)"
  using h(3)
proof (cases rule: upwards.cases)
  case (root g)
  have fin: "finish_body h x m = (task_destroy h m)\<lparr>current := None\<rparr>"
    using root h(4) by (simp add: finish_body_def)
  have "chained (R(r := None)) S L ((frames m)(h := None)) T"
    by (rule chained_remove [where r = r and q = q]) (use C h(1,2) root in auto)
  moreover have "crowd_of (R(r := None)) = crowd_of R"
    using h(1) q root by (auto simp: crowd_of_def alive_def fun_eq_iff)
  moreover have "waits (finish_body h x m) = waits m"
    using h(4,5) by (auto simp: fin waits_def fun_eq_iff task_destroy_def)
  ultimately show ?thesis
    using m unfolding ran_def by (auto simp: fin on_thread_def task_destroy_def fresh_ok_def)
next
  case (up g p gp k U K')
  let ?F = "frames m"
  have f: "\<not> detached f" "pr_exception f = None" "pr_continuation f = Some p" using up h(4) by auto
  obtain f' where f': "finish_body h x m = m\<lparr>frames := ?F(h \<mapsto> f'), current := pr_continuation f\<rparr>"
      "fr_point f' = FinalSuspended" "result_of f' = x"
    using finish_body_result [OF h(4) f(1,2)] by blast
  have U: "upwards (?F(h \<mapsto> f')) p r U K'" using up by (intro upwards_cong [OF up(9)]) auto
  have p: "p \<noteq> h" using up upwards_dom [OF up(9)] by auto
  have "running_at (?F(h \<mapsto> f')) p r (S r) q"
    unfolding running_at_def takes_result_def
    using U up p f'(2,3) q by (intro disjI2 exI [of _ gp] exI [of _ K'] exI [of _ h] exI [of _ k] exI [of _ f'] exI [of _ U]) auto
  then have "chained (R(r \<mapsto> q)) (S(r := S r)) (L(r := p)) (?F(h \<mapsto> f')) (p # T)"
    using C h chain_dom
    by (intro chained_replace [OF C h(1), where T = T]) (use chainedD(3) [OF C h(1)] in auto)
  moreover have "waits (finish_body h x m) = waits m"
    using h(4,5) f'(2) by (auto simp: f'(1) waits_def fun_eq_iff)
  ultimately show ?thesis
    using m f h(1,4) crowd_of_same [of R r q, OF h(1)] unfolding ran_def
    by (auto simp: f'(1) on_thread_def fresh_ok_def intro!: exI [of _ "R(r \<mapsto> q)"])
qed

lemma ran_wait:
  assumes C: "chained R S L (frames m) (h # T)" and m: "fresh_ok m" "in_io m = None"
    and h: "R r = Some q" "L r = h" "upwards (frames m) h r (S r) K" "frames m h = Some f" "fr_point f = At (CoIO via ring_op k)"
    and q: "q = K (reading (CoIO via ring_op k))"
  shows "ran R T h m (run_coroutine h m)"
proof -
  let ?f = "f\<lparr>fr_point := InIO via ring_op k\<rparr>" and ?F = "frames m"
  have run: "run_coroutine h m = m\<lparr>frames := ?F(h \<mapsto> ?f), current := None, in_io := Some h\<rparr>"
    using h(4,5) by (simp add: run_coroutine_def upd_frame_def)
  have "upwards (?F(h \<mapsto> ?f)) h r (S r) K" by (rule upwards_point [OF h(3,4)]) auto
  then have "suspended_at (?F(h \<mapsto> ?f)) h r (S r) q"
    unfolding suspended_at_def using q by fastforce
  then have "chained (R(r \<mapsto> q)) (S(r := S r)) (L(r := h)) (?F(h \<mapsto> ?f)) T"
    using C h by (intro chained_replace [OF C h(1), where T = T]) (use chainedD(3) [OF C h(1)] in auto)
  moreover have "waits (run_coroutine h m) = (waits m)(h := True)" "\<not> waits m h"
    using h(4,5) by (auto simp: run waits_def fun_eq_iff)
  ultimately show ?thesis
    using m h(4) crowd_of_same [of R r q, OF h(1)] unfolding ran_def
    by (auto simp: run on_thread_def fresh_ok_def intro!: exI [of _ "R(r \<mapsto> q)"])
qed

lemma ran_await:
  assumes C: "chained R S L (frames m) (h # T)" and m: "fresh_ok m" "in_io m = None"
    and h: "R r = Some q" "L r = h" "upwards (frames m) h r (S r) K" "frames m h = Some f" "fr_point f = At (CoAwait b k)"
    and q: "q = K (reading (CoAwait b k))"
  shows "ran R T h m (run_coroutine h m)"
proof -
  let ?c = "next_frame m" and ?F = "frames m" and ?f = "f\<lparr>fr_point := Awaiting (next_frame m) k\<rparr>"
  let ?g = "\<lparr>fr_point = At b, pr_value = None, pr_exception = None, pr_continuation = Some h, detached = False\<rparr>"
  have c: "?F ?c = None" "?c \<noteq> h" "?c \<notin> S r"
    using m(1) h(4) upwards_dom [OF h(3)] by (auto simp: fresh_ok_def)
  let ?F1 = "?F(h \<mapsto> ?f, ?c \<mapsto> ?g)"
  have run: "run_coroutine h m = m\<lparr>frames := ?F1, next_frame := Suc ?c, current := Some ?c\<rparr>"
    using h(4,5) c by (simp add: run_coroutine_def get_return_object_def task_await_suspend_def upd_frame_def fun_upd_twist)
  have "upwards ?F1 h r (S r) K" using c by (intro upwards_point [OF h(3,4)]) auto
  from upwards.up [OF _ _ _ _ _ _ this, of ?c ?g ?f k]
  have "upwards ?F1 ?c r (insert ?c (S r)) (\<lambda>q. K (then_do q (\<lambda>x. reading (k x))))"
    using c by simp
  then have "running_at ?F1 ?c r (insert ?c (S r)) q"
    unfolding running_at_def runs_body_def using q by fastforce
  then have "chained (R(r \<mapsto> q)) (S(r := insert ?c (S r))) (L(r := ?c)) ?F1 (?c # T)"
    using C h c by (intro chained_replace [OF C h(1), where T = T]) (use chainedD(3) [OF C h(1)] in auto)
  moreover have "waits (run_coroutine h m) = waits m"
    using h(4,5) c by (auto simp: run waits_def fun_eq_iff)
  ultimately show ?thesis
    using m h(4) crowd_of_same [of R r q, OF h(1)] c unfolding ran_def
    by (auto simp: run on_thread_def fresh_ok_def intro!: exI [of _ "R(r \<mapsto> q)"])
qed

lemma ran_take:
  assumes C: "chained R S L (frames m) (h # T)" and m: "fresh_ok m" "in_io m = None" "current m = Some h"
    and h: "R r = Some q" "L r = h" "takes_result (frames m) h r (S r) q"
  shows "ran R T h m (run_coroutine h m)"
proof -
  let ?F = "frames m"
  obtain f K c k g U where c: "upwards ?F h r U K" "S r = insert c U" "c \<notin> U" "?F h = Some f" "fr_point f = Awaiting c k"
      "?F c = Some g" "fr_point g = FinalSuspended" "q = K (reading (k (result_of g)))"
    using h(3) unfolding takes_result_def by blast
  let ?f = "f\<lparr>fr_point := At (k (result_of g))\<rparr>"
  have hc: "h \<noteq> c" using c upwards_dom [OF c(1)] by auto
  have run: "run_coroutine h m = m\<lparr>frames := ?F(h \<mapsto> ?f, c := None)\<rparr>"
    using c by (simp add: run_coroutine_def upd_frame_def task_destroy_def task_await_resume_def result_of_def split: option.split)
  have "upwards (?F(h \<mapsto> ?f, c := None)) h r U K" using c hc by (intro upwards_point [OF c(1,4)]) auto
  then have "running_at (?F(h \<mapsto> ?f, c := None)) h r U q"
    unfolding running_at_def runs_body_def using c(8) hc by fastforce
  then have "chained (R(r \<mapsto> q)) (S(r := U)) (L(r := h)) (?F(h \<mapsto> ?f, c := None)) (h # T)"
    using C h(1,2) c(2,3) upwards_dom [OF c(1)] hc
    by (intro chained_replace [OF C h(1), where T = T]) (use chainedD(3) [OF C h(1)] in auto)
  moreover have "waits (run_coroutine h m) = waits m"
    using c hc by (auto simp: run waits_def fun_eq_iff)
  ultimately show ?thesis
    using m c(4) crowd_of_same [of R r q, OF h(1)] unfolding ran_def
    by (auto simp: run on_thread_def fresh_ok_def intro!: exI [of _ "R(r \<mapsto> q)"])
qed

lemma run_coroutine_ran:
  assumes C: "chained R S L (frames m) (h # T)" and m: "fresh_ok m" "in_io m = None" "current m = Some h"
  shows "ran R T h m (run_coroutine h m)"
proof -
  obtain r q where r: "R r = Some q" "L r = h" using chainedD(4) [OF C, of h] by auto
  then have "running_at (frames m) h r (S r) q" using chainedD(1) [OF C r(1)] by simp
  then consider "runs_body (frames m) h r (S r) q" | "takes_result (frames m) h r (S r) q"
    unfolding running_at_def by blast
  then show ?thesis
  proof cases
    case 1
    then obtain f K b where b: "upwards (frames m) h r (S r) K" "frames m h = Some f" "fr_point f = At b" "q = K (reading b)"
      unfolding runs_body_def by blast
    show ?thesis
    proof (cases b)
      case (CoReturn v)
      with ran_finish [OF C m(1,2) r b(1-3), of "Inr v"] b show ?thesis by (simp add: run_coroutine_def)
    next
      case (CoThrow x)
      with ran_finish [OF C m(1,2) r b(1-3), of "Inl x"] b show ?thesis by (simp add: run_coroutine_def)
    next
      case (CoIO via ring_op k)
      with ran_wait [OF C m(1,2) r b(1,2)] b show ?thesis by simp
    next
      case (CoAwait b' k)
      with ran_await [OF C m(1,2) r b(1,2)] b show ?thesis by simp
    qed
  next
    case 2
    then show ?thesis by (rule ran_take [OF C m r])
  qed
qed

section \<open>Wakeups on their way\<close>

definition handles :: "nat ring \<Rightarrow> nat multiset" where
  "handles r = mset (map (op_handle r) (known_ops r))"

lemma handles_cong:
  assumes "heap r' = heap r" "mset (known_ops r') = mset (known_ops r)"
  shows "handles r' = handles r"
proof -
  have "op_handle r' = op_handle r" using assms(1) by (simp add: op_handle_def fun_eq_iff)
  then show ?thesis using assms(2) by (simp add: handles_def)
qed

lemma handles_drain: "handles (drain_pending_posts r) = handles r"
  using drain_shuffle [of r] by (intro handles_cong) auto

lemma handles_new:
  assumes "ring_ok r" "heap r' = (heap r)(next_addr r \<mapsto> opn)" "mset (known_ops r') = add_mset (next_addr r) (mset (known_ops r))"
  shows "handles r' = add_mset (op_coroutine opn) (handles r)"
proof -
  have "next_addr r \<notin> set (known_ops r)" using ring_okD(2,3) [OF assms(1)] by auto
  then have "image_mset (op_handle r') (mset (known_ops r)) = image_mset (op_handle r) (mset (known_ops r))"
    using assms(2) by (intro image_mset_cong) (auto simp: op_handle_def)
  moreover have "op_handle r' (next_addr r) = op_coroutine opn" using assms(2) by (simp add: op_handle_def)
  ultimately show ?thesis using assms(3) by (simp add: handles_def)
qed

lemma handles_submit: "ring_ok r \<Longrightarrow> handles (async_submit g r) = add_mset g (handles r)"
  by (subst handles_new [where r = r and opn = "\<lparr>op_coroutine = g, cqe_res = 0, op_owned = False\<rparr>"])
    (auto simp: async_submit_def new_op_def submit_def io_uring_get_sqe_def known_ops_def split: list.split)

lemma handles_post: "ring_ok r \<Longrightarrow> handles (post_coroutine g r) = add_mset g (handles r)"
  by (subst handles_new [where r = r and opn = "\<lparr>op_coroutine = g, cqe_res = 0, op_owned = True\<rparr>"])
    (auto simp: post_coroutine_def new_op_def submit_def io_uring_get_sqe_def known_ops_def split: list.split)

lemma handles_dispatch:
  assumes "ring_ok r" "a \<in> set (in_flight r)"
  shows "handles r = add_mset (op_handle r a) (handles (dispatch a res r))"
proof -
  have "a \<in> dom (heap r)" using ring_okD(2) [OF assms(1)] assms(2) by (auto simp: known_ops_def)
  then obtain opn where opn: "heap r a = Some opn" by blast
  have k: "known_ops (dispatch a res r) = remove1 a (known_ops r)"
    using opn assms(2) by (simp add: dispatch_def known_ops_def remove1_append)
  have a: "a \<notin> set (remove1 a (known_ops r))" using ring_okD(1) [OF assms(1)] by simp
  have same: "op_handle (dispatch a res r) i = op_handle r i" if "i \<noteq> a" for i
    using opn that by (simp add: dispatch_def op_handle_def)
  have "handles (dispatch a res r) = image_mset (op_handle r) (mset (remove1 a (known_ops r)))"
    unfolding handles_def k mset_map
  proof (rule image_mset_cong)
    fix i assume "i \<in># mset (remove1 a (known_ops r))"
    then have "i \<noteq> a" using a by (metis set_mset_mset)
    then show "op_handle (dispatch a res r) i = op_handle r i" by (rule same)
  qed
  moreover have s: "mset (known_ops r) = add_mset a (mset (remove1 a (known_ops r)))"
    using assms(2) by (simp add: known_ops_def)
  have "handles r = add_mset (op_handle r a) (image_mset (op_handle r) (mset (remove1 a (known_ops r))))"
    unfolding handles_def mset_map by (subst s) (rule image_mset_add_mset)
  ultimately show ?thesis by metis
qed

section \<open>The invariant\<close>

definition engine_ok :: "(nat \<rightharpoonup> ('w, 'v) resumption) \<Rightarrow> ('w, 'v) engine \<Rightarrow> bool" where
  "engine_ok R e \<longleftrightarrow> (\<exists>S L. chained R S L (frames (mach e)) (on_thread (mach e) @ callers e)) \<and>
     fresh_ok (mach e) \<and> in_io (mach e) = None \<and> (current (mach e) = None \<longrightarrow> callers e = []) \<and>
     ring_ok (uring e) \<and> handles (uring e) + at_pool e = mset_set {h. waits (mach e) h}"

lemma engine_okD:
  assumes "engine_ok R e"
  shows "\<exists>S L. chained R S L (frames (mach e)) (on_thread (mach e) @ callers e)" "fresh_ok (mach e)"
    "in_io (mach e) = None" "current (mach e) = None \<Longrightarrow> callers e = []" "ring_ok (uring e)"
    "handles (uring e) + at_pool e = mset_set {h. waits (mach e) h}"
  using assms by (auto simp: engine_ok_def)

lemma finite_waits: "fresh_ok m \<Longrightarrow> finite {h. waits m h}"
proof -
  assume "fresh_ok m"
  then have "{h. waits m h} \<subseteq> {..<next_frame m}" by (force simp: fresh_ok_def waits_iff not_le)
  then show ?thesis by (rule finite_subset) simp
qed

text \<open>Steps of the ring that move no handles.\<close>

lemma engine_ok_ring:
  assumes "engine_ok R e" "ring_ok r" "handles r = handles (uring e)"
  shows "engine_ok R (e\<lparr>uring := r\<rparr>)"
  using assms by (auto simp: engine_ok_def)

lemma engine_ok_give_back:
  assumes "\<exists>S L. chained R S L (frames (mach e)) (on_thread (mach e) @ callers e)" "fresh_ok (mach e)"
    and "in_io (mach e) = None" "ring_ok (uring e)" "handles (uring e) + at_pool e = mset_set {h. waits (mach e) h}"
  shows "engine_ok R (give_back e) \<and> fault (give_back e) = fault e \<and> io_world (mach (give_back e)) = io_world (mach e)"
proof -
  have w: "waits (m\<lparr>current := x\<rparr>) = waits m" for x and m :: "('w, 'v) machine" by (simp add: waits_def fun_eq_iff)
  show ?thesis
    using assms unfolding give_back_def engine_ok_def
    by (cases "current (mach e)"; cases "callers e") (simp_all add: on_thread_def fresh_ok_def w)
qed

lemma engine_run_ok:
  assumes ok: "engine_ok R e" "fault e = None" "current (mach e) = Some h"
  shows "fault (engine_run e) = Some NullSqe \<or>
    fault (engine_run e) = None \<and> io_world (mach (engine_run e)) = io_world (mach e) \<and>
    (\<exists>R'. engine_ok R' (engine_run e) \<and> crowd_of R' = crowd_of R)"
proof -
  note D = engine_okD [OF ok(1)]
  let ?m = "run_coroutine h (mach e)"
  obtain S L where C: "chained R S L (frames (mach e)) (h # callers e)" using D(1) ok(3) by (auto simp: on_thread_def)
  from run_coroutine_ran [OF C D(2,3) ok(3)]
  obtain R' S' L' where ran: "chained R' S' L' (frames ?m) (on_thread ?m @ callers e)" "crowd_of R' = crowd_of R"
      "fresh_ok ?m" "io_world ?m = io_world (mach e)"
      "in_io ?m = None \<and> waits ?m = waits (mach e) \<or>
       in_io ?m = Some h \<and> current ?m = None \<and> \<not> waits (mach e) h \<and> waits ?m = (waits (mach e))(h := True)"
    unfolding ran_def by blast
  show ?thesis
  proof (cases "in_io ?m")
    case None
    then have run: "engine_run e = give_back (e\<lparr>mach := ?m\<rparr>)" using ok(3) by (simp add: engine_run_def)
    have "engine_ok R' (give_back (e\<lparr>mach := ?m\<rparr>)) \<and> fault (give_back (e\<lparr>mach := ?m\<rparr>)) = fault (e\<lparr>mach := ?m\<rparr>) \<and>
        io_world (mach (give_back (e\<lparr>mach := ?m\<rparr>))) = io_world (mach (e\<lparr>mach := ?m\<rparr>))"
      by (rule engine_ok_give_back) (use ran None D(5,6) in auto)
    with run ran ok(2) show ?thesis by auto
  next
    case (Some g)
    then have g: "g = h" and w: "\<not> waits (mach e) h" "waits ?m = (waits (mach e))(h := True)" using ran(5) by auto
    have ms: "mset_set {i. waits ?m i} = add_mset h (mset_set {i. waits (mach e) i})"
    proof -
      have "{i. waits ?m i} = insert h {i. waits (mach e) i}" using w(2) by auto
      then show ?thesis using w(1) finite_waits [OF D(2)] by simp
    qed
    have wm: "waits (?m\<lparr>in_io := None\<rparr>) = waits ?m" by (simp add: waits_def fun_eq_iff)
    have "waits ?m h" using w(2) by simp
    then obtain f via ring_op k where f: "frames ?m h = Some f" "fr_point f = InIO via ring_op k"
      by (auto simp: waits_iff)
    have gb: "engine_ok R' (give_back e') \<and> fault (give_back e') = fault e' \<and> io_world (mach (give_back e')) = io_world (mach e')"
      if "e' = e\<lparr>mach := ?m\<lparr>in_io := None\<rparr>, uring := r, at_pool := P\<rparr>" "ring_ok r" "handles r + P = mset_set {i. waits ?m i}" for e' r P
      by (rule engine_ok_give_back) (use ran(1,3) that wm in \<open>auto simp: fresh_ok_def on_thread_def\<close>)
    consider "via = OnPool" | "via = OnRing" "fst (io_uring_get_sqe (uring e))" | "via = OnRing" "\<not> fst (io_uring_get_sqe (uring e))"
      by (cases via) auto
    then show ?thesis
    proof cases
      case 1
      then have run: "engine_run e = give_back (e\<lparr>mach := ?m\<lparr>in_io := None\<rparr>, at_pool := add_mset h (at_pool e)\<rparr>)"
        using ok(3) Some g f by (simp add: engine_run_def)
      from gb [where e' = "e\<lparr>mach := ?m\<lparr>in_io := None\<rparr>, at_pool := add_mset h (at_pool e)\<rparr>" and r = "uring e" and P = "add_mset h (at_pool e)"]
      show ?thesis using run ran(2,4) ok(2) D(5,6) ms by auto
    next
      case 2
      then have run: "engine_run e = give_back (e\<lparr>mach := ?m\<lparr>in_io := None\<rparr>, uring := async_submit h (uring e)\<rparr>)"
        using ok(3) Some g f by (simp add: engine_run_def)
      from gb [where e' = "e\<lparr>mach := ?m\<lparr>in_io := None\<rparr>, uring := async_submit h (uring e)\<rparr>" and r = "async_submit h (uring e)" and P = "at_pool e"]
      show ?thesis using run ran(2,4) ok(2) D(5,6) ms handles_submit [OF D(5)] ring_ok_async [OF D(5)] by auto
    next
      case 3
      then show ?thesis using ok(3) Some g f by (simp add: engine_run_def)
    qed
  qed
qed

text \<open>Only the lowest frame of a chain waits for the kernel or the pool.\<close>

lemma upwards_awaiting: "upwards F h r S K \<Longrightarrow> i \<in> S \<Longrightarrow> i \<noteq> h \<Longrightarrow> \<exists>f c k. F i = Some f \<and> fr_point f = Awaiting c k"
proof (induction rule: upwards.induct)
  case (up h f p g k r S K)
  then show ?case by (cases "i = p") auto
qed simp

lemma upwards_waiting: "upwards F h r S K \<Longrightarrow> K (Waiting via ring_op c) = Waiting via ring_op (\<lambda>x. K (c x))"
proof (induction arbitrary: c rule: upwards.induct)
  case (up h f p g k r S K)
  then show ?case by (simp only: then_do.simps)
qed simp

lemma waiting_is_lowest:
  assumes C: "chained R S L (frames m) []" and w: "waits m h"
  obtains r q where "R r = Some q" "L r = h"
proof -
  note D = chainedD [OF C]
  obtain f via ring_op k where f: "frames m h = Some f" "fr_point f = InIO via ring_op k" using w by (auto simp: waits_iff)
  then have "h \<in> (\<Union>r \<in> dom R. S r)" using D(6) by auto
  then obtain r q where r: "R r = Some q" "h \<in> S r" by blast
  then have "suspended_at (frames m) (L r) r (S r) q" using D(2) by simp
  then obtain K where "upwards (frames m) (L r) r (S r) K" unfolding suspended_at_def by blast
  from upwards_awaiting [OF this r(2)] f have "L r = h" by force
  with r(1) that show thesis by blast
qed

lemma loop_complete_done:
  assumes "frames m h = Some f" "fr_point f = InIO via ring_op k" "ring_op (io_world m) = (out, w)" "completed out = Some x"
  shows "loop_complete h m =
    m\<lparr>frames := (frames m)(h \<mapsto> f\<lparr>fr_point := At (k x)\<rparr>), current := Some h, in_io := None, io_world := w\<rparr>"
  using assms by (cases out) (auto simp: loop_complete_def upd_frame_def completed_def)

lemma resume_waiting:
  assumes C: "chained R S L (frames m) []" and m: "fresh_ok m" and w: "waits m h" "\<not> outstanding m h"
  obtains R' S' L' where "chained R' S' L' (frames (loop_complete h m)) [h]" "fresh_ok (loop_complete h m)"
    "current (loop_complete h m) = Some h" "in_io (loop_complete h m) = None"
    "waits (loop_complete h m) = (waits m)(h := False)"
    "crowd_step (crowd_of R, io_world m) (crowd_of R', io_world (loop_complete h m))"
proof -
  obtain r q where r: "R r = Some q" "L r = h" by (rule waiting_is_lowest [OF C w(1)])
  then have "suspended_at (frames m) h r (S r) q" using chainedD(2) [OF C r(1)] by simp
  then obtain f K via ring_op k where f: "upwards (frames m) h r (S r) K" "frames m h = Some f"
      "fr_point f = InIO via ring_op k" "q = K (Waiting via ring_op (\<lambda>x. reading (k x)))"
    unfolding suspended_at_def by blast
  obtain out w' where out: "ring_op (io_world m) = (out, w')" by fastforce
  obtain x where x: "completed out = Some x" using w(2) f(2,3) out by (auto simp: outstanding_def)
  let ?F = "(frames m)(h \<mapsto> f\<lparr>fr_point := At (k x)\<rparr>)"
  note lc = loop_complete_done [OF f(2,3) out x]
  have "upwards ?F h r (S r) K" by (rule upwards_point [OF f(1,2)]) auto
  then have "running_at ?F h r (S r) (K (reading (k x)))"
    unfolding running_at_def runs_body_def by fastforce
  then have C': "chained (R(r \<mapsto> K (reading (k x)))) (S(r := S r)) (L(r := h)) ?F [h]"
    using r f(2) by (intro chained_replace [OF C r(1), where T = "[]"]) (use chainedD(3) [OF C r(1)] in auto)
  have q: "q = Waiting via ring_op (\<lambda>x. K (reading (k x)))" using f(4) upwards_waiting [OF f(1)] by simp
  have "crowd_step (crowd_of R, io_world m) ((crowd_of R)(r := alive (K (reading (k x)))), w')"
    by (rule crowd_step.complete [where via = via and k = "\<lambda>x. K (reading (k x))" and x = x and ring_op = ring_op and out = out])
      (use r(1) q out x in \<open>simp_all add: crowd_of_def alive_def\<close>)
  with C' show thesis
    using m f(2) by (intro that) (auto simp: lc fresh_ok_def waits_def crowd_of_upd fun_eq_iff)
qed

lemma engine_turn_ok:
  assumes ok: "engine_ok R e" "fault e = None" "current (mach e) = None"
    and lp: "lp_running (uring e)" "\<not> g_signal_received (uring e)"
    and a: "a \<in> set (in_flight (drain_pending_posts (uring e)))" "\<not> outstanding (mach e) (op_handle (uring e) a)"
  shows "fault (engine_turn a res e) = None \<and>
    (\<exists>R'. engine_ok R' (engine_turn a res e) \<and>
       crowd_step (crowd_of R, io_world (mach e)) (crowd_of R', io_world (mach (engine_turn a res e))))"
proof -
  note D = engine_okD [OF ok(1)]
  let ?d = "drain_pending_posts (uring e)" and ?h = "op_handle (uring e) a" and ?m = "loop_complete (op_handle (uring e) a) (mach e)"
  have d: "ring_ok ?d" "handles ?d = handles (uring e)" "op_handle ?d a = ?h"
    using ring_ok_drain [OF D(5)] handles_drain drain_shuffle [of "uring e"] by (auto simp: op_handle_def)
  have hd: "handles (uring e) = add_mset ?h (handles (dispatch a res ?d))"
    using handles_dispatch [OF d(1) a(1)] d(2,3) by metis
  then have "?h \<in># mset_set {h. waits (mach e) h}" using D(6) by (metis union_iff union_single_eq_member)
  then have w: "waits (mach e) ?h" using finite_waits [OF D(2)] by simp
  obtain S L where C: "chained R S L (frames (mach e)) []" using D(1,4) ok(3) by (auto simp: on_thread_def)
  obtain R' S' L' where R': "chained R' S' L' (frames ?m) [?h]" "fresh_ok ?m" "current ?m = Some ?h" "in_io ?m = None"
      "waits ?m = (waits (mach e))(?h := False)" "crowd_step (crowd_of R, io_world (mach e)) (crowd_of R', io_world ?m)"
    by (rule resume_waiting [OF C D(2) w a(2)])
  have turn: "engine_turn a res e = e\<lparr>uring := dispatch a res ?d, mach := ?m\<rparr>"
    using w lp by (simp add: engine_turn_def loop_turn_def)
  have "{h. waits (mach e) h} = insert ?h {h. waits ?m h}" using R'(5) w by auto
  then have "mset_set {h. waits (mach e) h} = add_mset ?h (mset_set {h. waits ?m h})"
    using finite_waits [OF R'(2)] R'(5) by simp
  then have "handles (dispatch a res ?d) + at_pool e = mset_set {h. waits ?m h}" using D(6) hd by simp
  then have "engine_ok R' (engine_turn a res e)"
    using R'(1-4) D(4) ok(3) ring_ok_dispatch [OF d(1) a(1)] unfolding engine_ok_def turn by (auto simp: on_thread_def)
  then show ?thesis using R'(6) ok(2) by (auto simp: turn)
qed

lemma engine_spawn_ok:
  assumes ok: "engine_ok R e"
  shows "\<exists>R'. engine_ok R' (engine_spawn b e) \<and>
       crowd_step (crowd_of R, io_world (mach e)) (crowd_of R', io_world (mach (engine_spawn b e)))"
proof -
  note D = engine_okD [OF ok]
  let ?r = "next_frame (mach e)" and ?F = "frames (mach e)"
  let ?f = "\<lparr>fr_point = At b, pr_value = None, pr_exception = None, pr_continuation = None, detached = True\<rparr>"
  obtain S L where C: "chained R S L ?F (on_thread (mach e) @ callers e)" using D(1) by blast
  have r: "?F ?r = None" using D(2) by (simp add: fresh_ok_def)
  have sp: "engine_spawn b e = e\<lparr>mach := (mach e)\<lparr>frames := ?F(?r \<mapsto> ?f), next_frame := Suc ?r, current := Some ?r\<rparr>,
      callers := on_thread (mach e) @ callers e\<rparr>"
    by (simp add: engine_spawn_def get_return_object_def task_start_def on_thread_def split: option.split)
  have "chained (R(?r \<mapsto> reading b)) (S(?r := {?r})) (L(?r := ?r)) (?F(?r \<mapsto> ?f)) (?r # on_thread (mach e) @ callers e)"
    by (rule chained_spawn [OF C]) (use r in auto)
  moreover have "waits (mach (engine_spawn b e)) = waits (mach e)" using r by (auto simp: sp waits_def fun_eq_iff)
  ultimately have "engine_ok (R(?r \<mapsto> reading b)) (engine_spawn b e)"
    using D unfolding engine_ok_def by (auto simp: sp on_thread_def fresh_ok_def)
  moreover have "R ?r = None" using chainedD(3) [OF C] r by fastforce
  then have "crowd_step (crowd_of R, io_world (mach e)) ((crowd_of R)(?r := alive (reading b)), io_world (mach e))"
    by (intro crowd_step.spawn) (simp add: crowd_of_def)
  ultimately show ?thesis by (auto simp: sp crowd_of_upd)
qed

lemma worker_post_ok:
  assumes "engine_ok R e" "h \<in># at_pool e"
  shows "engine_ok R (worker_post h e)"
proof -
  note D = engine_okD [OF assms(1)]
  have "handles (post_coroutine h (uring e)) + (at_pool e - {#h#}) = handles (uring e) + at_pool e"
    using handles_post [OF D(5), of h] assms(2) by (metis add_mset_add_single insert_DiffM2 union_mset_add_mset_left union_mset_add_mset_right)
  then show ?thesis
    using D ring_ok_post [OF D(5)] unfolding engine_ok_def worker_post_def by simp
qed

lemma engine_step_ok:
  assumes "engine_step e e'" "engine_ok R e" "fault e = None"
  shows "fault e' = Some NullSqe \<or>
    fault e' = None \<and> (\<exists>R'. engine_ok R' e' \<and>
      (crowd_of R' = crowd_of R \<and> io_world (mach e') = io_world (mach e) \<or>
       crowd_step (crowd_of R, io_world (mach e)) (crowd_of R', io_world (mach e'))))"
  using assms
proof (induction rule: engine_step.induct)
  case (run e h)
  then show ?case using engine_run_ok by blast
next
  case (spawn e b)
  moreover have "fault (engine_spawn b e) = fault e" by (simp add: engine_spawn_def get_return_object_def)
  ultimately show ?case using engine_spawn_ok by metis
next
  case (turn e a res)
  then show ?case using engine_turn_ok by blast
next
  case (post e h)
  then have "engine_ok R (worker_post h e)" by (intro worker_post_ok)
  with post show ?case by (auto simp: worker_post_def)
next
  case (interrupted e)
  have "ring_ok (loop_turn WaitError (uring e))" "handles (loop_turn WaitError (uring e)) = handles (uring e)"
    using ring_ok_drain [OF engine_okD(5) [OF interrupted(3)]] handles_drain engine_okD(5) [OF interrupted(3)]
    by (auto simp: loop_turn_def intro!: handles_cong ring_ok_shuffle [of "uring e"] simp: known_ops_def)
  from engine_ok_ring [OF interrupted(3) this] interrupted show ?case by auto
next
  case (enter e)
  have "ring_ok (run_enter (uring e))" "handles (run_enter (uring e)) = handles (uring e)"
    using engine_okD(5) [OF enter(3)]
    by (auto simp: run_enter_def intro!: handles_cong ring_ok_shuffle [of "uring e"] simp: known_ops_def)
  from engine_ok_ring [OF enter(3) this] enter show ?case by auto
next
  case (room e bs)
  let ?r = "(uring e)\<lparr>sq_room := sq_room (uring e) @ bs\<rparr>"
  have "ring_ok ?r" "handles ?r = handles (uring e)"
    using engine_okD(5) [OF room(2)] by (auto intro!: handles_cong ring_ok_shuffle [of "uring e"] simp: known_ops_def)
  from engine_ok_ring [OF room(2) this] room show ?case by auto
next
  case (signal e)
  have "ring_ok (signal_handler (uring e))" "handles (signal_handler (uring e)) = handles (uring e)"
    using engine_okD(5) [OF signal(2)]
    by (auto simp: signal_handler_def intro!: handles_cong ring_ok_shuffle [of "uring e"] simp: known_ops_def)
  from engine_ok_ring [OF signal(2) this] signal show ?case by auto
next
  case (stop e)
  have "ring_ok (stop_loop (uring e))" "handles (stop_loop (uring e)) = handles (uring e)"
    using engine_okD(5) [OF stop(2)]
    by (auto simp: stop_loop_def intro!: handles_cong ring_ok_shuffle [of "uring e"] simp: known_ops_def)
  from engine_ok_ring [OF stop(2) this] stop show ?case by auto
qed

lemma engine_ok_new: "engine_ok Map.empty (new_engine w)"
  by (simp add: engine_ok_def new_engine_def chained_def on_thread_def fresh_ok_def waits_def handles_def known_ops_def
      empty_ring_def ring_ok_def resumed_posts_def)

text \<open>The engine implements the abstract one, until a submission entry is missing.\<close>

definition implements_crowd :: "('w, 'v) engine \<Rightarrow> ('w, 'v) crowd \<Rightarrow> bool" where
  "implements_crowd e c \<longleftrightarrow> fault e = Some NullSqe \<or>
     fault e = None \<and> (\<exists>R. engine_ok R e \<and> c = (crowd_of R, io_world (mach e)))"

interpretation frames: stutter_simulation engine_step crowd_step implements_crowd
proof
  fix e e' :: "('w, 'v) engine" and c
  assume "implements_crowd e c" and step: "engine_step e e'"
  moreover have "fault e = None" using step by (auto elim: engine_step.cases)
  ultimately obtain R where "engine_ok R e" "c = (crowd_of R, io_world (mach e))" "fault e = None"
    by (auto simp: implements_crowd_def)
  with engine_step_ok [OF step] show "\<exists>d. (d = c \<or> crowd_step c d) \<and> implements_crowd e' d"
    unfolding implements_crowd_def by metis
qed

lemma crowd_reachable_star: "crowd_step\<^sup>*\<^sup>* (Map.empty, w0) c \<Longrightarrow> crowd_reachable w0 c"
  by (induction rule: rtranclp_induct) (auto intro: crowd_reachable.intros)

lemma engine_reachable_star: "engine_reachable w0 e \<Longrightarrow> engine_step\<^sup>*\<^sup>* (new_engine w0) e"
  by (induction rule: engine_reachable.induct) auto

lemma engine_reachable_ok:
  assumes "engine_reachable w0 e"
  shows "fault e = Some NullSqe \<or>
    fault e = None \<and> (\<exists>R. engine_ok R e \<and> crowd_reachable w0 (crowd_of R, io_world (mach e)))"
proof -
  have "implements_crowd (new_engine w0) (Map.empty, w0)"
    unfolding implements_crowd_def using engine_ok_new [of w0] crowd_of_empty by (auto simp: new_engine_def intro!: exI [of _ Map.empty])
  from frames.related_run [OF engine_reachable_star [OF assms] this]
  obtain c where "crowd_step\<^sup>*\<^sup>* (Map.empty, w0) c" "implements_crowd e c" by (elim exE conjE)
  moreover from this(1) have "crowd_reachable w0 c" by (rule crowd_reachable_star)
  ultimately show ?thesis by (auto simp: implements_crowd_def)
qed

section \<open>The thread comes back\<close>

text \<open>
  What frames still have to run: the rest of a body, or what follows an await. A run replaces an
  item by smaller ones.
\<close>

datatype ('w, 'v) item = Rest "('w, 'v) body" | After "exn + 'v \<Rightarrow> ('w, 'v) body"

inductive smaller :: "('w, 'v) item \<Rightarrow> ('w, 'v) item \<Rightarrow> bool" where
  awaited: "smaller (Rest b) (Rest (CoAwait b k))"
| following: "smaller (After k) (Rest (CoAwait b k))"
| resumed: "smaller (Rest (k x)) (After k)"

inductive_cases smaller_Rest: "smaller y (Rest b)"
inductive_cases smaller_After: "smaller y (After k)"

lemma wf_smaller: "wfp (smaller :: ('w, 'v) item \<Rightarrow> ('w, 'v) item \<Rightarrow> bool)"
proof (rule wfpUNIVI)
  fix P :: "('w, 'v) item \<Rightarrow> bool" and y
  assume "\<forall>y. (\<forall>z. smaller z y \<longrightarrow> P z) \<longrightarrow> P y"
  then have step: "P y" if "\<And>z. smaller z y \<Longrightarrow> P z" for y using that by blast
  have after: "P (After k)" if "\<And>x. P (Rest (k x))" for k :: "exn + 'v \<Rightarrow> ('w, 'v) body"
    by (rule step) (use that in \<open>auto elim: smaller_After\<close>)
  have rest: "P (Rest b)" for b :: "('w, 'v) body"
  proof (induction b)
    case (CoAwait b k)
    then have "P (After k)" by (intro after) simp
    show ?case by (rule step) (use CoAwait(1) \<open>P (After k)\<close> in \<open>auto elim: smaller_Rest\<close>)
  qed (rule step, auto elim: smaller_Rest)+
  show "P y" using rest after by (cases y) auto
qed

fun items :: "('w, 'v) point \<Rightarrow> ('w, 'v) item multiset" where
  "items (At b) = {#Rest b#}"
| "items (Awaiting c k) = {#After k#}"
| "items _ = {#}"

definition work :: "(nat \<rightharpoonup> ('w, 'v) frame) \<Rightarrow> ('w, 'v) item multiset" where
  "work F = (\<Sum>h \<in> dom F. items (fr_point (the (F h))))"

lemma work_new: "finite (dom F) \<Longrightarrow> F c = None \<Longrightarrow> work (F(c \<mapsto> g)) = items (fr_point g) + work F"
  by (auto simp: work_def domIff intro!: arg_cong [where f = "(+) (items (fr_point g))"] sum.cong)

lemma work_del: "finite (dom F) \<Longrightarrow> F h = Some f \<Longrightarrow> work F = items (fr_point f) + work (F(h := None))"
  using work_new [of "F(h := None)" h f] by (simp add: map_upd_triv)

lemma work_upd:
  "finite (dom F) \<Longrightarrow> F h = Some f \<Longrightarrow> work (F(h \<mapsto> g)) = items (fr_point g) + work (F(h := None))"
  using work_new [of "F(h := None)" h g] by simp

text \<open>Every run of the thread has less work before it.\<close>

lemma work_less: "(\<And>x. x \<in># K \<Longrightarrow> \<exists>y \<in># J. smaller x y) \<Longrightarrow> J \<noteq> {#} \<Longrightarrow> multp smaller (K + I) (J + I)"
  using one_step_implies_multp [of J K smaller I] by (simp add: add.commute)

lemma run_coroutine_work:
  assumes C: "chained R S L (frames m) (h # T)" and m: "fresh_ok m"
  shows "multp smaller (work (frames (run_coroutine h m))) (work (frames m))"
proof -
  have "dom (frames m) \<subseteq> {..<next_frame m}"
    using m unfolding fresh_ok_def by (metis domIff lessThan_iff not_le subsetI)
  then have fin: "finite (dom (frames m))" by (rule finite_subset) simp
  obtain r q where r: "R r = Some q" "L r = h" using chainedD(4) [OF C, of h] by auto
  then have "running_at (frames m) h r (S r) q" using chainedD(1) [OF C r(1)] by simp
  then consider "runs_body (frames m) h r (S r) q" | "takes_result (frames m) h r (S r) q"
    unfolding running_at_def by blast
  then show ?thesis
  proof cases
    case 1
    then obtain f b where b: "frames m h = Some f" "fr_point f = At b" unfolding runs_body_def by blast
    note w = work_del [OF fin b(1)] work_upd [OF fin b(1)]
    have fin1: "finite (dom ((frames m)(h := None)))" using fin by simp
    have fb: "multp smaller (work (frames (finish_body h x m))) (work (frames m))" for x
    proof -
      have "work (frames (finish_body h x m)) = {#} + work ((frames m)(h := None))"
        using b by (cases x) (simp_all add: w finish_body_def task_destroy_def Let_def)
      then show ?thesis using b work_less [of "{#}" "{#Rest b#}"] by (simp add: w(1))
    qed
    show ?thesis
    proof (cases b)
      case (CoIO via ring_op k)
      with b work_less [of "{#}" "{#Rest b#}"] show ?thesis
        by (simp add: w run_coroutine_def upd_frame_def)
    next
      case (CoAwait b' k)
      let ?c = "next_frame m"
      have c: "frames m ?c = None" "?c \<noteq> h" using m b(1) by (auto simp: fresh_ok_def)
      have "work (frames (run_coroutine h m)) = {#Rest b', After k#} + work ((frames m)(h := None))"
        using b CoAwait c fin
        by (simp add: run_coroutine_def get_return_object_def task_await_suspend_def upd_frame_def fun_upd_twist work_new w)
      moreover have "multp smaller ({#Rest b', After k#} + I) ({#Rest b#} + I)" for I
        using CoAwait by (intro work_less) (auto intro: smaller.intros)
      ultimately show ?thesis using b by (simp add: w)
    qed (use b fb in \<open>simp_all add: run_coroutine_def\<close>)
  next
    case 2
    then obtain f c k g where c: "frames m h = Some f" "fr_point f = Awaiting c k" "frames m c = Some g"
        "fr_point g = FinalSuspended"
      unfolding takes_result_def by blast
    have hc: "h \<noteq> c" using c by auto
    let ?x = "task_await_resume c m" and ?F = "(frames m)(c := None)"
    have run: "frames (run_coroutine h m) = ?F(h \<mapsto> f\<lparr>fr_point := At (k ?x)\<rparr>)"
      using c hc by (simp add: run_coroutine_def upd_frame_def task_destroy_def fun_upd_twist)
    have "work (frames m) = work ?F" using work_del [OF fin c(3)] c(4) by simp
    moreover have "work ?F = {#After k#} + work (?F(h := None))"
      using work_del [of ?F h f] fin c hc by simp
    moreover have "work (?F(h \<mapsto> f\<lparr>fr_point := At (k ?x)\<rparr>)) = {#Rest (k ?x)#} + work (?F(h := None))"
      using work_upd [of ?F h f] fin c hc by simp
    moreover have "multp smaller ({#Rest (k ?x)#} + I) ({#After k#} + I)" for I
      by (rule work_less) (auto intro: smaller.intros)
    ultimately show ?thesis unfolding run by metis
  qed
qed

lemma engine_run_work:
  assumes "engine_ok R e" "current (mach e) = Some h" "fault e = None" "fault (engine_run e) = None"
  shows "multp smaller (work (frames (mach (engine_run e)))) (work (frames (mach e)))"
proof -
  note D = engine_okD [OF assms(1)]
  obtain S L where C: "chained R S L (frames (mach e)) (h # callers e)" using D(1) assms(2) by (auto simp: on_thread_def)
  have gb: "frames (mach (give_back x)) = frames (mach x)" for x :: "('a, 'b) engine"
    by (simp add: give_back_def split: option.split list.split)
  have "frames (mach (engine_run e)) = frames (run_coroutine h (mach e))"
    using assms(2,4) by (auto simp: engine_run_def Let_def gb split: option.splits point.splits wait.splits if_splits)
  with run_coroutine_work [OF C D(2)] show ?thesis by simp
qed

lemma thread_settles:
  "engine_ok R e \<Longrightarrow> fault e = None \<Longrightarrow>
    \<exists>n. let e' = (engine_run ^^ n) e in fault e' = Some NullSqe \<or> fault e' = None \<and> current (mach e') = None"
proof (induction "work (frames (mach e))" arbitrary: R e rule: wfp_induct_rule [OF wfp_multp [OF wf_smaller]])
  case 1
  show ?case
  proof (cases "current (mach e)")
    case None
    then show ?thesis using 1(3) by (intro exI [of _ 0]) simp
  next
    case (Some h)
    from engine_run_ok [OF 1(2,3) Some] show ?thesis
    proof
      assume "fault (engine_run e) = Some NullSqe"
      then show ?thesis by (intro exI [of _ 1]) simp
    next
      assume a: "fault (engine_run e) = None \<and> io_world (mach (engine_run e)) = io_world (mach e) \<and>
        (\<exists>R'. engine_ok R' (engine_run e) \<and> crowd_of R' = crowd_of R)"
      then obtain R' where R': "engine_ok R' (engine_run e)" by blast
      have f: "fault (engine_run e) = None" using a by blast
      obtain n where "let e' = (engine_run ^^ n) (engine_run e) in
          fault e' = Some NullSqe \<or> fault e' = None \<and> current (mach e') = None"
        using 1(1) [OF engine_run_work [OF 1(2) Some 1(3) f] R' f] by (rule exE)
      then show ?thesis by (intro exI [of _ "Suc n"]) (simp add: funpow_swap1)
    qed
  qed
qed

section \<open>Properties\<close>

text \<open>
  C4. The engine is an interleaving of the functional readings of its coroutines. Whenever the
  thread is back in the event loop, there is a state that the abstract engine reaches, in which
  detached coroutines take their waits in turn and work on the same shared state, such that the
  live frames fall into disjoint chains, one for each coroutine that is still waiting there: from
  the frame in the operation, over frames that each await the one below and are its
  continuation, up to the detached root. What the chain is going to do is what the abstract
  engine says of the coroutine; no frame belongs to a coroutine that has ended.
\<close>

theorem engine_interleaves_coroutines:
  assumes "engine_reachable w0 e" "fault e = None" "current (mach e) = None"
  shows "\<exists>R S L. crowd_reachable w0 (R, io_world (mach e)) \<and>
    (\<forall>r q. R r = Some q \<longrightarrow> suspended_at (frames (mach e)) (L r) r (S r) q) \<and>
    (\<forall>r \<in> dom R. \<forall>r' \<in> dom R. r \<noteq> r' \<longrightarrow> S r \<inter> S r' = {}) \<and> (\<Union>r \<in> dom R. S r) = dom (frames (mach e))"
proof -
  obtain R where R: "engine_ok R e" "crowd_reachable w0 (crowd_of R, io_world (mach e))"
    using engine_reachable_ok [OF assms(1)] assms(2) by auto
  obtain S L where C: "chained R S L (frames (mach e)) []"
    using engine_okD(1,4) [OF R(1)] assms(3) by (auto simp: on_thread_def)
  have "Option.bind (R r) alive = R r" for r
  proof (cases "R r")
    case (Some q)
    then have "suspended_at (frames (mach e)) (L r) r (S r) q" using chainedD(2) [OF C] by simp
    then obtain via ring_op c where "q = Waiting via ring_op c"
      unfolding suspended_at_def using upwards_waiting by blast
    with Some show ?thesis by (simp add: alive_def)
  qed simp
  then have "crowd_of R = R" by (simp add: crowd_of_def fun_eq_iff)
  with R(2) C chainedD(2) [OF C] chainedD(5,6) [OF C] show ?thesis
    by (intro exI [of _ R] exI [of _ S] exI [of _ L]) simp
qed

text \<open>
  C5. The handles are right. The event loop never resumes a coroutine whose frame is destroyed or
  that is not suspended in a wait. Each coroutine that waits has exactly one wakeup on its way:
  one operation in flight, one post that waits for room, or one function on the thread pool; and
  there are no others.
\<close>

theorem wakeups_match_waiting_coroutines:
  assumes "engine_reachable w0 e"
  shows "fault e \<noteq> Some StaleHandle \<and>
    (fault e = None \<longrightarrow> handles (uring e) + at_pool e = mset_set {h. waits (mach e) h})"
  using engine_reachable_ok [OF assms] engine_okD(6) by auto

text \<open>
  C6. The thread always comes back to the event loop. From every reachable state, whatever
  coroutines are running, awaiting and calling each other, finitely many runs end with all of
  them waiting or ended, unless a submission entry is missing, which the code does not check.
\<close>

theorem thread_returns_to_loop:
  assumes "engine_reachable w0 e" "fault e = None"
  shows "\<exists>n. let e' = (engine_run ^^ n) e in
    fault e' = Some NullSqe \<or> fault e' = None \<and> current (mach e') = None"
  using engine_reachable_ok [OF assms(1)] assms(2) thread_settles by auto

end
