(* ===== verification/Loop_Runs.thy ===== *)
theory Loop_Runs
  imports Loop_Frames
begin

text \<open>
  A concrete engine: a detached coroutine awaits a task that reads from the ring, and then waits
  for the thread pool.
\<close>

section \<open>The coroutine\<close>

definition next_result :: "int list \<Rightarrow> int outcome \<times> int list" where
  "next_result w = (case w of [] \<Rightarrow> (Pending, []) | x # xs \<Rightarrow> (Ret x, xs))"

definition reader :: "(int list, int) body" where
  "reader = CoIO OnRing next_result (\<lambda>r. case r of Inl e \<Rightarrow> CoThrow e | Inr v \<Rightarrow> CoReturn (v + 1))"

definition client :: "(int list, int) body" where
  "client = CoAwait reader (\<lambda>r. CoIO OnPool next_result (\<lambda>_. CoReturn 0))"

section \<open>Its run\<close>

text \<open>It is called while the loop runs; it comes to its first wait; the read completes.\<close>

definition called :: "(int list, int) engine" where
  "called = engine_spawn client
     ((new_engine [41])\<lparr>uring := run_enter (empty_ring\<lparr>sq_room := [True]\<rparr>)\<rparr>)"

definition reading_on :: "(int list, int) engine" where
  "reading_on = engine_run (engine_run called)"

definition woken :: "(int list, int) engine" where
  "woken = engine_turn 0 41 reading_on"

lemmas run_eval = called_def engine_spawn_def new_engine_def run_enter_def empty_ring_def get_return_object_def
  task_start_def client_def reader_def

lemma called_step: "engine_reachable [41] called"
proof -
  let ?e = "new_engine [41] :: (int list, int) engine"
  let ?e1 = "?e\<lparr>uring := (uring ?e)\<lparr>sq_room := sq_room (uring ?e) @ [True]\<rparr>\<rparr>"
  let ?e2 = "?e1\<lparr>uring := run_enter (uring ?e1)\<rparr>"
  have "engine_step ?e ?e1" by (rule engine_step.room) (simp add: new_engine_def)
  with engine_reachable.start have "engine_reachable [41] ?e1" by (rule engine_reachable.step)
  moreover have "engine_step ?e1 ?e2" by (rule engine_step.enter) (simp_all add: new_engine_def empty_ring_def)
  ultimately have "engine_reachable [41] ?e2" by (rule engine_reachable.step)
  moreover have "engine_step ?e2 (engine_spawn client ?e2)" by (rule engine_step.spawn) (simp add: new_engine_def)
  ultimately have "engine_reachable [41] (engine_spawn client ?e2)" by (rule engine_reachable.step)
  then show ?thesis by (simp add: called_def new_engine_def empty_ring_def)
qed

lemma called_fields: "current (mach called) = Some 0" "fault called = None"
  by (simp_all add: run_eval)

lemma run_once: "current (mach (engine_run called)) = Some 1" "fault (engine_run called) = None"
  by (simp_all add: run_eval engine_run_def run_coroutine_def task_await_suspend_def upd_frame_def give_back_def)

lemma reading_on_fields:
  "current (mach reading_on) = None" "fault reading_on = None" "lp_running (uring reading_on)"
  "\<not> g_signal_received (uring reading_on)" "in_flight (uring reading_on) = [0]" "pending_posts (uring reading_on) = []"
  "op_handle (uring reading_on) 0 = Suc 0" "dom (frames (mach reading_on)) = {0, 1}" "io_world (mach reading_on) = [41]"
  "\<not> outstanding (mach reading_on) (Suc 0)" "waits (mach reading_on) (Suc 0)"
  by (auto simp: reading_on_def run_eval engine_run_def run_coroutine_def task_await_suspend_def upd_frame_def give_back_def
      async_submit_def new_op_def submit_def io_uring_get_sqe_def op_handle_def outstanding_def waits_def completed_def next_result_def
      Let_def split: if_splits)

lemma reading_on_reachable: "engine_reachable [41] reading_on"
  unfolding reading_on_def
  by (rule engine_reachable.step [OF engine_reachable.step [OF called_step engine_step.run] engine_step.run])
    (rule called_fields run_once)+

lemma woken_reachable: "engine_reachable [41] woken"
  unfolding woken_def
  by (intro engine_reachable.step [OF reading_on_reachable] engine_step.turn)
    (simp_all add: reading_on_fields drain_pending_posts.simps)

theorem engine_interleaves_coroutines_witness:
  "\<exists>R S. crowd_reachable [41] (R :: nat \<rightharpoonup> (int list, int) resumption, [41]) \<and> (\<Union>r \<in> dom R. S r) = {0, 1 :: nat}"
proof -
  from engine_interleaves_coroutines [OF reading_on_reachable reading_on_fields(2,1)]
  show ?thesis unfolding reading_on_fields by (elim exE conjE) (intro exI conjI)
qed

theorem wakeups_match_waiting_coroutines_witness:
  "fault reading_on \<noteq> Some StaleHandle \<and> handles (uring reading_on) + at_pool reading_on = mset_set {h. waits (mach reading_on) h}"
  using wakeups_match_waiting_coroutines [OF reading_on_reachable] reading_on_fields(2) by simp

theorem thread_returns_to_loop_witness:
  "\<exists>n. let e' = (engine_run ^^ n) woken in fault e' = Some NullSqe \<or> fault e' = None \<and> current (mach e') = None"
proof -
  have "fault woken = None"
    by (simp add: woken_def engine_turn_def reading_on_fields Let_def) 
  from thread_returns_to_loop [OF woken_reachable this] show ?thesis .
qed

end
