(* ===== verification/Partial_Reads.thy ===== *)
theory Partial_Reads
  imports Frame_IO
begin

text \<open>
  The reads of \<^verbatim>\<open>FrameIO.cpp\<close> cut at every receive. A request is read by \<^verbatim>\<open>read_frame\<close> or
  \<^verbatim>\<open>read_text_frame\<close>, which await \<^verbatim>\<open>async_read_exact\<close>, which awaits \<^verbatim>\<open>async_read\<close> in a loop: the
  coroutine is suspended at each receive, with the bytes it has so far in its locals. This theory
  has these locals as a datatype and the code between two receives as a function on it, and shows
  that running them through is the read of \<^verbatim>\<open>Frame_IO\<close>.
\<close>

section \<open>The locals of a suspended read\<close>

text \<open>
  Every point at which the read can be suspended carries the buffer of \<^verbatim>\<open>async_read_exact\<close> and
  its \<^verbatim>\<open>total_read\<close>: inside \<^verbatim>\<open>read_frame\<close> for the header or for the payload, inside
  \<^verbatim>\<open>read_text_frame\<close> for a character of the header line or of the payload line. \<open>GotFrame\<close> is
  the read at its end.
\<close>

datatype read_locals =
    InHeader bytes nat
  | InPayload FrameHeader bytes nat
  | InLine string bytes nat
  | InPayloadLine u16 u64 string bytes nat
  | GotFrame ClientFrame

fun got_frame :: "read_locals \<Rightarrow> ClientFrame option" where
  "got_frame (GotFrame fr) = Some fr"
| "got_frame _ = None"

text \<open>The size of \<^verbatim>\<open>buffer.subspan(total_read)\<close>.\<close>

fun span_left :: "read_locals \<Rightarrow> nat" where
  "span_left (InHeader buf t) = length buf - t"
| "span_left (InPayload h buf t) = length buf - t"
| "span_left (InLine line buf t) = length buf - t"
| "span_left (InPayloadLine cmd sid line buf t) = length buf - t"
| "span_left (GotFrame fr) = 0"

definition reading_start :: "ProtocolMode \<Rightarrow> read_locals" where
  "reading_start mode =
     (case mode of BINARY \<Rightarrow> InHeader (replicate sizeof_FrameHeader 0) 0 | TEXT \<Rightarrow> InLine [] [0] 0)"

text \<open>The test at the head of the loop of \<^verbatim>\<open>async_read_exact\<close>: receive again, or return.\<close>

definition exact_more :: "(bytes \<Rightarrow> nat \<Rightarrow> read_locals) \<Rightarrow> (bytes \<Rightarrow> read_locals) \<Rightarrow> bytes \<Rightarrow> nat \<Rightarrow> read_locals" where
  "exact_more suspended_in returned buf total_read =
     (if total_read < length buf then suspended_in buf total_read else returned buf)"

text \<open>What \<^verbatim>\<open>read_frame\<close> does with the header.\<close>

definition header_read :: "bytes \<Rightarrow> read_locals" where
  "header_read hb =
     (let h = header_of_bytes hb in
      if 0 < payload_length h then
        exact_more (InPayload h) (\<lambda>p. GotFrame \<lparr>cf_header = h, cf_payload = p\<rparr>)
          (replicate (unat (payload_length h)) 0) 0
      else GotFrame \<lparr>cf_header = h, cf_payload = []\<rparr>)"

text \<open>What \<^verbatim>\<open>read_text_frame\<close> makes of the payload line, and of the header line.\<close>

definition text_frame :: "u16 \<Rightarrow> u64 \<Rightarrow> string \<Rightarrow> ClientFrame" where
  "text_frame cmd sid payload_line =
     (let pl = of_nat (length payload_line) :: u32 in
      \<lparr>cf_header = mk_header cmd 0 pl sid, cf_payload = take (unat pl) (bytes_of_string payload_line)\<rparr>)"

definition line_read :: "(string \<rightharpoonup> u16) \<Rightarrow> string \<Rightarrow> read_locals" where
  "line_read cmd_names header_line =
     (case parse_text_header cmd_names header_line 0 0 of
        (False, _, _) \<Rightarrow> GotFrame empty_frame
      | (True, cmd, sid) \<Rightarrow> InPayloadLine cmd sid [] [0] 0)"

text \<open>A turn of the loop of \<^verbatim>\<open>read_text_line\<close> with its character.\<close>

definition char_read :: "(string \<Rightarrow> read_locals) \<Rightarrow> (string \<Rightarrow> read_locals) \<Rightarrow> string \<Rightarrow> bytes \<Rightarrow> read_locals" where
  "char_read again returned line cs =
     (let c = char_of_byte (hd cs) in if c = newline then returned line else again (line @ [c]))"

text \<open>
  \<^verbatim>\<open>total_read += bytes\<close> and what follows, with \<open>data\<close> what the kernel put into the buffer, to
  the next receive or to the end.
\<close>

fun bytes_read :: "(string \<rightharpoonup> u16) \<Rightarrow> read_locals \<Rightarrow> int \<Rightarrow> bytes \<Rightarrow> read_locals" where
  "bytes_read cmd_names (InHeader buf t) r data =
     exact_more InHeader header_read (overwrite buf t data) (size_add t r)"
| "bytes_read cmd_names (InPayload h buf t) r data =
     exact_more (InPayload h) (\<lambda>p. GotFrame \<lparr>cf_header = h, cf_payload = p\<rparr>)
       (overwrite buf t data) (size_add t r)"
| "bytes_read cmd_names (InLine line buf t) r data =
     exact_more (InLine line) (char_read (\<lambda>l. InLine l [0] 0) (line_read cmd_names) line)
       (overwrite buf t data) (size_add t r)"
| "bytes_read cmd_names (InPayloadLine cmd sid line buf t) r data =
     exact_more (InPayloadLine cmd sid line)
       (char_read (\<lambda>l. InPayloadLine cmd sid l [0] 0) (\<lambda>l. GotFrame (text_frame cmd sid l)) line)
       (overwrite buf t data) (size_add t r)"
| "bytes_read cmd_names (GotFrame fr) r data = GotFrame fr"

text \<open>The coroutine is resumed with \<open>r\<close>, the value of \<^verbatim>\<open>co_await async_read\<close>.\<close>

definition resume_read :: "(string \<rightharpoonup> u16) \<Rightarrow> read_locals \<Rightarrow> int \<times> bytes \<Rightarrow> exn + read_locals" where
  "resume_read cmd_names st = (\<lambda>(r, data).
     if r = 0 then Inl (RuntimeError ''Connection closed by client'')
     else Inr (bytes_read cmd_names st r data))"

section \<open>What is left to do\<close>

text \<open>The functional reading of a read from some point on.\<close>

definition payload_line_rest :: "fd \<Rightarrow> u16 \<Rightarrow> u64 \<Rightarrow> string \<Rightarrow> (world, ClientFrame) co" where
  "payload_line_rest f cmd sid line = co_bind (read_text_line_loop f line) (\<lambda>l. co_ret (text_frame cmd sid l))"

definition line_rest :: "(string \<rightharpoonup> u16) \<Rightarrow> fd \<Rightarrow> string \<Rightarrow> (world, ClientFrame) co" where
  "line_rest cmd_names f line =
     co_bind (read_text_line_loop f line) (\<lambda>l.
       case parse_text_header cmd_names l 0 0 of
         (False, _, _) \<Rightarrow> co_ret empty_frame
       | (True, cmd, sid) \<Rightarrow> payload_line_rest f cmd sid [])"

definition payload_rest :: "fd \<Rightarrow> FrameHeader \<Rightarrow> bytes \<Rightarrow> nat \<Rightarrow> (world, ClientFrame) co" where
  "payload_rest f h buf t = co_bind (read_exact_loop f buf t) (\<lambda>p. co_ret \<lparr>cf_header = h, cf_payload = p\<rparr>)"

definition char_rest :: "fd \<Rightarrow> (string \<Rightarrow> (world, 'a) co) \<Rightarrow> (string \<Rightarrow> (world, 'a) co) \<Rightarrow>
    string \<Rightarrow> bytes \<Rightarrow> nat \<Rightarrow> (world, 'a) co" where
  "char_rest f again returned line buf t =
     co_bind (read_exact_loop f buf t) (\<lambda>cs.
       let c = char_of_byte (hd cs) in if c = newline then returned line else again (line @ [c]))"

fun rest_of :: "(string \<rightharpoonup> u16) \<Rightarrow> fd \<Rightarrow> read_locals \<Rightarrow> (world, ClientFrame) co" where
  "rest_of cmd_names f (InHeader buf t) =
     co_bind (read_exact_loop f buf t) (\<lambda>hb.
       let h = header_of_bytes hb in
       if 0 < payload_length h then payload_rest f h (replicate (unat (payload_length h)) 0) 0
       else co_ret \<lparr>cf_header = h, cf_payload = []\<rparr>)"
| "rest_of cmd_names f (InPayload h buf t) = payload_rest f h buf t"
| "rest_of cmd_names f (InLine line buf t) =
     char_rest f (line_rest cmd_names f)
       (\<lambda>l. case parse_text_header cmd_names l 0 0 of
          (False, _, _) \<Rightarrow> co_ret empty_frame
        | (True, cmd, sid) \<Rightarrow> payload_line_rest f cmd sid []) line buf t"
| "rest_of cmd_names f (InPayloadLine cmd sid line buf t) =
     char_rest f (payload_line_rest f cmd sid) (\<lambda>l. co_ret (text_frame cmd sid l)) line buf t"
| "rest_of cmd_names f (GotFrame fr) = co_ret fr"

lemma co_ret_bind: "co_bind (co_ret a) k = k a"
  by (rule ext) (simp add: co_bind_def)

text \<open>The loop of \<^verbatim>\<open>read_text_line\<close> as its turns.\<close>

lemma text_line_turn:
  "co_bind (read_text_line_loop f line) k = char_rest f (\<lambda>l. co_bind (read_text_line_loop f l) k) k line [0] 0"
proof (rule ext)
  fix w
  obtain r w' where r: "read_exact_loop f [0] 0 w = (r, w')" by fastforce
  then show "co_bind (read_text_line_loop f line) k w =
      char_rest f (\<lambda>l. co_bind (read_text_line_loop f l) k) k line [0] 0 w"
    unfolding co_bind_def [of "read_text_line_loop f line"] read_text_line_loop.simps [of f line] char_rest_def
    by (cases r) (simp_all add: async_read_exact_def co_bind_def Let_def)
qed

lemma rest_of_line: "rest_of cmd_names f (InLine line [0] 0) = line_rest cmd_names f line"
  unfolding rest_of.simps line_rest_def by (subst text_line_turn) (rule refl)

lemma rest_of_payload_line: "rest_of cmd_names f (InPayloadLine cmd sid line [0] 0) = payload_line_rest f cmd sid line"
  unfolding rest_of.simps payload_line_rest_def by (subst text_line_turn) (rule refl)

text \<open>From its start, it is the whole read.\<close>

lemma rest_of_start:
  "rest_of cmd_names f (reading_start BINARY) = read_frame f"
  "rest_of cmd_names f (reading_start TEXT) = read_text_frame cmd_names f"
proof -
  show "rest_of cmd_names f (reading_start BINARY) = read_frame f"
    by (simp add: reading_start_def read_frame_def payload_rest_def async_read_exact_def Let_def cong: if_cong)
  show "rest_of cmd_names f (reading_start TEXT) = read_text_frame cmd_names f"
    unfolding reading_start_def ProtocolMode.case rest_of_line line_rest_def read_text_frame_def read_text_line_def
      payload_line_rest_def text_frame_def Let_def ..
qed

text \<open>The code behind a completed \<^verbatim>\<open>async_read_exact\<close> goes on as the functional reading says.\<close>

lemma rest_of_more:
  assumes "rest_of cmd_names f (wait buf t) = co_bind (read_exact_loop f buf t) (\<lambda>b. rest_of cmd_names f (k b))"
  shows "rest_of cmd_names f (exact_more wait k buf t) =
    co_bind (read_exact_loop f buf t) (\<lambda>b. rest_of cmd_names f (k b))"
proof (cases "t < length buf")
  case True
  with assms show ?thesis by (simp add: exact_more_def)
next
  case False
  then have "read_exact_loop f buf t = co_ret buf" by (simp add: fun_eq_iff read_exact_loop.simps)
  with False show ?thesis by (simp add: exact_more_def co_ret_bind)
qed

lemma rest_of_header_read:
  "rest_of cmd_names f (header_read hb) =
     (let h = header_of_bytes hb in
      if 0 < payload_length h then payload_rest f h (replicate (unat (payload_length h)) 0) 0
      else co_ret \<lparr>cf_header = h, cf_payload = []\<rparr>)"
  unfolding header_read_def Let_def by (simp add: rest_of_more payload_rest_def)

lemma rest_of_line_read:
  "rest_of cmd_names f (line_read cmd_names l) =
     (case parse_text_header cmd_names l 0 0 of
        (False, _, _) \<Rightarrow> co_ret empty_frame
      | (True, cmd, sid) \<Rightarrow> payload_line_rest f cmd sid [])"
  by (simp add: line_read_def rest_of_payload_line del: rest_of.simps(4) split: prod.split bool.split)

lemma rest_of_char_read:
  "rest_of cmd_names f (char_read again returned line cs) =
     (let c = char_of_byte (hd cs) in
      if c = newline then rest_of cmd_names f (returned line) else rest_of cmd_names f (again (line @ [c])))"
  by (simp add: char_read_def Let_def)

lemma rest_of_in_line:
  "rest_of cmd_names f (InLine line buf t) =
     co_bind (read_exact_loop f buf t) (\<lambda>cs.
       rest_of cmd_names f (char_read (\<lambda>l. InLine l [0] 0) (line_read cmd_names) line cs))"
  by (subst rest_of.simps(3)) (unfold char_rest_def rest_of_char_read rest_of_line_read rest_of_line, rule refl)

lemma rest_of_in_payload_line:
  "rest_of cmd_names f (InPayloadLine cmd sid line buf t) =
     co_bind (read_exact_loop f buf t) (\<lambda>cs. rest_of cmd_names f
       (char_read (\<lambda>l. InPayloadLine cmd sid l [0] 0) (\<lambda>l. GotFrame (text_frame cmd sid l)) line cs))"
  by (subst rest_of.simps(4)) (unfold char_rest_def rest_of_char_read rest_of_payload_line rest_of.simps(5), rule refl)

text \<open>
  One receive. If the read is suspended in one, its functional reading is the receive followed by
  what the coroutine does when it is resumed.
\<close>

definition waiting :: "read_locals \<Rightarrow> bool" where
  "waiting st \<longleftrightarrow> 0 < span_left st"

lemma read_exact_turn:
  assumes "t < length buf"
  shows "co_bind (read_exact_loop f buf t) k =
    co_bind (async_read f (length buf - t)) (\<lambda>(r, data).
      if r = 0 then co_throw (RuntimeError ''Connection closed by client'')
      else co_bind (read_exact_loop f (overwrite buf t data) (size_add t r)) k)"
  using assms
  by (intro ext) (simp add: co_bind_def read_exact_loop.simps [of f buf t] split: prod.split outcome.split)

lemma rest_of_exact:
  assumes "t < length buf"
    and "\<And>buf t. rest_of cmd_names f (wait buf t) =
      co_bind (read_exact_loop f buf t) (\<lambda>b. rest_of cmd_names f (k b))"
    and "\<And>r data. bytes_read cmd_names (wait buf t) r data = exact_more wait k (overwrite buf t data) (size_add t r)"
  shows "rest_of cmd_names f (wait buf t) =
    co_bind (async_read f (length buf - t)) (\<lambda>d.
      case resume_read cmd_names (wait buf t) d of Inl e \<Rightarrow> co_throw e | Inr st' \<Rightarrow> rest_of cmd_names f st')"
  unfolding assms(2) [of buf t] read_exact_turn [OF assms(1)]
  by (rule arg_cong [where f = "co_bind _"])
    (auto simp: fun_eq_iff resume_read_def assms(3) rest_of_more [where f = f, OF assms(2)])

lemma rest_of_turn:
  assumes "waiting st"
  shows "rest_of cmd_names f st =
    co_bind (async_read f (span_left st)) (\<lambda>d.
      case resume_read cmd_names st d of Inl e \<Rightarrow> co_throw e | Inr st' \<Rightarrow> rest_of cmd_names f st')"
proof (cases st)
  case (InHeader buf t)
  with assms show ?thesis
    by (simp only: span_left.simps, intro rest_of_exact) (simp_all add: waiting_def rest_of_header_read)
next
  case (InPayload h buf t)
  with assms show ?thesis
    by (simp only: span_left.simps, intro rest_of_exact) (simp_all add: waiting_def payload_rest_def)
next
  case (InLine line buf t)
  with assms show ?thesis
    by (simp only: span_left.simps, intro rest_of_exact) (simp_all only: waiting_def rest_of_in_line, simp_all)
next
  case (InPayloadLine cmd sid line buf t)
  with assms show ?thesis
    by (simp only: span_left.simps, intro rest_of_exact) (simp_all only: waiting_def rest_of_in_payload_line, simp_all)
next
  case (GotFrame fr)
  with assms show ?thesis by (simp add: waiting_def)
qed

section \<open>Receives on a queue\<close>

text \<open>A receive sees the queue of its own socket only.\<close>

fun recv_result :: "nat \<Rightarrow> rx_event list \<Rightarrow> (int \<times> bytes) outcome \<times> rx_event list" where
  "recv_result n [] = (Pending, [])"
| "recv_result n (RxErrno e # q) =
     ((case await_resume (- int e) of Inl x \<Rightarrow> Throw x | Inr r \<Rightarrow> Ret (r, [])), q)"
| "recv_result n (RxData bs # q) =
     (Ret (int (length (take n bs)), take n bs), if drop n bs = [] then q else RxData (drop n bs) # q)"

lemma async_read_recv:
  "async_read f n w = (fst (recv_result n (rx w f)), set_rx f (snd (recv_result n (rx w f))) w)"
proof (cases "rx w f")
  case Nil
  then have "set_rx f [] w = w" using set_rx_simps(3) [of f w] by simp
  with Nil show ?thesis by (simp add: async_read_def)
next
  case (Cons ev q)
  then show ?thesis
    by (cases ev) (simp_all add: async_read_def co_bind_def co_of_sum_def split: sum.split)
qed

text \<open>Only an empty queue suspends; what arrives later does not change what was received.\<close>

lemma recv_pending: "fst (recv_result n q) = Pending \<longleftrightarrow> q = []"
  by (cases "(n, q)" rule: recv_result.cases) (auto split: sum.split)

lemma recv_append: "q \<noteq> [] \<Longrightarrow> recv_result n (q @ evs) = (fst (recv_result n q), snd (recv_result n q) @ evs)"
  by (cases "(n, q)" rule: recv_result.cases) auto

section \<open>Reads in progress\<close>

text \<open>
  A read that began when the queue of its socket was \<open>q0\<close> has come to \<open>st\<close>, with \<open>q\<close> still in
  the queue.
\<close>

inductive got_to :: "(string \<rightharpoonup> u16) \<Rightarrow> ProtocolMode \<Rightarrow> rx_event list \<Rightarrow> read_locals \<Rightarrow> rx_event list \<Rightarrow> bool"
    for cmd_names mode q0 where
  start: "got_to cmd_names mode q0 (reading_start mode) q0"
| receive: "\<lbrakk>got_to cmd_names mode q0 st q; waiting st; recv_result (span_left st) q = (Ret d, q');
      resume_read cmd_names st d = Inr st'\<rbrakk> \<Longrightarrow> got_to cmd_names mode q0 st' q'"

lemma rest_of_recv:
  assumes "waiting st" "recv_result (span_left st) (rx w f) = (Ret d, q)"
  shows "rest_of cmd_names f st w =
    (case resume_read cmd_names st d of
       Inl e \<Rightarrow> (Throw e, set_rx f q w) | Inr st' \<Rightarrow> rest_of cmd_names f st' (set_rx f q w))"
  unfolding rest_of_turn [OF assms(1)] using assms(2)
  by (simp add: co_bind_def async_read_recv split: sum.split)

lemma rest_of_recv_fails:
  assumes "waiting st" "recv_result (span_left st) (rx w f) = (Throw e, q)"
  shows "rest_of cmd_names f st w = (Throw e, set_rx f q w)"
  unfolding rest_of_turn [OF assms(1)] using assms(2) by (simp add: co_bind_def async_read_recv)

text \<open>
  The read in progress ends as the whole read would that finds the whole queue, and bytes that
  arrive meanwhile might as well have been there from the start.
\<close>

lemma got_to_rest:
  assumes "got_to cmd_names mode q0 st q" "rx w f = q0"
  shows "rest_of cmd_names f (reading_start mode) w = rest_of cmd_names f st (set_rx f q w)"
  using assms(1)
proof (induction rule: got_to.induct)
  case start
  then show ?case using assms(2) set_rx_simps(3) [of f w] by simp
next
  case (receive st q d q' st')
  then show ?case using rest_of_recv [where w = "set_rx f q w" and f = f and st = st] by simp
qed

lemma got_to_append: "got_to cmd_names mode q0 st q \<Longrightarrow> got_to cmd_names mode (q0 @ evs) st (q @ evs)"
proof (induction rule: got_to.induct)
  case start
  show ?case by (rule got_to.start)
next
  case (receive st q d q' st')
  then have "q \<noteq> []" using recv_pending [of "span_left st" q] by auto
  from recv_append [OF this, of "span_left st" evs] receive.hyps
  have "recv_result (span_left st) (q @ evs) = (Ret d, q' @ evs)" by simp
  with receive.IH receive.hyps(2) show ?case using receive.hyps(4) by (rule got_to.receive)
qed

text \<open>A read in progress waits for a receive or is complete.\<close>

definition settled :: "read_locals \<Rightarrow> bool" where
  "settled st \<longleftrightarrow> waiting st \<or> got_frame st \<noteq> None"

lemma settled_exact_more:
  "\<lbrakk>t < length buf \<Longrightarrow> settled (wait buf t); settled (k buf)\<rbrakk> \<Longrightarrow> settled (exact_more wait k buf t)"
  by (simp add: exact_more_def)

lemma settled_reads:
  "settled (GotFrame fr)" "t < length buf \<Longrightarrow> settled (InHeader buf t)" "t < length buf \<Longrightarrow> settled (InPayload h buf t)"
  "t < length buf \<Longrightarrow> settled (InLine line buf t)" "t < length buf \<Longrightarrow> settled (InPayloadLine cmd sid line buf t)"
  by (simp_all add: settled_def waiting_def)

lemma settled_header_read: "settled (header_read hb)"
  by (auto simp: header_read_def Let_def intro: settled_exact_more settled_reads)

lemma settled_line_read: "settled (line_read cmd_names line)"
  by (auto simp: line_read_def intro: settled_reads split: prod.split bool.split)

lemma settled_bytes_read: "settled (bytes_read cmd_names st r data)"
  by (cases st)
    (auto simp: char_read_def Let_def intro!: settled_exact_more settled_reads settled_header_read settled_line_read)

lemma got_to_settled: "got_to cmd_names mode q0 st q \<Longrightarrow> settled st"
proof (induction rule: got_to.induct)
  case start
  show ?case
    by (auto simp: reading_start_def sizeof_FrameHeader_def intro: settled_reads split: ProtocolMode.split)
next
  case (receive st q d q' st')
  then show ?case using settled_bytes_read by (auto simp: resume_read_def split: prod.splits if_splits)
qed

lemma got_frame_iff: "got_frame st = Some fr \<longleftrightarrow> st = GotFrame fr"
  by (cases st) auto

end
