(* ===== verification/Interleaved_Reads.thy ===== *)
theory Interleaved_Reads
  imports Partial_Reads Whole_Server
begin

text \<open>
  The whole server with its reads cut at every receive. In \<^verbatim>\<open>Whole_Server\<close> a client coroutine
  takes its request from the socket in one step and takes nothing while the request is
  incomplete. Here it takes what is there, keeps it in its locals and is suspended again, and the
  other coroutines run in between. The theory shows that this makes no difference: with the bytes
  put back that are in the hands of suspended reads, every state of the finer server is one of the
  other.
\<close>

section \<open>Code that does not look at the receive queues\<close>

definition put_rx :: "(fd \<Rightarrow> rx_event list) \<Rightarrow> world \<Rightarrow> world" where
  "put_rx Q w = w\<lparr>rx := Q\<rparr>"

definition put_rx_ctx :: "(fd \<Rightarrow> rx_event list) \<Rightarrow> Context \<Rightarrow> Context" where
  "put_rx_ctx Q ctx = ctx\<lparr>ctx_world := put_rx Q (ctx_world ctx)\<rparr>"

definition put_rx_req :: "(fd \<Rightarrow> rx_event list) \<Rightarrow> request_state \<Rightarrow> request_state" where
  "put_rx_req Q = apsnd (put_rx Q)"

definition put_rx_sys :: "(fd \<Rightarrow> rx_event list) \<Rightarrow> 'st system \<Rightarrow> 'st system" where
  "put_rx_sys Q s = s\<lparr>kernel := put_rx Q (kernel s)\<rparr>"

text \<open>A coroutine that behaves the same whatever the queues hold, and leaves them as they are.\<close>

definition ignores :: "('q \<Rightarrow> 's \<Rightarrow> 's) \<Rightarrow> ('s, 'a) co \<Rightarrow> bool" where
  "ignores put m \<longleftrightarrow> (\<forall>Q s. m (put Q s) = apsnd (put Q) (m s))"

lemma ignoresD: "ignores put m \<Longrightarrow> m (put Q s) = apsnd (put Q) (m s)"
  by (simp add: ignores_def)

lemma ignores_ret [intro]: "ignores put (co_ret a)"
  by (simp add: ignores_def)

lemma ignores_Pair [intro]: "ignores put (Pair r)"
  by (simp add: ignores_def)

lemma ignores_throw [intro]: "ignores put (co_throw e)"
  by (simp add: ignores_def)

lemma ignores_of_sum [intro]: "ignores put (co_of_sum r)"
  by (simp add: ignores_def co_of_sum_def split: sum.split)

lemma ignores_bind [intro]:
  assumes "ignores put m" "\<And>a. ignores put (k a)"
  shows "ignores put (co_bind m k)"
  unfolding ignores_def
proof (intro allI)
  fix Q s
  obtain r t where "m s = (r, t)" by fastforce
  with assms show "co_bind m k (put Q s) = apsnd (put Q) (co_bind m k s)"
    by (cases r) (simp_all add: co_bind_def ignoresD)
qed

lemma ignores_seq [intro]: "ignores put m \<Longrightarrow> ignores put k \<Longrightarrow> ignores put (co_seq m k)"
  unfolding co_seq_def by (rule ignores_bind)

text \<open>The kernel's other services.\<close>

lemma ignores_sends [intro]:
  "ignores put_rx (async_write f buf)" "ignores put_rx (async_sendto f buf addr)"
  "ignores put_rx (async_recvmsg f n)"
  by (auto simp: ignores_def put_rx_def async_write_def async_sendto_def async_recvmsg_def co_of_sum_def co_bind_def
      split: list.split dgram_event.split sum.split)

lemma ignores_send_frame [intro]: "ignores put_rx (send_frame conn h p)"
  by (cases conn) (auto simp: send_frame.simps send_frame_defs)

lemma ignores_random [intro]: "ignores put_rx (gen n)" "ignores put_rx generate_private"
  by (auto simp: ignores_def put_rx_def gen_def generate_private_def split: prod.split list.split)

lemma ignores_in_world [intro]: "ignores put_rx m \<Longrightarrow> ignores put_rx_ctx (in_world m)"
  by (simp add: ignores_def in_world_def put_rx_ctx_def split: prod.split)

lemma ignores_on_world [intro]: "ignores put_rx m \<Longrightarrow> ignores put_rx_req (on_world m)"
  by (auto simp: ignores_def on_world_def put_rx_req_def split: prod.split)

lemma ignores_with_context [intro]:
  assumes "ignores put_rx_ctx m"
  shows "ignores put_rx_req (with_context h p conn m)"
proof -
  have "mk_context h p x conn (put_rx Q w) = put_rx_ctx Q (mk_context h p x conn w)" for x Q w
    by (simp add: mk_context_def put_rx_ctx_def)
  with assms show ?thesis
    by (auto simp: ignores_def with_context_def put_rx_req_def split_beta Let_def put_rx_ctx_def [of _ "snd _"])
qed

lemmas ignores_intros = ignores_ret ignores_Pair ignores_throw ignores_of_sum ignores_bind ignores_seq ignores_sends
  ignores_send_frame ignores_random ignores_in_world ignores_on_world ignores_with_context

text \<open>A coroutine that depends on a part of the state which the queues do not touch.\<close>

lemma ignores_at:
  assumes "\<And>x. ignores put (m x)" "\<And>Q s. g (put Q s) = g s"
  shows "ignores put (\<lambda>s. m (g s) s)"
  using assms by (simp add: ignores_def)

lemma ignores_option:
  "\<lbrakk>ignores put m; \<And>x. ignores put (k x)\<rbrakk> \<Longrightarrow> ignores put (\<lambda>s. case v of None \<Rightarrow> m s | Some x \<Rightarrow> k x s)"
  by (cases v) simp_all

section \<open>The command pipeline\<close>

text \<open>
  The hypothesis about user code: authenticators and handlers get a \<^verbatim>\<open>Context\<close>, which gives them
  the session and a connection to send on, and no way to receive.
\<close>

definition user_code_ignores_rx :: "pipeline \<Rightarrow> bool" where
  "user_code_ignores_rx pl \<longleftrightarrow> ignores put_rx_ctx (pl_authenticator pl) \<and>
     (\<forall>c h. handler (pl_router pl c) = Some h \<longrightarrow> ignores put_rx_ctx h)"

lemma ignores_gate:
  "user_code_ignores_rx pl \<Longrightarrow> ignores put_rx_ctx (gate (pl_authenticator pl) ep conn)"
  by (auto simp: gate_def user_code_ignores_rx_def)

lemma ignores_invoke:
  assumes "user_code_ignores_rx pl" "router_get c (pl_router pl) = Some ep"
  shows "ignores put_rx_ctx (invoke ep)"
proof -
  have "ep = pl_router pl c" using assms(2) by (simp add: router_get_def split: if_splits)
  with assms(1) show ?thesis by (auto simp: invoke_def user_code_ignores_rx_def split: option.split)
qed

lemma ignores_reply:
  assumes "\<And>x. ignores put_rx (m x)"
  shows "ignores put_rx_ctx (\<lambda>ctx. in_world (m (sess_id (ctx_session ctx))) ctx)"
  by (rule ignores_at [where g = "\<lambda>ctx. sess_id (ctx_session ctx)"]) (auto simp: assms, simp add: put_rx_ctx_def)

lemma ignores_key_exchange: "ignores put_rx_req (handle_key_exchange B frame conn)"
proof -
  have set: "ignores put_rx_req (\<lambda>(x, w). (Ret (), (set_aes_key k x, w)))" for k
    by (simp add: ignores_def put_rx_req_def split: prod.split)
  have snd: "ignores put_rx_req (\<lambda>(x, w). on_world (m x) (x, w))"
    if "\<And>x. ignores put_rx (m x)" for m :: "Session \<Rightarrow> (world, unit) co"
    using ignoresD [OF ignores_on_world [OF that]] by (auto simp: ignores_def put_rx_req_def)
  show ?thesis
    unfolding handle_key_exchange_def Let_def by (auto intro!: ignores_intros set snd)
qed

lemma ignores_normal:
  assumes "user_code_ignores_rx pl"
  shows "ignores put_rx_req (handle_normal_command pl frame conn)"
  unfolding handle_normal_command_def
  by (auto split: option.split intro!: ignores_intros ignores_gate [OF assms] ignores_invoke [OF assms] ignores_reply)

lemma ignores_route:
  assumes "user_code_ignores_rx pl"
  shows "ignores put_rx_req (do_route_and_send pl conn cipher cmd p)"
proof (cases "router_get cmd (pl_router pl)")
  case None
  then show ?thesis by (auto simp: do_route_and_send_def)
next
  case (Some ep)
  show ?thesis
    unfolding do_route_and_send_def Some option.case Let_def case_prod_beta' prod.collapse
    by (rule ignores_at [where g = "\<lambda>st. sess_id (fst st)"])
      (auto intro!: ignores_intros ignores_gate [OF assms] ignores_invoke [OF assms Some] ignores_reply,
        simp add: put_rx_req_def)
qed

lemma ignores_process:
  assumes "user_code_ignores_rx pl"
  shows "ignores put_rx_req (process_command pl frame conn)"
proof -
  have "ignores put_rx_req (handle_encrypted_message pl frame conn)"
    using ignores_route [OF assms] unfolding handle_encrypted_message_def
    by (auto simp: ignores_def put_rx_req_def split: sum.split option.split)
  then show ?thesis by (simp add: process_command_def ignores_key_exchange ignores_normal [OF assms])
qed

section \<open>The finer server\<close>

text \<open>
  What a client coroutine does with a complete request, up to the start of the command. \<open>None\<close>
  means that it is suspended in the store.
\<close>

definition after_read :: "fd \<Rightarrow> client \<Rightarrow> ClientFrame \<Rightarrow> 'st system \<Rightarrow> 'st system option" where
  "after_read f c frame s =
     (case session_store s of
        None \<Rightarrow> Some (client_catch (RuntimeError ''SessionStore not initialized'') f c s)
      | Some store \<Rightarrow>
          let sid = session_id (cf_header frame) in
          (case get_or_create store sid (store_state s) of
             (Pending, _) \<Rightarrow> None
           | (Throw e, st) \<Rightarrow> Some (client_catch e f c (s\<lparr>store_state := st\<rparr>))
           | (Ret session, st) \<Rightarrow>
               Some (let s1 = switch_session f c sid (s\<lparr>store_state := st\<rparr>) in
                     s1\<lparr>conns := (conns s1)(f \<mapsto> c\<lparr>current_sid := sid, c_flight := Some (frame, session)\<rparr>)\<rparr>)))"

lemma client_receive_after:
  "client_receive f c s =
     (case read_request s f c (kernel s) of
        (Pending, _) \<Rightarrow> s
      | (Throw e, w) \<Rightarrow> client_catch e f c (s\<lparr>kernel := w\<rparr>)
      | (Ret frame, w) \<Rightarrow> (case after_read f c frame (s\<lparr>kernel := w\<rparr>) of None \<Rightarrow> s | Some t \<Rightarrow> t))"
  by (simp add: client_receive_def after_read_def Let_def split: prod.split outcome.split option.split)

text \<open>The server, and the locals of the client coroutines that are suspended in a receive.\<close>

record fine_server =
  srv :: "session_map system"
  reads :: "fd \<rightharpoonup> read_locals"

definition reading_of :: "fd \<Rightarrow> client \<Rightarrow> fine_server \<Rightarrow> read_locals" where
  "reading_of f c x = (case reads x f of None \<Rightarrow> reading_start (c_mode c) | Some st \<Rightarrow> st)"

definition read_to :: "fd \<Rightarrow> client \<Rightarrow> read_locals \<Rightarrow> session_map system \<Rightarrow> fine_server \<Rightarrow> fine_server" where
  "read_to f c st s x =
     (case got_frame st of
        None \<Rightarrow> x\<lparr>srv := s, reads := (reads x)(f \<mapsto> st)\<rparr>
      | Some frame \<Rightarrow>
          (case after_read f c frame s of
             None \<Rightarrow> x\<lparr>srv := s, reads := (reads x)(f \<mapsto> st)\<rparr>
           | Some t \<Rightarrow> x\<lparr>srv := t, reads := (reads x)(f := None)\<rparr>))"

definition read_fails :: "exn \<Rightarrow> fd \<Rightarrow> client \<Rightarrow> session_map system \<Rightarrow> fine_server \<Rightarrow> fine_server" where
  "read_fails e f c s x = x\<lparr>srv := client_catch e f c s, reads := (reads x)(f := None)\<rparr>"

text \<open>A turn of a client coroutine that is reading: from one receive to the next.\<close>

definition read_turn :: "fd \<Rightarrow> client \<Rightarrow> fine_server \<Rightarrow> fine_server" where
  "read_turn f c x =
     (let st = reading_of f c x; s = srv x in
      if got_frame st \<noteq> None then read_to f c st s x
      else
        (case async_read f (span_left st) (kernel s) of
           (Pending, _) \<Rightarrow> x
         | (Throw e, w) \<Rightarrow> read_fails e f c (s\<lparr>kernel := w\<rparr>) x
         | (Ret d, w) \<Rightarrow>
             (case resume_read (text_command_names s) st d of
                Inl e \<Rightarrow> read_fails e f c (s\<lparr>kernel := w\<rparr>) x
              | Inr st' \<Rightarrow> read_to f c st' (s\<lparr>kernel := w\<rparr>) x)))"

text \<open>The steps of the coroutines that are not reading a request.\<close>

inductive other_step :: "session_map system \<Rightarrow> session_map system \<Rightarrow> bool" where
  accept: "\<lbrakk>running s; 0 \<le> f; f < 2 ^ 31; f \<notin> open_fds s\<rbrakk> \<Longrightarrow> other_step s (accept_turn mode f s)"
| finish: "\<lbrakk>conns s f = Some c; c_flight c = Some (frame, session)\<rbrakk> \<Longrightarrow>
    other_step s (client_finish f c frame session s)"
| leave: "\<lbrakk>running s; conns s f = Some c; c_leaving c\<rbrakk> \<Longrightarrow> other_step s (client_leave f c s)"
| datagram: "udp_turn f buffer s = (goes_on, buffer', t) \<Longrightarrow> other_step s t"
| discovery: "discovery_turn f s = (goes_on, t) \<Longrightarrow> other_step s t"
| announce: "announce_if_idle s = (r, t) \<Longrightarrow> other_step s t"
| push: "send_to sid cmd payload s = (r, t) \<Longrightarrow> other_step s t"
| push_all: "broadcast cmd payload s = (r, t) \<Longrightarrow> other_step s t"
| push_some: "broadcast_if cmd payload predicate s = (r, t) \<Longrightarrow> other_step s t"
| stop: "other_step s (s\<lparr>running := False\<rparr>)"

lemma other_step_server: "other_step s t \<Longrightarrow> server_step s t"
  by (induction rule: other_step.induct) (blast intro: server_step.intros)+

text \<open>
  The kernel delivers more on the sockets, and changes everything else but what was sent. The
  last rule is the turn of a reading client.
\<close>

inductive fine_step :: "fine_server \<Rightarrow> fine_server \<Rightarrow> bool" where
  other: "other_step (srv x) t \<Longrightarrow> fine_step x (x\<lparr>srv := t\<rparr>)"
| arrive: "\<lbrakk>rx w = (\<lambda>f. rx (kernel (srv x)) f @ evs f); tx_log w = tx_log (kernel (srv x))\<rbrakk> \<Longrightarrow>
    fine_step x (x\<lparr>srv := (srv x)\<lparr>kernel := w\<rparr>\<rparr>)"
| read: "\<lbrakk>running (srv x); conns (srv x) f = Some c; c_flight c = None; \<not> c_leaving c\<rbrakk> \<Longrightarrow>
    fine_step x (read_turn f c x)"

inductive fine_reachable :: "session_map system \<Rightarrow> fine_server \<Rightarrow> bool" for s0 where
  start: "fine_reachable s0 \<lparr>srv = s0, reads = Map.empty\<rparr>"
| step: "fine_reachable s0 x \<Longrightarrow> fine_step x y \<Longrightarrow> fine_reachable s0 y"

section \<open>Steps and the receive queues\<close>

lemma put_rx_sys_simps [simp]:
  "running (put_rx_sys Q s) = running s" "conns (put_rx_sys Q s) = conns s"
  "open_fds (put_rx_sys Q s) = open_fds s" "sessions (put_rx_sys Q s) = sessions s"
  "session_store (put_rx_sys Q s) = session_store s" "store_state (put_rx_sys Q s) = store_state s"
  "text_command_names (put_rx_sys Q s) = text_command_names s" "pipeline_of (put_rx_sys Q s) = pipeline_of s"
  "kernel (put_rx_sys Q s) = put_rx Q (kernel s)"
  "put_rx_sys Q (s\<lparr>kernel := w\<rparr>) = s\<lparr>kernel := put_rx Q w\<rparr>"
  "put_rx_sys Q' (put_rx_sys Q s) = put_rx_sys Q' s"
  "put_rx_sys (rx (kernel s)) s = s"
  by (simp_all add: put_rx_sys_def put_rx_def pipeline_of_def)

lemma put_rx_simps [simp]: "rx (put_rx Q w) = Q" "tx_log (put_rx Q w) = tx_log w" "put_rx Q' (put_rx Q w) = put_rx Q' w"
  "put_rx (rx w) w = w"
  by (simp_all add: put_rx_def)

text \<open>The ends of clients, the accept turn and the switch of sessions.\<close>

lemma put_rx_unregister: "unregister_session sid (put_rx_sys Q s) = put_rx_sys Q (unregister_session sid s)"
  by (simp add: unregister_session_def put_rx_sys_def)

lemma put_rx_close:
  "client_die f (put_rx_sys Q s) = put_rx_sys Q (client_die f s)"
  "client_close f (put_rx_sys Q s) = put_rx_sys Q (client_close f s)"
  by (simp_all add: client_die_def client_close_def put_rx_sys_def reenable_discovery_def Let_def)

lemma put_rx_exit: "client_exit f c (put_rx_sys Q s) = put_rx_sys Q (client_exit f c s)"
proof -
  define s1 where "s1 = (if current_sid c \<noteq> NO_SID then unregister_session (current_sid c) s else s)"
  have s1: "(if current_sid c \<noteq> NO_SID then unregister_session (current_sid c) (put_rx_sys Q s) else put_rx_sys Q s) =
      put_rx_sys Q s1"
    by (simp add: s1_def put_rx_unregister)
  have pool: "thread_pool_ref (put_rx_sys Q s1) = thread_pool_ref s1"
      "disconnect_handler (put_rx_sys Q s1) = disconnect_handler s1"
    by (simp_all add: thread_pool_ref_def put_rx_sys_def)
  have set: "(put_rx_sys Q s1)\<lparr>conns := v\<rparr> = put_rx_sys Q (s1\<lparr>conns := v\<rparr>)" for v
    by (simp add: put_rx_sys_def)
  show ?thesis
    unfolding client_exit_def Let_def s1 s1_def [symmetric] pool
    by (auto simp: put_rx_close set split: sum.split)
qed

lemma put_rx_leave: "client_leave f c (put_rx_sys Q s) = put_rx_sys Q (client_leave f c s)"
proof -
  have set: "(put_rx_sys Q s)\<lparr>disconnects := v (disconnects (put_rx_sys Q s))\<rparr> = put_rx_sys Q (s\<lparr>disconnects := v (disconnects s)\<rparr>)" for v
    by (simp add: put_rx_sys_def)
  have "disconnect_handler (put_rx_sys Q s) = disconnect_handler s" by (simp add: put_rx_sys_def)
  then show ?thesis
    using set [of "\<lambda>d. d @ [current_sid c]"]
    by (simp add: client_leave_def put_rx_close split: option.split sum.split)
qed

lemma put_rx_catch: "client_catch e f c (put_rx_sys Q s) = put_rx_sys Q (client_catch e f c s)"
  by (simp add: client_catch_def put_rx_exit put_rx_close)

lemma put_rx_accept: "accept_turn mode f (put_rx_sys Q s) = put_rx_sys Q (accept_turn mode f s)"
  by (simp add: accept_turn_def client_start_def disable_discovery_def put_rx_sys_def Let_def split: sum.split)

lemma put_rx_switch: "switch_session f c sid (put_rx_sys Q s) = put_rx_sys Q (switch_session f c sid s)"
  by (simp add: switch_session_def register_session_def unregister_session_def put_rx_sys_def)

lemma put_rx_fields:
  "(put_rx_sys Q s)\<lparr>store_state := st\<rparr> = put_rx_sys Q (s\<lparr>store_state := st\<rparr>)"
  "(put_rx_sys Q s)\<lparr>conns := v\<rparr> = put_rx_sys Q (s\<lparr>conns := v\<rparr>)"
  "(put_rx_sys Q s)\<lparr>running := b\<rparr> = put_rx_sys Q (s\<lparr>running := b\<rparr>)"
  "s\<lparr>kernel := put_rx Q w\<rparr> = put_rx_sys Q (s\<lparr>kernel := w\<rparr>)"
  "(put_rx_sys Q s)\<lparr>kernel := w\<rparr> = s\<lparr>kernel := w\<rparr>"
  by (simp_all add: put_rx_sys_def)

lemma put_rx_after_read: "after_read f c fr (put_rx_sys Q s) = map_option (put_rx_sys Q) (after_read f c fr s)"
  by (simp add: after_read_def put_rx_catch put_rx_switch put_rx_fields Let_def split: option.split prod.split outcome.split)

lemma put_rx_process:
  assumes "user_code_ignores_rx pl" "process_command pl fr conn (x, w) = (r, (x', w'))"
  shows "process_command pl fr conn (x, put_rx Q w) = (r, (x', put_rx Q w'))"
  using ignoresD [OF ignores_process [OF assms(1)], of fr conn Q "(x, w)"] assms(2) by (simp add: put_rx_req_def)

lemma put_rx_finish:
  assumes "user_code_ignores_rx (pipeline_of s)"
  shows "client_finish f c fr x (put_rx_sys Q s) = put_rx_sys Q (client_finish f c fr x s)"
proof -
  obtain r x' w where pc: "process_command (pipeline_of s) fr (client_connection f c) (x, kernel s) = (r, (x', w))"
    by (metis prod.collapse)
  note pq = put_rx_process [OF assms pc, of Q]
  show ?thesis
    using pc pq
    by (cases r)
      (simp_all add: client_finish_def put_rx_catch put_rx_exit put_rx_fields Let_def
        del: put_rx_sys_simps(10) split: option.split prod.split outcome.split)
qed

lemma put_rx_datagram:
  assumes "user_code_ignores_rx (pipeline_of s)" "udp_turn f buffer s = (goes_on, buffer', t)"
  shows "udp_turn f buffer (put_rx_sys Q s) = (goes_on, buffer', put_rx_sys Q t)"
proof -
  obtain r w where rm: "async_recvmsg f UDP_BUFFER (kernel s) = (r, w)" by fastforce
  have rq: "async_recvmsg f UDP_BUFFER (put_rx Q (kernel s)) = (r, put_rx Q w)"
    using ignoresD [OF ignores_sends(3)] rm by simp
  have pl: "pipeline_of (s\<lparr>kernel := v\<rparr>) = pipeline_of s" for v by (simp add: pipeline_of_def)
  note fields = put_rx_fields(1,4,5)
  show ?thesis
  proof (cases r)
    case (Ret m)
    obtain n data addr where m: "m = (n, data, addr)" by (metis prod_cases3)
    define fr where "fr = udp_request (overwrite buffer 0 data) n"
    have pc: "process_command (pipeline_of s) fr conn (x, put_rx Q w) =
        apsnd (apsnd (put_rx Q)) (process_command (pipeline_of s) fr conn (x, w))" for x conn
      using ignoresD [OF ignores_process [OF assms(1)], of fr conn Q "(x, w)"] by (simp add: put_rx_req_def)
    show ?thesis
      using assms(2) rm rq Ret m pc
      by (auto simp: udp_turn_def Let_def pl fields simp flip: fr_def simp del: put_rx_sys_simps(10)
          split: option.splits prod.splits outcome.splits if_splits)
  next
    case (Throw e)
    with assms(2) rm rq show ?thesis by (simp add: udp_turn_def fields del: put_rx_sys_simps(10)) 
  next
    case Pending
    with assms(2) rm rq show ?thesis by (simp add: udp_turn_def)
  qed
qed

lemma announcement_kernel [simp]: "announcement (s\<lparr>kernel := w\<rparr>) = announcement s"
  by (simp add: announcement_def reply_tcp_port_def reply_udp_port_def)

lemma announcement_put_rx [simp]:
  "announcement (put_rx_sys Q s) = announcement s" "discovery_config (put_rx_sys Q s) = discovery_config s"
  by (simp_all add: put_rx_sys_def)

lemma put_rx_discovery:
  assumes "discovery_turn f s = (goes_on, t)"
  shows "discovery_turn f (put_rx_sys Q s) = (goes_on, put_rx_sys Q t)"
proof -
  have rq: "async_recvmsg f n (put_rx Q w) = apsnd (put_rx Q) (async_recvmsg f n w)"
      "async_sendto f b addr (put_rx Q w) = apsnd (put_rx Q) (async_sendto f b addr w)" for n b addr w
    using ignoresD [OF ignores_sends(3)] ignoresD [OF ignores_sends(2)] by auto
  show ?thesis
    using assms unfolding discovery_turn_def put_rx_sys_simps(9) rq
    by (auto simp: Let_def rq put_rx_fields(4,5) simp del: put_rx_sys_simps(10)
        split: option.splits prod.splits outcome.splits if_splits sum.splits)
qed

lemma ignores_on_kernel: "ignores put_rx m \<Longrightarrow> ignores put_rx_sys (on_kernel m)"
  by (simp add: ignores_def on_kernel_def put_rx_fields del: put_rx_sys_simps(10) split: prod.split)

lemma ignores_store_get: "ignores put_rx_sys (store_get store sid)"
  by (simp add: ignores_def store_get_def put_rx_fields split: prod.split)

lemma ignores_broadcast_loop: "ignores put_rx (broadcast_loop cmd payload es)"
  by (induction cmd payload es rule: broadcast_loop.induct) (auto intro!: ignores_intros)

lemma ignores_broadcast_if_loop: "ignores put_rx_sys (broadcast_if_loop cmd payload predicate es)"
proof (induction es)
  case (Cons e rest)
  obtain sid f where e: "e = (sid, f)" by fastforce
  show ?case
    unfolding e broadcast_if_loop.simps
    by (rule ignores_at [where g = session_store])
      (auto intro!: ignores_option ignores_intros ignores_store_get ignores_on_kernel Cons.IH)
qed (auto intro!: ignores_intros)

lemma put_rx_announce:
  fixes s :: "'st system"
  shows "announce_if_idle (put_rx_sys Q s) = apsnd (put_rx_sys Q) (announce_if_idle s)"
proof -
  define m where "m = co_seq (async_sendto (discovery_fd s) (discovery_bytes (announcement s))
           (broadcast_sockaddr (broadcast_port (discovery_config s)))) (co_ret ())"
  have "ignores put_rx m" unfolding m_def by (intro ignores_intros)
  moreover have "announce_if_idle (put_rx_sys Q s) =
      (if 0 < active_connections s \<or> discovery_fd s < 0 \<or> \<not> discovery_enabled s then co_ret () (put_rx_sys Q s)
       else on_kernel m (put_rx_sys Q s))"
    by (simp add: announce_if_idle_def m_def put_rx_sys_def)
  moreover have "announce_if_idle s =
      (if 0 < active_connections s \<or> discovery_fd s < 0 \<or> \<not> discovery_enabled s then co_ret () s else on_kernel m s)"
    by (simp add: announce_if_idle_def m_def)
  ultimately show ?thesis using ignoresD [OF ignores_on_kernel] by auto
qed

lemma put_rx_pushes:
  "ignores put_rx_sys (send_to sid cmd payload)" "ignores put_rx_sys (broadcast cmd payload)"
  "ignores put_rx_sys (broadcast_if cmd payload predicate)"
proof -
  show "ignores put_rx_sys (send_to sid cmd payload)"
    unfolding send_to_def send_to_session_def [abs_def]
    by (rule ignores_at [where g = sessions])
      (auto intro!: ignores_option ignores_intros ignores_on_kernel)
  show "ignores put_rx_sys (broadcast cmd payload)"
    unfolding broadcast_def do_broadcast_def [abs_def]
    by (rule ignores_at [where g = sessions]) (auto intro!: ignores_on_kernel ignores_broadcast_loop)
  show "ignores put_rx_sys (broadcast_if cmd payload predicate)"
    unfolding broadcast_if_def do_broadcast_if_def [abs_def]
    by (rule ignores_at [where g = sessions]) (auto intro!: ignores_broadcast_if_loop)
qed

text \<open>Together: a step of the other coroutines is the same step whatever the queues hold.\<close>

lemma put_rx_other:
  assumes "other_step s t" "user_code_ignores_rx (pipeline_of s)"
  shows "other_step (put_rx_sys Q s) (put_rx_sys Q t) \<and> put_rx_sys (rx (kernel s)) t = t"
  using assms
proof (induction rule: other_step.induct)
  case (accept s f mode)
  then show ?case
    using other_step.accept [of "put_rx_sys Q s" f mode] put_rx_accept [of mode f "rx (kernel s)" s]
    by (simp add: put_rx_accept)
next
  case (finish s f c frame session)
  then show ?case
    using other_step.finish [of "put_rx_sys Q s" f c] put_rx_finish [of s f c frame session "rx (kernel s)"]
    by (simp add: put_rx_finish)
next
  case (leave s f c)
  then show ?case
    using other_step.leave [of "put_rx_sys Q s" f c] put_rx_leave [of f c "rx (kernel s)" s] by (simp add: put_rx_leave)
next
  case (datagram f buffer s goes_on buffer' t)
  note turn = put_rx_datagram [OF datagram(2,1)]
  show ?case using other_step.datagram [OF turn] turn [of "rx (kernel s)"] datagram(1) by simp
next
  case (discovery f s goes_on t)
  note turn = put_rx_discovery [OF discovery(1)]
  show ?case using other_step.discovery [OF turn] turn [of "rx (kernel s)"] discovery(1) by simp
next
  case (announce s r t)
  note turn = put_rx_announce [of _ s, unfolded announce(1)]
  show ?case using other_step.announce [of "put_rx_sys Q s"] turn [of "rx (kernel s)"] turn [of Q] announce(1) by simp
next
  case (push sid cmd payload s r t)
  note turn = ignoresD [OF put_rx_pushes(1) [of sid cmd payload], where s = s, unfolded push(1)]
  show ?case using other_step.push [of sid cmd payload "put_rx_sys Q s"] turn [of "rx (kernel s)"] turn [of Q] push(1) by auto
next
  case (push_all cmd payload s r t)
  note turn = ignoresD [OF put_rx_pushes(2) [of cmd payload], where s = s, unfolded push_all(1)]
  show ?case using other_step.push_all [of cmd payload "put_rx_sys Q s"] turn [of "rx (kernel s)"] turn [of Q] push_all(1) by auto
next
  case (push_some cmd payload predicate s r t)
  note turn = ignoresD [OF put_rx_pushes(3) [of cmd payload predicate], where s = s, unfolded push_some(1)]
  show ?case using other_step.push_some [of cmd payload predicate "put_rx_sys Q s"] turn [of "rx (kernel s)"] turn [of Q] push_some(1) by auto
next
  case (stop s)
  then show ?case
    using other_step.stop [of "put_rx_sys Q s"] put_rx_fields(3) [where Q = "rx (kernel s)" and s = s and b = False] by (simp add: put_rx_fields)
qed

section \<open>Clients do not touch each other\<close>

text \<open>What a step on behalf of the client on \<open>f\<close> leaves alone.\<close>

definition only_client :: "fd \<Rightarrow> 'st system \<Rightarrow> 'st system \<Rightarrow> bool" where
  "only_client f s t \<longleftrightarrow> pipeline_of t = pipeline_of s \<and> text_command_names t = text_command_names s \<and>
     (\<forall>g. g \<noteq> f \<longrightarrow> conns t g = conns s g)"

lemma only_client_refl: "only_client f s s"
  by (simp add: only_client_def)

lemma only_client_trans: "only_client f s t \<Longrightarrow> only_client f t u \<Longrightarrow> only_client f s u"
  by (simp add: only_client_def)

lemma only_client_fields:
  "only_client f s (s\<lparr>kernel := w\<rparr>)" "only_client f s (s\<lparr>store_state := st\<rparr>)" "only_client f s (s\<lparr>disconnects := d\<rparr>)"
  "only_client f s (s\<lparr>kernel := w, store_state := st\<rparr>)" "only_client f s (s\<lparr>conns := (conns s)(f := v)\<rparr>)"
  "only_client f s (unregister_session sid s)" "only_client f s (switch_session f' c sid s)"
  by (simp_all add: only_client_def pipeline_of_def unregister_session_def switch_session_def register_session_def)

lemma only_client_ends:
  "only_client f s (client_die f s)" "only_client f s (client_close f s)"
  by (simp_all add: only_client_def pipeline_of_def client_die_def client_close_def reenable_discovery_def Let_def)

lemma only_client_exit: "only_client f s (client_exit f c s)"
proof -
  define s1 where "s1 = (if current_sid c \<noteq> NO_SID then unregister_session (current_sid c) s else s)"
  have "only_client f s s1" by (simp add: s1_def only_client_refl only_client_fields)
  moreover have "only_client f s1 (client_exit f c s)"
    unfolding client_exit_def Let_def s1_def [symmetric]
    by (simp add: only_client_ends only_client_fields split: sum.split)
  ultimately show ?thesis by (rule only_client_trans)
qed

lemma only_client_catch: "only_client f s (client_catch e f c s)"
  by (simp add: client_catch_def only_client_exit only_client_ends)

lemma only_client_leave: "only_client f s (client_leave f c s)"
  using only_client_trans [OF only_client_fields(3) only_client_ends(2)]
  by (auto simp: client_leave_def only_client_ends split: option.split sum.split)

lemma only_client_accept: "only_client f s (accept_turn mode f s)"
  by (simp add: only_client_def pipeline_of_def accept_turn_def client_start_def disable_discovery_def await_resume_def Let_def)

lemma only_client_set:
  "only_client f s t \<Longrightarrow> only_client f s (t\<lparr>conns := (conns t)(f := v)\<rparr>)"
  by (rule only_client_trans [OF _ only_client_fields(5)])

lemma only_client_finish: "only_client f s (client_finish f c fr x s)"
proof -
  obtain r x' w where pc: "process_command (pipeline_of s) fr (client_connection f c) (x, kernel s) = (r, (x', w))"
    by (metis prod.collapse)
  have "only_client f s (client_catch e f c' (s\<lparr>kernel := w\<rparr>))"
      "only_client f s (client_catch e f c' (s\<lparr>kernel := w, store_state := st\<rparr>))"
      "only_client f s (client_exit f c' (s\<lparr>kernel := w, store_state := st\<rparr>))"
      "only_client f s (s\<lparr>kernel := w, store_state := st, conns := (conns s)(f := v)\<rparr>)" for e c' st v
    using only_client_trans [OF only_client_fields(1) only_client_catch]
      only_client_trans [OF only_client_fields(4) only_client_catch] only_client_trans [OF only_client_fields(4) only_client_exit]
      only_client_set [OF only_client_fields(4) [where f = f and s = s and w = w and st = st], of v] by simp_all
  then show ?thesis
    using pc
    by (simp add: client_finish_def Let_def only_client_refl split: outcome.split option.split prod.split)
qed

lemma only_client_after_read: "after_read f c fr s = Some t \<Longrightarrow> only_client f s t"
  using only_client_trans [OF only_client_fields(2) only_client_catch] only_client_catch
    only_client_set [OF only_client_trans [OF only_client_fields(2) only_client_fields(7)]]
  by (auto simp: after_read_def Let_def split: option.splits prod.splits outcome.splits)

text \<open>A client that is reading stays as it is while the others move.\<close>

definition idle_client :: "'st system \<Rightarrow> fd \<Rightarrow> client \<Rightarrow> bool" where
  "idle_client s f c \<longleftrightarrow> conns s f = Some c \<and> c_flight c = None \<and> \<not> c_leaving c"

lemma only_client_idle: "only_client f s t \<Longrightarrow> g \<noteq> f \<Longrightarrow> idle_client t g c \<longleftrightarrow> idle_client s g c"
  by (simp add: only_client_def idle_client_def)

lemma other_step_client:
  assumes "other_step s t"
  shows "\<exists>f. only_client f s t \<and> (conns t = conns s \<or> f \<notin> open_fds s \<or> (\<exists>c. conns s f = Some c \<and> \<not> idle_client s f c))"
proof -
  have bg: ?thesis if "background_turn s t"
    using that by (auto simp: background_turn_def intro: only_client_fields(4))
  from assms show ?thesis
  proof (cases rule: other_step.cases)
    case (accept f mode)
    then show ?thesis using only_client_accept by blast
  next
    case (finish f d frame session)
    then show ?thesis using only_client_finish by (fastforce simp: idle_client_def)
  next
    case (leave f d)
    then show ?thesis using only_client_leave by (fastforce simp: idle_client_def)
  next
    case stop
    then show ?thesis by (simp add: only_client_def pipeline_of_def)
  qed (rule bg; blast intro: background_datagram background.R_discovery background.R_turns)+
qed

lemma other_step_config:
  "other_step s t \<Longrightarrow> pipeline_of t = pipeline_of s \<and> text_command_names t = text_command_names s"
  using other_step_client by (auto simp: only_client_def)

lemma other_step_idle:
  assumes "other_step s t" "dom (conns s) \<subseteq> open_fds s" "idle_client s g c"
  shows "idle_client t g c"
proof -
  obtain f where f: "only_client f s t"
      "conns t = conns s \<or> f \<notin> open_fds s \<or> (\<exists>c. conns s f = Some c \<and> \<not> idle_client s f c)"
    using other_step_client [OF assms(1)] by blast
  show ?thesis
  proof (cases "conns t = conns s")
    case True
    with assms(3) show ?thesis by (simp add: idle_client_def)
  next
    case False
    then have "g \<noteq> f" using f(2) assms(2,3) by (auto simp: idle_client_def)
    with only_client_idle [OF f(1)] assms(3) show ?thesis by blast
  qed
qed

section \<open>Putting back\<close>

text \<open>
  The queues \<open>Q\<close> are those of the finer server with the bytes put back that the suspended reads
  hold: from \<open>Q\<close>, each of them comes to where it is.
\<close>

definition holds_back :: "fine_server \<Rightarrow> (fd \<Rightarrow> rx_event list) \<Rightarrow> fd \<Rightarrow> bool" where
  "holds_back x Q f \<longleftrightarrow>
     (case reads x f of
        None \<Rightarrow> Q f = rx (kernel (srv x)) f
      | Some st \<Rightarrow> \<exists>c. idle_client (srv x) f c \<and>
          got_to (text_command_names (srv x)) (c_mode c) (Q f) st (rx (kernel (srv x)) f))"

definition put_back :: "fine_server \<Rightarrow> session_map system \<Rightarrow> bool" where
  "put_back x s \<longleftrightarrow> counted s \<and> user_code_ignores_rx (pipeline_of s) \<and>
     (\<exists>Q. s = put_rx_sys Q (srv x) \<and> (\<forall>f. holds_back x Q f))"

lemma put_backI:
  "\<lbrakk>counted s; user_code_ignores_rx (pipeline_of s); s = put_rx_sys Q (srv x); \<And>f. holds_back x Q f\<rbrakk> \<Longrightarrow> put_back x s"
  unfolding put_back_def by blast

lemma server_step_counted: "server_step s t \<Longrightarrow> counted s \<Longrightarrow> counted t"
  by (rule count.inv_step [OF server_step_engine])

text \<open>Other coroutines.\<close>

lemma put_back_other:
  assumes "put_back x s" "other_step (srv x) t"
  shows "\<exists>u. server_step s u \<and> put_back (x\<lparr>srv := t\<rparr>) u"
proof -
  obtain Q where Q: "counted s" "user_code_ignores_rx (pipeline_of s)" "s = put_rx_sys Q (srv x)" "\<And>f. holds_back x Q f"
    using assms(1) unfolding put_back_def by blast
  have user: "user_code_ignores_rx (pipeline_of (srv x))" using Q(2,3) by simp
  have dom: "dom (conns (srv x)) \<subseteq> open_fds (srv x)" using Q(1,3) by (simp add: counted_def)
  have step: "server_step s (put_rx_sys Q t)"
    using put_rx_other [OF assms(2) user] Q(3) by (blast intro: other_step_server)
  have rx: "rx (kernel t) = rx (kernel (srv x))"
    using put_rx_other [OF assms(2) user] by (metis put_rx_simps(1) put_rx_sys_simps(9))
  have "holds_back (x\<lparr>srv := t\<rparr>) Q f" for f
    using Q(4) [of f] other_step_idle [OF assms(2) dom] other_step_config [OF assms(2)] rx
    by (auto simp: holds_back_def split: option.splits)
  moreover have "counted (put_rx_sys Q t)" using server_step_counted [OF step Q(1)] .
  ultimately have "put_back (x\<lparr>srv := t\<rparr>) (put_rx_sys Q t)"
    using user other_step_config [OF assms(2)] by (intro put_backI) auto
  with step show ?thesis by blast
qed

text \<open>Arrivals.\<close>

lemma put_back_arrive:
  assumes "put_back x s" "rx w = (\<lambda>f. rx (kernel (srv x)) f @ evs f)" "tx_log w = tx_log (kernel (srv x))"
  shows "\<exists>u. server_step s u \<and> put_back (x\<lparr>srv := (srv x)\<lparr>kernel := w\<rparr>\<rparr>) u"
proof -
  obtain Q where Q: "counted s" "user_code_ignores_rx (pipeline_of s)" "s = put_rx_sys Q (srv x)" "\<And>f. holds_back x Q f"
    using assms(1) unfolding put_back_def by blast
  let ?Q = "\<lambda>f. Q f @ evs f" and ?y = "x\<lparr>srv := (srv x)\<lparr>kernel := w\<rparr>\<rparr>"
  have s: "s\<lparr>kernel := put_rx ?Q w\<rparr> = put_rx_sys ?Q (srv ?y)" using Q(3) by (simp add: put_rx_sys_def)
  have step: "server_step s (s\<lparr>kernel := put_rx ?Q w\<rparr>)"
    using assms(3) Q(3) by (intro server_step.kernel) simp
  have "holds_back ?y ?Q f" for f
    using Q(4) [of f] assms(2) by (auto simp: holds_back_def idle_client_def intro: got_to_append split: option.splits)
  moreover have "user_code_ignores_rx (pipeline_of (s\<lparr>kernel := put_rx ?Q w\<rparr>))"
    using Q(2) by (simp add: pipeline_of_def)
  ultimately have "put_back ?y (s\<lparr>kernel := put_rx ?Q w\<rparr>)"
    using server_step_counted [OF step Q(1)] s by (intro put_backI)
  with step show ?thesis by blast
qed

text \<open>A read that goes on: nothing has happened to the coarser server.\<close>

lemma put_back_goes_on:
  assumes "counted s" "user_code_ignores_rx (pipeline_of s)" "s = put_rx_sys Q (srv x)" "\<And>g. holds_back x Q g"
    and "idle_client (srv x) f c" "got_to (text_command_names (srv x)) (c_mode c) (Q f) st q"
  shows "put_back (x\<lparr>srv := (srv x)\<lparr>kernel := set_rx f q (kernel (srv x))\<rparr>, reads := (reads x)(f \<mapsto> st)\<rparr>) s"
proof (rule put_backI [OF assms(1,2)])
  let ?y = "x\<lparr>srv := (srv x)\<lparr>kernel := set_rx f q (kernel (srv x))\<rparr>, reads := (reads x)(f \<mapsto> st)\<rparr>"
  show "s = put_rx_sys Q (srv ?y)" using assms(3) by (simp add: put_rx_sys_def put_rx_def set_rx_def)
  show "holds_back ?y Q g" for g
    using assms(4) [of g] assms(5,6) by (auto simp: holds_back_def idle_client_def split: option.splits)
qed

text \<open>A read that ends, with a request or with an exception: the coarser server takes its step.\<close>

lemma put_back_ends:
  assumes Q: "counted s" "user_code_ignores_rx (pipeline_of s)" "s = put_rx_sys Q (srv x)" "\<And>g. holds_back x Q g"
    and c: "idle_client (srv x) f c" "running (srv x)"
    and t: "only_client f (srv x) t" "rx (kernel t) = (rx (kernel (srv x)))(f := q)"
    and receive: "client_receive f c s = put_rx_sys (Q(f := q)) t"
  shows "\<exists>u. server_step s u \<and> put_back (x\<lparr>srv := t, reads := (reads x)(f := None)\<rparr>) u"
proof -
  have step: "server_step s (put_rx_sys (Q(f := q)) t)"
    using server_step.receive [of s f c] c Q(3) receive by (simp add: idle_client_def)
  have "holds_back (x\<lparr>srv := t, reads := (reads x)(f := None)\<rparr>) (Q(f := q)) g" for g
    using Q(4) [of g] t only_client_idle [OF t(1)]
    by (cases "g = f") (auto simp: holds_back_def only_client_def split: option.splits)
  moreover have "user_code_ignores_rx (pipeline_of t)" using Q(2,3) t(1) by (simp add: only_client_def)
  ultimately have "put_back (x\<lparr>srv := t, reads := (reads x)(f := None)\<rparr>) (put_rx_sys (Q(f := q)) t)"
    using server_step_counted [OF step Q(1)] by (intro put_backI) auto
  with step show ?thesis by blast
qed

lemma rx_kept: "put_rx_sys (rx (kernel s)) t = t \<Longrightarrow> rx (kernel t) = rx (kernel s)"
  by (metis put_rx_simps(1) put_rx_sys_simps(9))

lemma rx_kept_catch: "rx (kernel (client_catch e f c s)) = rx (kernel s)"
  using put_rx_catch [of e f c "rx (kernel s)" s] by (intro rx_kept) simp

lemma rx_kept_after_read: "after_read f c fr s = Some t \<Longrightarrow> rx (kernel t) = rx (kernel s)"
  using put_rx_after_read [of f c fr "rx (kernel s)" s] by (intro rx_kept) simp

lemma read_request_rest: "read_request s f c = rest_of (text_command_names s) f (reading_start (c_mode c))"
  by (cases "c_mode c") (simp_all add: read_request_def rest_of_start)

text \<open>The server at the point where the read on \<open>f\<close> has left \<open>q\<close> in the queue.\<close>

definition left_rx :: "fd \<Rightarrow> rx_event list \<Rightarrow> 'st system \<Rightarrow> 'st system" where
  "left_rx f q s = s\<lparr>kernel := set_rx f q (kernel s)\<rparr>"

lemma left_rx_facts:
  "rx (kernel (left_rx f q s)) = (rx (kernel s))(f := q)" "only_client f s (left_rx f q s)"
  "left_rx f q (put_rx_sys Q s) = put_rx_sys (Q(f := q)) (left_rx f q s)" "left_rx f (rx (kernel s) f) s = s"
  by (simp_all add: left_rx_def only_client_fields) (simp add: put_rx_sys_def put_rx_def set_rx_def)

lemma put_back_fails:
  assumes Q: "counted s" "user_code_ignores_rx (pipeline_of s)" "s = put_rx_sys Q (srv x)" "\<And>g. holds_back x Q g"
    and c: "idle_client (srv x) f c" "running (srv x)"
    and read: "read_request s f c (kernel s) = (Throw e, set_rx f q (kernel s))"
  shows "\<exists>u. server_step s u \<and> put_back (read_fails e f c (left_rx f q (srv x)) x) u"
proof -
  have "client_receive f c s = client_catch e f c (left_rx f q s)"
    using read by (simp add: client_receive_after left_rx_def)
  then have "client_receive f c s = put_rx_sys (Q(f := q)) (client_catch e f c (left_rx f q (srv x)))"
    by (simp add: Q(3) left_rx_facts put_rx_catch)
  from put_back_ends [OF Q c only_client_trans [OF left_rx_facts(2) only_client_catch] _ this]
  show ?thesis by (simp add: rx_kept_catch left_rx_facts read_fails_def)
qed

lemma put_back_read_to:
  assumes Q: "counted s" "user_code_ignores_rx (pipeline_of s)" "s = put_rx_sys Q (srv x)" "\<And>g. holds_back x Q g"
    and c: "idle_client (srv x) f c" "running (srv x)"
    and got: "got_to (text_command_names (srv x)) (c_mode c) (Q f) st q"
  shows "\<exists>u. (u = s \<or> server_step s u) \<and> put_back (read_to f c st (left_rx f q (srv x)) x) u"
proof -
  let ?s1 = "left_rx f q (srv x)"
  have on: "put_back (x\<lparr>srv := ?s1, reads := (reads x)(f \<mapsto> st)\<rparr>) s"
    using put_back_goes_on [OF Q c(1) got] by (simp add: left_rx_def)
  show ?thesis
  proof (cases "\<exists>fr t. got_frame st = Some fr \<and> after_read f c fr ?s1 = Some t")
    case False
    with on show ?thesis by (auto simp: read_to_def split: option.splits)
  next
    case True
    then obtain fr t where t: "got_frame st = Some fr" "after_read f c fr ?s1 = Some t" by blast
    have "read_request s f c (kernel s) = (Ret fr, set_rx f q (kernel s))"
      using got_to_rest [OF got, where w = "kernel s" and f = f] Q(3) t(1) by (simp add: read_request_rest got_frame_iff)
    then have "client_receive f c s = (case after_read f c fr (left_rx f q s) of None \<Rightarrow> s | Some t \<Rightarrow> t)"
      by (simp add: client_receive_after left_rx_def)
    then have "client_receive f c s = put_rx_sys (Q(f := q)) t"
      using t by (simp add: Q(3) left_rx_facts put_rx_after_read)
    from put_back_ends [OF Q c only_client_trans [OF left_rx_facts(2) only_client_after_read [OF t(2)]] _ this]
    show ?thesis using t by (auto simp: rx_kept_after_read [OF t(2)] left_rx_facts read_to_def)
  qed
qed

lemma read_turn_waiting:
  assumes "got_frame (reading_of f c x) = None"
    and "recv_result (span_left (reading_of f c x)) (rx (kernel (srv x)) f) = (r, q)"
  shows "read_turn f c x =
    (case r of
       Pending \<Rightarrow> x
     | Throw e \<Rightarrow> read_fails e f c (left_rx f q (srv x)) x
     | Ret d \<Rightarrow>
         (case resume_read (text_command_names (srv x)) (reading_of f c x) d of
            Inl e \<Rightarrow> read_fails e f c (left_rx f q (srv x)) x
          | Inr st' \<Rightarrow> read_to f c st' (left_rx f q (srv x)) x))"
  using assms by (simp add: read_turn_def async_read_recv left_rx_def Let_def split: outcome.split sum.split)

lemma put_back_read:
  assumes "put_back x s" "running (srv x)" "idle_client (srv x) f c"
  shows "\<exists>u. (u = s \<or> server_step s u) \<and> put_back (read_turn f c x) u"
proof -
  obtain Q where Q: "counted s" "user_code_ignores_rx (pipeline_of s)" "s = put_rx_sys Q (srv x)" "\<And>g. holds_back x Q g"
    using assms(1) unfolding put_back_def by blast
  let ?names = "text_command_names (srv x)" and ?q = "rx (kernel (srv x)) f"
  define st where "st = reading_of f c x"
  have got: "got_to ?names (c_mode c) (Q f) st ?q"
    using Q(4) [of f] assms(3) got_to.start
    by (auto simp: st_def reading_of_def holds_back_def idle_client_def split: option.splits)
  note to = put_back_read_to [OF Q assms(3,2)] and fails = put_back_fails [OF Q assms(3,2)]
  show ?thesis
  proof (cases "got_frame st")
    case (Some fr)
    then have "read_turn f c x = read_to f c st (left_rx f ?q (srv x)) x"
      by (simp add: read_turn_def left_rx_facts flip: st_def)
    with to [OF got] show ?thesis by simp
  next
    case None
    then have wait: "waiting st" using got_to_settled [OF got] by (simp add: settled_def)
    obtain r q where rv: "recv_result (span_left st) ?q = (r, q)" by fastforce
    note turn = read_turn_waiting [OF None [unfolded st_def] rv [unfolded st_def], folded st_def]
    let ?w = "set_rx f ?q (kernel s)"
    have whole: "read_request s f c (kernel s) = rest_of ?names f st ?w"
      using got_to_rest [OF got, where w = "kernel s" and f = f] Q(3) by (simp add: read_request_rest)
    show ?thesis
    proof (cases r)
      case (Ret d)
      have rest: "read_request s f c (kernel s) =
          (case resume_read ?names st d of Inl e \<Rightarrow> (Throw e, set_rx f q (kernel s)) | Inr st' \<Rightarrow> rest_of ?names f st' (set_rx f q (kernel s)))"
        using rest_of_recv [OF wait, where w = ?w and f = f] rv Ret whole by (simp split: sum.split)
      show ?thesis
      proof (cases "resume_read ?names st d")
        case (Inl e)
        with rest have "read_request s f c (kernel s) = (Throw e, set_rx f q (kernel s))" by simp
        from fails [OF this] show ?thesis using turn Ret Inl by auto
      next
        case (Inr st')
        from to [OF got_to.receive [OF got wait rv [unfolded Ret] Inr]] show ?thesis using turn Ret Inr by simp
      qed
    next
      case (Throw e)
      with rest_of_recv_fails [OF wait, where w = ?w and f = f] rv whole
      have "read_request s f c (kernel s) = (Throw e, set_rx f q (kernel s))" by simp
      from fails [OF this] show ?thesis using turn Throw by auto
    next
      case Pending
      with turn assms(1) show ?thesis by auto
    qed
  qed
qed

interpretation reads: stutter_simulation fine_step server_step put_back
proof
  fix x y s
  assume "put_back x s" "fine_step x y"
  from this(2,1) show "\<exists>t. (t = s \<or> server_step s t) \<and> put_back y t"
  proof (cases rule: fine_step.cases)
    case (other t)
    with put_back_other \<open>put_back x s\<close> show ?thesis by blast
  next
    case (arrive w evs)
    with put_back_arrive [OF \<open>put_back x s\<close>] show ?thesis by blast
  next
    case (read f c)
    with put_back_read \<open>put_back x s\<close> show ?thesis by (simp add: idle_client_def)
  qed
qed

lemma server_reachable_star: "server_step\<^sup>*\<^sup>* s0 s \<Longrightarrow> server_reachable s0 s"
  by (induction rule: rtranclp_induct) (auto intro: server_reachable.intros)

lemma fine_reachable_star: "fine_reachable s0 x \<Longrightarrow> fine_step\<^sup>*\<^sup>* \<lparr>srv = s0, reads = Map.empty\<rparr> x"
  by (induction rule: fine_reachable.induct) auto

lemma fine_reachable_put_back:
  assumes "fine_reachable s0 x" "initial s0" "user_code_ignores_rx (pipeline_of s0)"
  shows "\<exists>s Q. server_reachable s0 s \<and> s = put_rx_sys Q (srv x) \<and> (\<forall>f. holds_back x Q f)"
proof -
  have "counted s0" using assms(2) by (rule count.inv_initial)
  then have "put_back \<lparr>srv = s0, reads = Map.empty\<rparr> s0"
    using assms(3) by (intro put_backI [where Q = "rx (kernel s0)"]) (simp_all add: holds_back_def)
  from reads.related_run [OF fine_reachable_star [OF assms(1)] this] show ?thesis
    using server_reachable_star unfolding put_back_def by blast
qed

section \<open>Reads end\<close>

lemma recv_weight: "0 < n \<Longrightarrow> recv_result n q = (Ret d, q') \<Longrightarrow> rx_weight q' < rx_weight q"
  by (cases "(n, q)" rule: recv_result.cases) (auto split: sum.splits if_splits)

text \<open>
  If what is in the queue completes the request, every turn of the coroutine consumes part of it,
  and the last one hands the request over.
\<close>

lemma rest_of_ret:
  assumes "waiting st" "rest_of cmd_names f st w = (Ret fr, w')"
  obtains d q st' where "recv_result (span_left st) (rx w f) = (Ret d, q)" "resume_read cmd_names st d = Inr st'"
    "rest_of cmd_names f st' (set_rx f q w) = (Ret fr, w')" "rx_weight q < rx_weight (rx w f)" "settled st'"
proof -
  obtain r q where rv: "recv_result (span_left st) (rx w f) = (r, q)" by fastforce
  then obtain d where d: "r = Ret d"
    using assms(2) unfolding rest_of_turn [OF assms(1)] by (cases r) (simp_all add: co_bind_def async_read_recv)
  then obtain st' where st': "resume_read cmd_names st d = Inr st'" "rest_of cmd_names f st' (set_rx f q w) = (Ret fr, w')"
    using assms rest_of_recv [OF assms(1) rv [unfolded d], of cmd_names] by (cases "resume_read cmd_names st d") auto
  moreover have "settled st'" using st'(1) settled_bytes_read by (auto simp: resume_read_def split: prod.splits if_splits)
  moreover have "rx_weight q < rx_weight (rx w f)"
    using recv_weight rv assms(1) unfolding d by (auto simp: waiting_def)
  ultimately show ?thesis using that rv unfolding d by blast
qed

lemma read_turns_end:
  assumes "settled (reading_of f c x)" "got_frame (reading_of f c x) = None"
    and "rest_of (text_command_names (srv x)) f (reading_of f c x) (kernel (srv x)) = (Ret fr, w)"
    and "after_read f c fr ((srv x)\<lparr>kernel := w\<rparr>) = Some t"
  shows "\<exists>n \<le> rx_weight (rx (kernel (srv x)) f). (read_turn f c ^^ n) x = x\<lparr>srv := t, reads := (reads x)(f := None)\<rparr>"
  using assms
proof (induction "rx_weight (rx (kernel (srv x)) f)" arbitrary: x rule: less_induct)
  case less
  let ?st = "reading_of f c x" and ?q = "rx (kernel (srv x)) f"
  have "waiting ?st" using less.prems(1,2) by (simp add: settled_def)
  from rest_of_ret [OF this less.prems(3)]
  obtain d q st' where st': "recv_result (span_left ?st) ?q = (Ret d, q)"
      "resume_read (text_command_names (srv x)) ?st d = Inr st'"
      "rest_of (text_command_names (srv x)) f st' (set_rx f q (kernel (srv x))) = (Ret fr, w)"
      "rx_weight q < rx_weight ?q" "settled st'" by blast
  have turn: "read_turn f c x = read_to f c st' (left_rx f q (srv x)) x"
    using read_turn_waiting [OF less.prems(2) st'(1)] st'(2) by simp
  show ?case
  proof (cases "got_frame st'")
    case (Some fr')
    then have "fr' = fr" "w = set_rx f q (kernel (srv x))" using st'(3) by (auto simp: got_frame_iff)
    then have "read_turn f c x = x\<lparr>srv := t, reads := (reads x)(f := None)\<rparr>"
      using turn Some less.prems(4) by (simp add: read_to_def left_rx_def)
    then show ?thesis using st'(4) by (intro exI [of _ 1]) auto
  next
    case None
    define y where "y = read_turn f c x"
    have y: "y = x\<lparr>srv := left_rx f q (srv x), reads := (reads x)(f \<mapsto> st')\<rparr>" using turn None by (simp add: y_def read_to_def)
    have "rx (kernel (srv y)) f = q" using y by (simp add: left_rx_facts)
    then obtain n where n: "n \<le> rx_weight q" "(read_turn f c ^^ n) y = y\<lparr>srv := t, reads := (reads y)(f := None)\<rparr>"
      using less.hyps [of y] st' None less.prems(4) y by (auto simp: reading_of_def left_rx_def)
    then have "(read_turn f c ^^ Suc n) x = x\<lparr>srv := t, reads := (reads x)(f := None)\<rparr>"
      using y by (simp add: funpow_Suc_right y_def [symmetric] del: funpow.simps)
    then show ?thesis using n(1) st'(4) by (intro exI [of _ "Suc n"]) auto
  qed
qed

section \<open>Properties\<close>

text \<open>
  C3. The event loop may suspend a client at every receive. In every interleaving in which the
  client coroutines take single receives as they complete, binary and text clients alike, and all
  the other coroutines run in between, the server is in a state that the server with whole reads
  reaches too, apart from the bytes that suspended reads hold in their locals: put back into
  the queues, they make the two states equal. And a suspended read is going to end, with its
  request, its exception or its next wait, just as the whole read would that starts from the
  queue so restored. User code is trusted only not to receive from client sockets by itself.
\<close>

theorem interleaved_reads_refine_turns:
  assumes "fine_reachable s0 x" "initial s0" "user_code_ignores_rx (pipeline_of s0)"
  shows "\<exists>s Q. server_reachable s0 s \<and> s = (srv x)\<lparr>kernel := (kernel (srv x))\<lparr>rx := Q\<rparr>\<rparr> \<and>
    (\<forall>f. reads x f = None \<longrightarrow> Q f = rx (kernel (srv x)) f) \<and>
    (\<forall>f st. reads x f = Some st \<longrightarrow>
       (\<exists>c. conns (srv x) f = Some c \<and> c_flight c = None \<and> \<not> c_leaving c \<and>
          read_request s f c (kernel s) =
            rest_of (text_command_names s) f st (set_rx f (rx (kernel (srv x)) f) (kernel s))))"
proof -
  obtain s Q where s: "server_reachable s0 s" "s = put_rx_sys Q (srv x)" "\<And>f. holds_back x Q f"
    using fine_reachable_put_back [OF assms] by blast
  have none: "Q f = rx (kernel (srv x)) f" if "reads x f = None" for f
    using s(3) [of f] that by (simp add: holds_back_def)
  have some: "\<exists>c. conns (srv x) f = Some c \<and> c_flight c = None \<and> \<not> c_leaving c \<and>
      read_request s f c (kernel s) = rest_of (text_command_names s) f st (set_rx f (rx (kernel (srv x)) f) (kernel s))"
    if "reads x f = Some st" for f st
    using s(3) [of f] that got_to_rest [where w = "kernel s" and f = f] s(2)
    by (fastforce simp: holds_back_def idle_client_def read_request_rest)
  show ?thesis
    using s(1,2) none some unfolding put_rx_sys_def put_rx_def by blast
qed

text \<open>
  C19. A suspended read completes. Let a client have come to any point of reading a request, in any
  interleaving. If the bytes that are now in its queue complete the request, then it takes at most
  as many turns as there are bytes and segments to consume until the coroutine has the request in
  hand, with the session its id stands for, and what is left in the queue is what the whole read
  would have left.
\<close>

theorem suspended_read_completes:
  assumes "fine_reachable s0 x" "initial s0" "user_code_ignores_rx (pipeline_of s0)"
    and "conns (srv x) f = Some c" "c_flight c = None" "\<not> c_leaving c"
    and "session_store (srv x) = Some InMemorySessionStore"
    and "got_frame (reading_of f c x) = None"
    and "rest_of (text_command_names (srv x)) f (reading_of f c x) (kernel (srv x)) = (Ret fr, w)"
  shows "\<exists>n y. n \<le> rx_weight (rx (kernel (srv x)) f) \<and> (read_turn f c ^^ n) x = y \<and> reads y f = None \<and>
    kernel (srv y) = w \<and>
    conns (srv y) f = Some (c\<lparr>current_sid := session_id (cf_header fr),
      c_flight := Some (fr, im_mem (store_state (srv x)) (session_id (cf_header fr)))\<rparr>)"
proof -
  obtain s Q where "holds_back x Q f" using fine_reachable_put_back [OF assms(1-3)] by blast
  then have "got_to (text_command_names (srv x)) (c_mode c) (Q f) (reading_of f c x) (rx (kernel (srv x)) f)"
    using assms(4) got_to.start by (auto simp: holds_back_def reading_of_def idle_client_def split: option.splits)
  note settled = got_to_settled [OF this]
  obtain t where t: "after_read f c fr ((srv x)\<lparr>kernel := w\<rparr>) = Some t"
    using assms(7) by (simp add: after_read_def im_store_calls Let_def)
  from read_turns_end [OF settled assms(8,9) t]
  obtain n where "n \<le> rx_weight (rx (kernel (srv x)) f)"
      "(read_turn f c ^^ n) x = x\<lparr>srv := t, reads := (reads x)(f := None)\<rparr>" by blast
  moreover have "kernel t = w" "conns t f = Some (c\<lparr>current_sid := session_id (cf_header fr),
      c_flight := Some (fr, im_mem (store_state (srv x)) (session_id (cf_header fr)))\<rparr>)"
    using t assms(7)
    by (auto simp: after_read_def im_store_calls Let_def switch_session_def register_session_def unregister_session_def)
  ultimately show ?thesis by (intro exI conjI) auto
qed

end
