(* ===== verification/Read_Runs.thy ===== *)
theory Read_Runs
  imports Concrete_Runs Interleaved_Reads
begin

text \<open>
  Two clients of the example application, one binary and one text, whose requests arrive in
  pieces: the runs on which the properties of interleaved reads are instantiated.
\<close>

lemma demo_handlers: "handler (router demo c) \<in> {None, Some ping_handler, Some login_handler}"
  by (simp add: demo_def app_running_def app_configured_def init_defaults_def fresh_server_def Let_def
      enable_unix_socket_def enable_udp_def enable_tcp_def add_command_def router_add_def at_endpoint_def tcp_only_def
      empty_router_def default_endpoint_def)

lemma demo_ignores_rx: "user_code_ignores_rx (pipeline_of demo)"
proof -
  have "ignores put_rx_ctx ping_handler" "ignores put_rx_ctx login_handler" "ignores put_rx_ctx DefaultAuthenticator"
    by (simp_all add: ignores_def ping_handler_def login_handler_def DefaultAuthenticator_def put_rx_ctx_def current_transport_def)
  moreover have "h = ping_handler \<or> h = login_handler" if "handler (router demo c) = Some h" for c h
    using demo_handlers [of c] that by auto
  ultimately show ?thesis by (auto simp: user_code_ignores_rx_def)
qed

text \<open>Three bytes of a binary header and one character of a text line have arrived.\<close>

definition piece_client :: "ProtocolMode \<Rightarrow> client" where
  "piece_client mode = \<lparr>c_mode = mode, current_sid = NO_SID, c_flight = None, c_leaving = False\<rparr>"

definition pieces :: world where
  "pieces = set_rx 7 [RxData [1, 0, 0]] (set_rx 8 [RxData [49]] (kernel demo))"

definition two_clients :: "session_map system" where
  "two_clients = (accept_turn TEXT 8 (accept_turn BINARY 7 demo))\<lparr>kernel := pieces\<rparr>"

lemma two_clients_fields [simp]:
  "running two_clients" "conns two_clients = [7 \<mapsto> piece_client BINARY, 8 \<mapsto> piece_client TEXT]"
  "session_store two_clients = Some InMemorySessionStore" "store_state two_clients = Map.empty"
  "text_command_names two_clients = text_command_names demo" "kernel two_clients = pieces"
  by (simp_all add: two_clients_def accept_turn_def client_start_def piece_client_def Let_def await_resume_def)

text \<open>Both coroutines have taken what there was.\<close>

definition halfway :: fine_server where
  "halfway = \<lparr>srv = two_clients\<lparr>kernel := set_rx 8 [] (set_rx 7 [] pieces)\<rparr>,
     reads = [7 \<mapsto> InHeader ([1, 0, 0] @ replicate 13 0) 3, 8 \<mapsto> InLine ''1'' [0] 0]\<rparr>"

lemma demo_initial: "initial demo"
  by (simp add: initial_def)

lemma two_clients_reachable: "fine_reachable demo \<lparr>srv = two_clients, reads = Map.empty\<rparr>"
proof -
  let ?s1 = "accept_turn BINARY 7 demo" and ?s2 = "accept_turn TEXT 8 (accept_turn BINARY 7 demo)"
  have s1: "other_step demo ?s1" by (rule other_step.accept) simp_all
  have s2: "other_step ?s1 ?s2"
    by (rule other_step.accept) (simp_all add: accept_turn_def client_start_def Let_def await_resume_def)
  have "fine_reachable demo \<lparr>srv = ?s1, reads = Map.empty\<rparr>"
    using fine_reachable.step [OF fine_reachable.start fine_step.other] s1 by fastforce
  then have "fine_reachable demo \<lparr>srv = ?s2, reads = Map.empty\<rparr>"
    using fine_reachable.step [OF _ fine_step.other] s2 by fastforce
  moreover have "kernel ?s2 = kernel demo"
    by (simp add: accept_turn_def client_start_def Let_def await_resume_def)
  moreover have "rx (kernel demo) f = []" for f
    by (simp add: demo_def app_running_def app_configured_def fresh_server_def init_defaults_def
      Let_def enable_unix_socket_def enable_udp_def enable_tcp_def add_command_def)
  ultimately have s2: "fine_reachable demo \<lparr>srv = ?s2, reads = Map.empty\<rparr>"
    and k: "rx pieces = (\<lambda>f. rx (kernel ?s2) f @ rx pieces f)" "tx_log pieces = tx_log (kernel ?s2)"
    by (auto simp: fun_eq_iff pieces_def)
  have "fine_step \<lparr>srv = ?s2, reads = Map.empty\<rparr> \<lparr>srv = two_clients, reads = Map.empty\<rparr>"
    using fine_step.arrive [where x = "\<lparr>srv = ?s2, reads = Map.empty\<rparr>" and w = pieces and evs = "rx pieces"] k
    by (simp add: two_clients_def)
  with s2 show ?thesis by (rule fine_reachable.step)
qed

lemma pieces_rx [simp]: "rx pieces 7 = [RxData [1, 0, 0]]" "rx pieces 8 = [RxData [49]]"
  by (simp_all add: pieces_def)

lemma halfway_reachable: "fine_reachable demo halfway"
proof -
  let ?x = "\<lparr>srv = two_clients, reads = Map.empty\<rparr>"
  define y where "y = \<lparr>srv = two_clients\<lparr>kernel := set_rx 7 [] pieces\<rparr>,
    reads = [7 \<mapsto> InHeader ([1, 0, 0] @ replicate 13 0) 3]\<rparr>"
  have "fine_step ?x (read_turn 7 (piece_client BINARY) ?x)"
    by (rule fine_step.read) (simp_all add: piece_client_def)
  moreover have "read_turn 7 (piece_client BINARY) ?x = y"
    by (simp add: read_turn_def reading_of_def piece_client_def reading_start_def async_read_recv resume_read_def
        read_to_def exact_more_def overwrite_def sizeof_FrameHeader_def size_add_def Let_def y_def)
  ultimately have y: "fine_reachable demo y" using fine_reachable.step [OF two_clients_reachable] by simp
  have "fine_step y (read_turn 8 (piece_client TEXT) y)"
    by (rule fine_step.read) (simp_all add: y_def piece_client_def)
  moreover have "char_of_byte 49 = CHR ''1''" by code_simp
  then have "read_turn 8 (piece_client TEXT) y = halfway"
    by (simp add: read_turn_def reading_of_def piece_client_def reading_start_def async_read_recv resume_read_def
        read_to_def exact_more_def overwrite_def size_add_def char_read_def newline_def Let_def y_def halfway_def)
  ultimately show ?thesis using fine_reachable.step [OF y] by simp
qed

theorem interleaved_reads_refine_turns_witness:
  "\<exists>s Q. server_reachable demo s \<and> s = (srv halfway)\<lparr>kernel := (kernel (srv halfway))\<lparr>rx := Q\<rparr>\<rparr> \<and>
     read_request s 7 (piece_client BINARY) (kernel s) =
       rest_of (text_command_names s) 7 (InHeader ([1, 0, 0] @ replicate 13 0) 3) (set_rx 7 [] (kernel s)) \<and>
     read_request s 8 (piece_client TEXT) (kernel s) =
       rest_of (text_command_names s) 8 (InLine ''1'' [0] 0) (set_rx 8 [] (kernel s))"
proof -
  have "reads halfway 7 = Some (InHeader ([1, 0, 0] @ replicate 13 0) 3)" "reads halfway 8 = Some (InLine ''1'' [0] 0)"
      "conns (srv halfway) 7 = Some (piece_client BINARY)" "conns (srv halfway) 8 = Some (piece_client TEXT)"
      "rx (kernel (srv halfway)) 7 = []" "rx (kernel (srv halfway)) 8 = []"
    by (simp_all add: halfway_def)
  note half = this
  obtain s Q where s: "server_reachable demo s" "s = (srv halfway)\<lparr>kernel := (kernel (srv halfway))\<lparr>rx := Q\<rparr>\<rparr>"
      "\<forall>f st. reads halfway f = Some st \<longrightarrow>
       (\<exists>c. conns (srv halfway) f = Some c \<and> c_flight c = None \<and> \<not> c_leaving c \<and>
          read_request s f c (kernel s) =
            rest_of (text_command_names s) f st (set_rx f (rx (kernel (srv halfway)) f) (kernel s)))"
    using interleaved_reads_refine_turns [OF halfway_reachable demo_initial demo_ignores_rx] by blast
  have "read_request s 7 (piece_client BINARY) (kernel s) =
       rest_of (text_command_names s) 7 (InHeader ([1, 0, 0] @ replicate 13 0) 3) (set_rx 7 [] (kernel s))"
    using s(3) [rule_format, OF half(1)] unfolding half(3,5) option.inject by blast
  moreover have "read_request s 8 (piece_client TEXT) (kernel s) =
       rest_of (text_command_names s) 8 (InLine ''1'' [0] 0) (set_rx 8 [] (kernel s))"
    using s(3) [rule_format, OF half(2)] unfolding half(4,6) option.inject by blast
  ultimately show ?thesis using s(1,2) by blast
qed

text \<open>The rest of the ping arrives.\<close>

definition ping_tail :: bytes where
  "ping_tail = [0, 0, 0, 0, 0, 5, 0, 0, 0, 0, 0, 0, 0]"

definition completed_ping :: fine_server where
  "completed_ping = halfway\<lparr>srv := (srv halfway)\<lparr>kernel := set_rx 7 [RxData ping_tail] (kernel (srv halfway))\<rparr>\<rparr>"

lemma completed_ping_fields [simp]:
  "conns (srv completed_ping) 7 = Some (piece_client BINARY)" "session_store (srv completed_ping) = Some InMemorySessionStore"
  "store_state (srv completed_ping) = Map.empty" "rx (kernel (srv completed_ping)) 7 = [RxData ping_tail]"
  "reading_of 7 (piece_client BINARY) completed_ping = InHeader ([1, 0, 0] @ replicate 13 0) 3"
  by (simp_all add: completed_ping_def halfway_def reading_of_def)

lemma completed_ping_reachable: "fine_reachable demo completed_ping"
proof -
  have "fine_step halfway completed_ping"
    unfolding completed_ping_def
    by (rule fine_step.arrive [where evs = "\<lambda>f. if f = 7 then [RxData ping_tail] else []"])
      (simp_all add: fun_eq_iff halfway_def)
  with halfway_reachable show ?thesis by (rule fine_reachable.step)
qed

lemma completed_ping_rest:
  "\<exists>q. rest_of cmd_names 7 (InHeader ([1, 0, 0] @ replicate 13 0) 3) (kernel (srv completed_ping)) =
     (Ret ping_frame, set_rx 7 q (kernel (srv completed_ping))) \<and> avail q = []"
proof -
  let ?q0 = "[RxData [1, 0, 0], RxData ping_tail]" and ?k = "kernel (srv completed_ping)"
  have got: "got_to cmd_names BINARY ?q0 (InHeader ([1, 0, 0] @ replicate 13 0) 3) [RxData ping_tail]"
    by (rule got_to.receive [OF got_to.start, where d = "(3, [1, 0, 0])"])
      (simp_all add: reading_start_def waiting_def sizeof_FrameHeader_def resume_read_def exact_more_def overwrite_def size_add_def)
  have "frame_bytes ping_frame = [1, 0, 0] @ ping_tail" unfolding ping_tail_def by code_simp
  then have "avail (rx (set_rx 7 ?q0 ?k) 7) = frame_bytes ping_frame @ []" by (simp add: ping_tail_def)
  moreover have "wf_frame ping_frame" by simp
  ultimately obtain q where "read_frame 7 (set_rx 7 ?q0 ?k) = (Ret ping_frame, set_rx 7 q ?k)" "avail q = []"
    by (metis read_frame_stream set_rx_simps(2))
  moreover have "read_frame 7 (set_rx 7 ?q0 ?k) = rest_of cmd_names 7 (InHeader ([1, 0, 0] @ replicate 13 0) 3) ?k"
    using got_to_rest [OF got, where w = "set_rx 7 ?q0 ?k" and f = 7] set_rx_simps(3) [of 7 ?k]
    by (simp add: rest_of_start del: rest_of.simps)
  ultimately show ?thesis by metis
qed

theorem suspended_read_completes_witness:
  "\<exists>n y. n \<le> 14 \<and> (read_turn 7 (piece_client BINARY) ^^ n) completed_ping = y \<and> reads y 7 = None \<and>
     avail (rx (kernel (srv y)) 7) = [] \<and>
     conns (srv y) 7 = Some ((piece_client BINARY)\<lparr>current_sid := 5, c_flight := Some (ping_frame, new_session 5)\<rparr>)"
proof -
  let ?c = "piece_client BINARY" and ?k = "kernel (srv completed_ping)"
  obtain q where rest: "rest_of (text_command_names (srv completed_ping)) 7 (reading_of 7 ?c completed_ping) ?k =
     (Ret ping_frame, set_rx 7 q ?k)" and q: "avail q = []"
    using completed_ping_rest unfolding completed_ping_fields(5) by blast
  have c: "c_flight ?c = None" "\<not> c_leaving ?c" by (simp_all add: piece_client_def)
  have got: "got_frame (reading_of 7 ?c completed_ping) = None" by simp
  have eqs: "session_id (cf_header ping_frame) = 5" "im_mem Map.empty 5 = new_session 5"
      "rx_weight [RxData ping_tail] = 14"
    by (simp_all add: ping_frame_def im_mem_def ping_tail_def)
  obtain n y where y: "n \<le> 14" "(read_turn 7 ?c ^^ n) completed_ping = y" "reads y 7 = None"
      "kernel (srv y) = set_rx 7 q ?k"
      "conns (srv y) 7 = Some (?c\<lparr>current_sid := 5, c_flight := Some (ping_frame, new_session 5)\<rparr>)"
    using suspended_read_completes [OF completed_ping_reachable demo_initial demo_ignores_rx
        completed_ping_fields(1) c completed_ping_fields(2) got rest]
    unfolding completed_ping_fields(3,4) eqs by blast
  have "avail (rx (kernel (srv y)) 7) = []" using y(4) q by simp
  with y show ?thesis by blast
qed

end
