(* ===== verification/Spec2Isabelle.thy ===== *)
theory Spec2Isabelle
  imports Concrete_Runs Pool_Runs Service_Runs Loop_Runs Read_Runs
begin

text \<open>
  \<^bold>\<open>servd: a verification library for an io\_uring application server\<close>

  servd (\<^verbatim>\<open>include/servd\<close>, \<^verbatim>\<open>src\<close>, \<^verbatim>\<open>app/main.cpp\<close>) is a C++20 server library. An
  application registers commands with handlers; clients send frames over TCP, UNIX or UDP
  sockets, in a binary or in a text format; each frame names a command and a session. One
  thread runs an event loop over an io\_uring; everything that waits is a coroutine, and a
  thread pool runs blocking functions and posts their coroutines back to the loop. A security
  layer agrees keys by X25519 and seals commands by AES-256-GCM. A discovery responder answers
  broadcast lookups. Two interfaces can be replaced by the application: the session store and
  the authenticator.

  \<^bold>\<open>How code becomes definitions\<close>

  A coroutine is a function from a state to an outcome and a new state: it returns, throws, or
  is still suspended because the kernel has not delivered the completion it waits for
  (\<^theory_text>\<open>Ret\<close>, \<^theory_text>\<open>Throw\<close>, \<^theory_text>\<open>Pending\<close> of \<^verbatim>\<open>Servd_Prelude\<close>); \<^verbatim>\<open>co_await\<close> is
  \<^theory_text>\<open>co_bind\<close>. The kernel is a record of queues of completions (\<^theory_text>\<open>world\<close> in
  \<^verbatim>\<open>Uring_IO\<close>): what will arrive on each socket and in which segments, which results sends
  will have, what the random sources will give; what was sent is logged. A turn that comes out
  \<^theory_text>\<open>Pending\<close> leaves the state as it was and is taken again when the completion is there. For
  the reads of the clients, which wait most, \<^verbatim>\<open>Interleaved_Reads\<close> proves that this is the same
  as suspending at every receive with a part of the request in hand. Exceptions are values of a datatype; the
  one that no \<^verbatim>\<open>catch (const std::exception&)\<close> catches is kept apart. Machine integers are
  words of their width; \<^verbatim>\<open>size_t\<close> arithmetic wraps where the code's does. Code outside the
  repository is a parameter: Botan (\<^theory_text>\<open>botan\<close>, with the named hypotheses
  \<^theory_text>\<open>gcm_tag_appended\<close>, \<^theory_text>\<open>gcm_decrypts\<close>, \<^theory_text>\<open>x25519_sizes\<close>,
  \<^theory_text>\<open>x25519_commutes\<close>, all satisfied by the concrete instance of \<^verbatim>\<open>App_Main\<close>),
  \<^verbatim>\<open>sd_bus_process\<close>, the file system, the clock and \<^verbatim>\<open>printf\<close>.

  \<^bold>\<open>The theories\<close>

  \<^item> \<^verbatim>\<open>Servd_Prelude\<close>: words and bytes, exceptions, coroutines and their evaluation rules
    (\<^theory_text>\<open>co_simps\<close>), little-endian representation, and the locale
    \<^theory_text>\<open>stutter_simulation\<close> by which a finer step relation implements a coarser one (interpreted
    on coroutine frames and on interleaved reads). \<^verbatim>\<open>Std_Text\<close>: what the code uses of
    the C++ library for text (\<^verbatim>\<open>from_chars\<close>, stream extraction, \<^verbatim>\<open>stoi\<close>, \<^verbatim>\<open>stoul\<close>,
    decimal output) with the print/read round trips.
  \<^item> \<^verbatim>\<open>Wire_Protocol\<close> (\<^verbatim>\<open>Protocol.hpp\<close>): frame header and discovery packet as packed
    structs; every field's offset and byte order, and the layouts as bijections.
  \<^item> \<^verbatim>\<open>Session_Store\<close> (\<^verbatim>\<open>Session.hpp\<close>, \<^verbatim>\<open>ISessionStore.hpp\<close>,
    \<^verbatim>\<open>InMemorySessionStore.hpp\<close>): the interface is the locale \<^theory_text>\<open>session_memory\<close>, an
    abstract memory of sessions; its interpretation on the in-memory store is the refinement
    proof, and the messaging layer is proved against the locale.
  \<^item> \<^verbatim>\<open>Uring_IO\<close> (\<^verbatim>\<open>IoUring.cpp\<close>, \<^verbatim>\<open>IoUringMsg.cpp\<close>), \<^verbatim>\<open>Frame_IO\<close>
    (\<^verbatim>\<open>FrameIO.cpp\<close>), \<^verbatim>\<open>Connections\<close> (\<^verbatim>\<open>ConnectionImpl.cpp\<close>, \<^verbatim>\<open>UdpConnection.cpp\<close>):
    exact reads are independent of segmentation; frames and text requests are read in order;
    truncated frames are never delivered; replies are read back.
  \<^item> \<^verbatim>\<open>Crypto_Layer\<close> (\<^verbatim>\<open>include/servd/crypto\<close>), \<^verbatim>\<open>Request_Context\<close> (\<^verbatim>\<open>Context.hpp\<close>,
    \<^verbatim>\<open>router/\<close>, the authenticators), \<^verbatim>\<open>Command_Pipeline\<close> (\<^verbatim>\<open>CommandRoute.cpp\<close>,
    \<^verbatim>\<open>EncryptedHandler.cpp\<close>) and \<^verbatim>\<open>Pipeline_Properties\<close>: from a frame to a reply. Key
    agreement, the encrypted round trip, the authentication and transport gate on the plain and
    on the encrypted path, and what is silently ignored. \<^verbatim>\<open>Encrypted_Equivalence\<close>: the plain
    and the encrypted path differ in the form of the reply only, whatever handlers do.
  \<^item> \<^verbatim>\<open>Server_State\<close> (\<^verbatim>\<open>Server.hpp\<close>, \<^verbatim>\<open>Engine.hpp\<close>, \<^verbatim>\<open>ServerConfiguration.cpp\<close>,
    \<^verbatim>\<open>ServerRouting.cpp\<close>), \<^verbatim>\<open>Client_Engine\<close> (\<^verbatim>\<open>ClientHandlers.cpp\<close>: the stream clients and
    the accept loop), \<^verbatim>\<open>Client_Invariants\<close> (the interleavings as a step relation, the locale
    \<^theory_text>\<open>step_invariant\<close> for invariants of it, interpreted twice) and
    \<^verbatim>\<open>Engine_Properties\<close>: connection limit, registrations, disconnects with and without a
    callback, failing commands, refused messages, lost updates. A client
    coroutine has four stages: reading, a request in flight, leaving (waiting on the pool for
    the disconnect callback) and gone.
  \<^item> \<^verbatim>\<open>Client_Turns\<close>: \<^verbatim>\<open>handle_client\<close> and \<^verbatim>\<open>text_handle_client\<close> as they are written, shown
    equal to the stages. \<^verbatim>\<open>Connection_Service\<close>: an abstract service, a table of actions on a
    memory of sessions; a whole connection implements it, from the bytes a client sends to the
    bytes it gets back, and text and binary clients get the same service.
    \<^verbatim>\<open>Sealed_Service\<close> and \<^verbatim>\<open>Secure_Conversation\<close>: a conversation of commands in the clear,
    key exchanges and commands sealed under the key agreed last, in any order, implements that
    service too, and what the client reads back opens under its keys to the service's replies.
  \<^item> \<^verbatim>\<open>Whole_Server\<close>: all the coroutines of the engine as one step relation. The locale
    \<^theory_text>\<open>turn_relation\<close> carries what the background coroutines have in common and is
    interpreted twice: their turns are steps of the clients' relation, so that the invariants
    of the clients hold for the whole server, and they leave the sessions as they read. Sessions
    stay well-formed, and a step changes one session at most.
  \<^item> \<^verbatim>\<open>Partial_Reads\<close> and \<^verbatim>\<open>Interleaved_Reads\<close>: the reads of \<^verbatim>\<open>FrameIO.cpp\<close> cut at every
    receive, with the locals of the suspended coroutine as data, and the whole server with these
    suspension points. Code that cannot receive commutes with changes of the receive queues, and
    the finer server implements that of \<^verbatim>\<open>Whole_Server\<close>, so
    that what is shown there holds with requests arriving in pieces too, and a read completes as
    soon as its bytes are there.
  \<^item> \<^verbatim>\<open>Messaging\<close> (\<^verbatim>\<open>SessionBroadcast.cpp\<close>, \<^verbatim>\<open>ServerMessaging.cpp\<close>),
    \<^verbatim>\<open>Datagram_Engine\<close> (UDP and discovery loops, idle announcement) and
    \<^verbatim>\<open>Delivery_Properties\<close>: who gets which frame, datagrams do not mix, discovery.
  \<^item> \<^verbatim>\<open>Event_Loop\<close> (\<^verbatim>\<open>EngineCore.cpp\<close>), \<^verbatim>\<open>Thread_Pool\<close> (\<^verbatim>\<open>ThreadPool.hpp\<close>),
    \<^verbatim>\<open>Task_Join\<close> (\<^verbatim>\<open>when_all\<close> of \<^verbatim>\<open>Task.hpp\<close>): the concurrent machinery, as
    interleavings of critical sections; posted coroutines run exactly once, no wakeup is lost,
    a join continues its caller exactly once, the destructor of the pool ends and drops
    nothing; the tuple and the vector form of the join agree. \<^verbatim>\<open>Pool_On_Loop\<close> (\<^verbatim>\<open>Server::enable_thread_pool\<close>): pool and loop composed, and the
    order in which \<^verbatim>\<open>~Server\<close> takes them down.
  \<^item> \<^verbatim>\<open>Task_Frames\<close> (\<^verbatim>\<open>Task.hpp\<close>): promises, continuations, the transfer of control between
    coroutines, destruction of awaited tasks, detached tasks, \<^verbatim>\<open>Task<void>\<close>. The machine of
    frames implements the functional reading of coroutines on which everything else is built,
    and leaks nothing.
  \<^item> \<^verbatim>\<open>Loop_Frames\<close> (\<^verbatim>\<open>EngineCore.cpp\<close> over \<^verbatim>\<open>Task.hpp\<close> and \<^verbatim>\<open>ThreadPool.hpp\<close>): many
    chains of frames on one event loop, suspended on operations of the ring or on functions at
    the pool. The engine implements a crowd of resumptions that take turns, each from one wait
    to the next; every handle held by the ring, by the waiting posts or by the pool is that of
    a coroutine suspended for just that wait; the thread always comes back to the loop.
  \<^item> \<^verbatim>\<open>Lifecycle\<close> (\<^verbatim>\<open>ServerLifecycle.cpp\<close>, timer and bus loops), \<^verbatim>\<open>Logging\<close>
    (\<^verbatim>\<open>Logger.cpp\<close>), \<^verbatim>\<open>Config_File\<close> (\<^verbatim>\<open>ServerConfigFile.cpp\<close>), \<^verbatim>\<open>App_Main\<close>
    (\<^verbatim>\<open>app/main.cpp\<close>).
  \<^item> \<^verbatim>\<open>Concrete_Runs\<close>, \<^verbatim>\<open>Pool_Runs\<close>, \<^verbatim>\<open>Service_Runs\<close>, \<^verbatim>\<open>Loop_Runs\<close>,
    \<^verbatim>\<open>Read_Runs\<close>: concrete servers, clients, pools and
    byte streams on which the properties with hypotheses are instantiated.

  \<^bold>\<open>Termination and bounds\<close>

  Every loop but one is a total function: the exact read and the line reader terminate because
  each turn uses up part of the finite queue of completions, the drain loop because the list of
  waiting posts gets shorter. The endless loops of the engine are modelled turn by turn. The
  loop around \<^verbatim>\<open>sd_bus_process\<close> is a partial function whose termination depends on the
  library; \<^verbatim>\<open>Lifecycle\<close> shows that it ends once the library has nothing left to do. No fuel
  is used anywhere. The machine of frames is proved to come to rest on every body, by induction
  over the body, the engine's thread to return to the loop by a multiset order on the bodies
  still to be run, and the threads of a stopping pool to end by a measure of the work left. The
  invariants about counters rely on descriptors being non-negative
  \<^verbatim>\<open>int\<close>s, so that at most \<open>2\<^sup>3\<^sup>1\<close> are open and the 64-bit counter cannot wrap.

  \<^bold>\<open>What the development shows of weaknesses\<close>

  Some properties state what the code does where that is hardly meant: session 0 is delivered
  to strangers, concurrent updates of a session are lost, a disconnect callback without a
  thread pool leaks connections, a broadcast stops at the first failing client, the destruction
  of a server with busy workers uses the destroyed engine, a second log file silences the log,
  ports of the configuration file are truncated, address reuse is never switched on, and the
  text format differs from its description. A connection survives an encrypted message whose
  tag is refused, which the README says drops it.

  \<^bold>\<open>What is not modelled\<close>

  The calls of the logger inside the other components; exhaustion of memory, and strings beyond
  \<^verbatim>\<open>max_size\<close> (a log column of such a width throws \<^verbatim>\<open>length_error\<close>); a failing
  \<^verbatim>\<open>io_uring_submit\<close> of a post; more tasks in one \<^verbatim>\<open>when_all\<close> than its 32-bit counter
  holds; references held
  across a wait as memory (frames are objects with a lifetime, their locals are values), and
  with them the dangling header of \<^verbatim>\<open>Context::push_event\<close>; what happens after a
  coroutine asked a full submission queue for an entry (the code dereferences a null pointer;
  \<^verbatim>\<open>Loop_Frames\<close> records it as a fault, the other theories take the entry to be there); data
  races on the submission queue; the system calls that register the signal handler; sd-bus
  itself. In the theories of the clients a suspension inside a handler, and the wait for the
  completion of its reply, are collapsed into the turn they belong to: handlers are arbitrary
  functions there, which have no inside, and they act on their \<^verbatim>\<open>Context\<close> only: a handler that
  calls the store, the registrations or a broadcast through a captured server is not covered.
  The record of disconnect callbacks lists those that returned; one that threw leaves no entry.
  The bodies of \<^verbatim>\<open>Task_Frames\<close> are finite trees of awaits: the endless
  loops of the engine are taken turn by turn there as well.

  \<^bold>\<open>What could be added\<close>

  Handlers as bodies with waits of their own, so that the replies become suspension points of
  the finer server as the receives are; \<^verbatim>\<open>when_all\<close> as fork and join inside the machine of
  frames instead of beside it. The loop of \<^verbatim>\<open>async_read_exact\<close> cannot be a body of
  \<^verbatim>\<open>Loop_Frames\<close> as it stands: with the result \<^verbatim>\<open>-ETIME\<close>, which \<^verbatim>\<open>await_resume\<close> lets through,
  it may turn without end, and bodies are finite; its suspensions are modelled in
  \<^verbatim>\<open>Partial_Reads\<close> instead.
\<close>

end
